(* ===== verification/Sdk_Errors.thy ===== *)
theory Sdk_Errors
  imports Go_Prelude
begin

text \<open>
  The error values of the SDK: \<open>errors.go\<close>, \<open>internal/sdkerrors/errors.go\<close>, the
  lifecycle error of \<open>log/log.go\<close>, the checkpoint-continuity error of
  \<open>log/c2sptlog/checkpoint_store.go\<close>, the resource errors of \<open>resource_fetcher.go\<close> and the
  classification of log failures in \<open>log/c2sptlog/client.go\<close>. One datatype holds every error the modelled
  code returns, with the wrapped cause as an optional argument, so that \<open>errors.As\<close>
  and \<open>errors.Is\<close> are functions on the chain of causes. A message is the constant
  part of the message in the source: operands that are formatted into it are left out.
\<close>

datatype VerificationCode =
    DNSResolution | DNSSECFailed | RecordNotFound | RecordInvalid | SignatureInvalid
  | TLSError | KeyAgeExceeded | StatusUnavailable | StatusNotActive | LogErrorCode
  | CounterpartyNotAccepted
  | ChainContinuity | DuplicateIssuance | InvalidEvidence | IncompleteStream
  | KeyContinuity | InvalidMigration | TerminalState | LogRollback | LogFork
  | LogInconsistent | CheckpointStoreCode | JWKSUnavailable
  | KeyNotFound | AgentNotFound | TokenExpired | TokenNotYetValid | MalformedToken
  | InvalidClaims | AudienceMismatch | IssuerMismatch | LifetimeTooLong
  | PolicyNotSatisfied

fun code_text :: "VerificationCode \<Rightarrow> string" where
  "code_text DNSResolution = ''dns_resolution''"
| "code_text DNSSECFailed = ''dnssec_failed''"
| "code_text RecordNotFound = ''record_not_found''"
| "code_text RecordInvalid = ''record_invalid''"
| "code_text SignatureInvalid = ''signature_invalid''"
| "code_text TLSError = ''tls_error''"
| "code_text KeyAgeExceeded = ''key_age_exceeded''"
| "code_text StatusUnavailable = ''status_unavailable''"
| "code_text StatusNotActive = ''status_not_active''"
| "code_text LogErrorCode = ''log_error''"
| "code_text CounterpartyNotAccepted = ''counterparty_not_accepted''"
| "code_text ChainContinuity = ''CHAIN_CONTINUITY''"
| "code_text DuplicateIssuance = ''DUPLICATE_ISSUANCE''"
| "code_text InvalidEvidence = ''INVALID_EVIDENCE''"
| "code_text IncompleteStream = ''INCOMPLETE_STREAM''"
| "code_text KeyContinuity = ''KEY_CONTINUITY''"
| "code_text InvalidMigration = ''INVALID_MIGRATION''"
| "code_text TerminalState = ''TERMINAL_STATE''"
| "code_text LogRollback = ''LOG_ROLLBACK''"
| "code_text LogFork = ''LOG_FORK''"
| "code_text LogInconsistent = ''LOG_INCONSISTENT''"
| "code_text CheckpointStoreCode = ''CHECKPOINT_STORE_ERROR''"
| "code_text JWKSUnavailable = ''jwks_unavailable''"
| "code_text KeyNotFound = ''key_not_found''"
| "code_text AgentNotFound = ''agent_not_found''"
| "code_text TokenExpired = ''token_expired''"
| "code_text TokenNotYetValid = ''token_not_yet_valid''"
| "code_text MalformedToken = ''malformed_token''"
| "code_text InvalidClaims = ''invalid_claims''"
| "code_text AudienceMismatch = ''audience_mismatch''"
| "code_text IssuerMismatch = ''issuer_mismatch''"
| "code_text LifetimeTooLong = ''lifetime_too_long''"
| "code_text PolicyNotSatisfied = ''policy_not_satisfied''"

datatype CheckpointAdvanceErrorKind =
    AdvanceRollback | AdvanceRootConflict | AdvanceConsistencyFailed
  | AdvanceConsistencyUnavailable

datatype ResourceFetchErrorKind =
    ResourceFetchMalformedURL | ResourceFetchUnsafeDestination | ResourceFetchRedirect
  | ResourceFetchResponseLimit | ResourceFetchHTTPStatus | ResourceFetchUnavailable

datatype sdk_error =
    ParseError string "sdk_error option"
  | ValidationError string "sdk_error option"
  | ArgumentError string "sdk_error option"
  | VerificationError VerificationCode bool string "string \<times> string" string "sdk_error option"
      \<comment> \<open>code, transient, agent state, verified (gi, entity thumbprint), message, cause\<close>
  | LifecycleError string "nat option"
      \<comment> \<open>the log package's error: its category and the index of the event\<close>
  | CheckpointAdvanceError CheckpointAdvanceErrorKind string nat nat bytes bytes bool "sdk_error option"
  | ResourceFetchError ResourceFetchErrorKind nat bool "sdk_error option"
      \<comment> \<open>kind, HTTP status, transient, cause\<close>
  | HTTPStatusError nat
  | TLSPolicyError string
  | ContextError string
  | PlainError string "sdk_error option"

definition NewVerificationError ::
  "VerificationCode \<Rightarrow> bool \<Rightarrow> string \<Rightarrow> sdk_error option \<Rightarrow> sdk_error" where
  "NewVerificationError code transient msg cause =
     VerificationError code transient '''' ('''', '''') msg cause"

text \<open>The functional options \<open>WithAgentState\<close> and \<open>WithVerifiedIdentity\<close>.\<close>

fun WithAgentState :: "string \<Rightarrow> sdk_error \<Rightarrow> sdk_error" where
  "WithAgentState st (VerificationError c t _ vi m cause) = VerificationError c t st vi m cause"
| "WithAgentState st e = e"

fun WithVerifiedIdentity :: "string \<Rightarrow> string \<Rightarrow> sdk_error \<Rightarrow> sdk_error" where
  "WithVerifiedIdentity gi th (VerificationError c t st _ m cause) =
     VerificationError c t st (gi, th) m cause"
| "WithVerifiedIdentity gi th e = e"

subsection \<open>The chain of causes\<close>

fun Unwrap :: "sdk_error \<Rightarrow> sdk_error option" where
  "Unwrap (ParseError m c) = c"
| "Unwrap (ValidationError m c) = c"
| "Unwrap (ArgumentError m c) = c"
| "Unwrap (VerificationError k t s v m c) = c"
| "Unwrap (LifecycleError k i) = None"
| "Unwrap (CheckpointAdvanceError k o1 n1 n2 r1 r2 sp c) = c"
| "Unwrap (ResourceFetchError k n t c) = c"
| "Unwrap (HTTPStatusError n) = None"
| "Unwrap (TLSPolicyError m) = None"
| "Unwrap (ContextError m) = None"
| "Unwrap (PlainError m c) = c"

lemma Unwrap_size [termination_simp]: "Unwrap e = Some e' \<Longrightarrow> size e' < size e"
  by (cases e) auto

text \<open>\<open>errors.As\<close>: the first error of the chain that satisfies the predicate.\<close>

function errors_As :: "(sdk_error \<Rightarrow> bool) \<Rightarrow> sdk_error \<Rightarrow> sdk_error option" where
  "errors_As p e =
     (if p e then Some e
      else (case Unwrap e of None \<Rightarrow> None | Some e' \<Rightarrow> errors_As p e'))"
  by pat_completeness auto
termination
  by (relation "measure (\<lambda>(p, e). size e)") (auto simp: Unwrap_size)

declare errors_As.simps [simp del]

fun is_VerificationError :: "sdk_error \<Rightarrow> bool" where
  "is_VerificationError (VerificationError _ _ _ _ _ _) = True"
| "is_VerificationError _ = False"

fun is_ParseError :: "sdk_error \<Rightarrow> bool" where
  "is_ParseError (ParseError _ _) = True"
| "is_ParseError _ = False"

fun is_ValidationError :: "sdk_error \<Rightarrow> bool" where
  "is_ValidationError (ValidationError _ _) = True"
| "is_ValidationError _ = False"

fun is_ArgumentError :: "sdk_error \<Rightarrow> bool" where
  "is_ArgumentError (ArgumentError _ _) = True"
| "is_ArgumentError _ = False"

fun is_CheckpointAdvanceError :: "sdk_error \<Rightarrow> bool" where
  "is_CheckpointAdvanceError (CheckpointAdvanceError _ _ _ _ _ _ _ _) = True"
| "is_CheckpointAdvanceError _ = False"

fun is_ResourceFetchError :: "sdk_error \<Rightarrow> bool" where
  "is_ResourceFetchError (ResourceFetchError _ _ _ _) = True"
| "is_ResourceFetchError _ = False"

text \<open>The errors that have a method \<open>Transient() bool\<close>, and what it returns.\<close>

fun transientOf :: "sdk_error \<Rightarrow> bool option" where
  "transientOf (VerificationError _ t _ _ _ _) = Some t"
| "transientOf (ResourceFetchError _ _ t _) = Some t"
| "transientOf (CheckpointAdvanceError _ _ _ _ _ _ _ _) = Some False"
| "transientOf (LifecycleError _ _) = Some False"
| "transientOf _ = None"

fun is_ContextError :: "sdk_error \<Rightarrow> bool" where
  "is_ContextError (ContextError _) = True"
| "is_ContextError _ = False"

fun Code :: "sdk_error \<Rightarrow> VerificationCode option" where
  "Code (VerificationError c _ _ _ _ _) = Some c"
| "Code _ = None"

fun Transient :: "sdk_error \<Rightarrow> bool" where
  "Transient (VerificationError _ t _ _ _ _) = t"
| "Transient _ = False"

lemma errors_As_Some: "errors_As p e = Some e' \<Longrightarrow> p e'"
proof (induction p e rule: errors_As.induct)
  case (1 p e)
  then show ?case
    by (auto simp: errors_As.simps [of p e] split: if_splits option.splits)
qed

lemma errors_As_self [simp]: "p e \<Longrightarrow> errors_As p e = Some e"
  by (simp add: errors_As.simps)

subsection \<open>Matching against a sentinel\<close>

text \<open>\<open>invalidClaimsChildren\<close> and the \<open>Is\<close> methods.\<close>

definition invalidClaimsChildren :: "VerificationCode \<Rightarrow> bool" where
  "invalidClaimsChildren c = (c \<in> {AudienceMismatch, IssuerMismatch, LifetimeTooLong})"

fun verification_Is :: "sdk_error \<Rightarrow> sdk_error \<Rightarrow> bool" where
  "verification_Is (VerificationError c _ _ _ _ _) (VerificationError t _ _ _ _ _) =
     (if c = t then True
      else if t = InvalidClaims \<and> invalidClaimsChildren c then True else False)"
| "verification_Is _ _ = False"

fun error_Is :: "sdk_error \<Rightarrow> sdk_error \<Rightarrow> bool" where
  "error_Is (ParseError _ _) t = is_ParseError t"
| "error_Is (ValidationError _ _) t = is_ValidationError t"
| "error_Is (ArgumentError _ _) t = is_ArgumentError t"
| "error_Is (VerificationError c tr s v m cs) t = verification_Is (VerificationError c tr s v m cs) t"
| "error_Is e t = (e = t)"

text \<open>\<open>errors.Is\<close>: some error of the chain matches the target.\<close>

definition errors_Is :: "sdk_error \<Rightarrow> sdk_error \<Rightarrow> bool" where
  "errors_Is e target = (errors_As (\<lambda>x. error_Is x target) e \<noteq> None)"

text \<open>The \<open>Error\<close> methods: the message, a colon and the text of the cause.\<close>

function error_text :: "sdk_error \<Rightarrow> string" where
  "error_text (ParseError m c) =
     (case c of None \<Rightarrow> m | Some e \<Rightarrow> if m = '''' then error_text e else m @ '': '' @ error_text e)"
| "error_text (ValidationError m c) =
     (case c of None \<Rightarrow> m | Some e \<Rightarrow> if m = '''' then error_text e else m @ '': '' @ error_text e)"
| "error_text (ArgumentError m c) =
     (case c of None \<Rightarrow> m | Some e \<Rightarrow> if m = '''' then error_text e else m @ '': '' @ error_text e)"
| "error_text (VerificationError k t st v m c) =
     (let msg = (if m = '''' then code_text k else m);
          msg' = (if st \<noteq> '''' then msg @ '' [agent_state='' @ st @ '']'' else msg)
      in case c of None \<Rightarrow> msg' | Some e \<Rightarrow> msg' @ '': '' @ error_text e)"
| "error_text (LifecycleError k i) = ''dnsid: '' @ k"
| "error_text (CheckpointAdvanceError k orig n1 n2 r1 r2 sp c) =
     (case c of None \<Rightarrow> ''dnsid: c2sp-tlog checkpoint '' @ orig
      | Some e \<Rightarrow> ''dnsid: c2sp-tlog checkpoint '' @ orig @ '': '' @ error_text e)"
| "error_text (ResourceFetchError k n t c) =
     (case c of None \<Rightarrow> ''dnsid: c2sp-tlog resource'' | Some e \<Rightarrow> ''dnsid: c2sp-tlog resource: '' @ error_text e)"
| "error_text (HTTPStatusError n) = ''dnsid: HTTPS fetch returned HTTP''"
| "error_text (TLSPolicyError m) = m"
| "error_text (ContextError m) = m"
| "error_text (PlainError m c) =
     (case c of None \<Rightarrow> m | Some e \<Rightarrow> m @ '': '' @ error_text e)"
  by pat_completeness auto
termination
  by (relation "measure size") auto

subsection \<open>Classification of log failures\<close>

text \<open>\<open>resourceFailureTransient\<close> and \<open>logVerificationError\<close> of \<open>log/c2sptlog/client.go\<close>.\<close>

definition resourceFailureTransient :: "sdk_error \<Rightarrow> bool \<Rightarrow> bool" where
  "resourceFailureTransient e fallback =
     (case errors_As (\<lambda>x. transientOf x \<noteq> None) e of
        None \<Rightarrow> fallback
      | Some x \<Rightarrow> the (transientOf x))"

fun advanceErrorCode :: "sdk_error \<Rightarrow> VerificationCode" where
  "advanceErrorCode (CheckpointAdvanceError AdvanceRollback _ _ _ _ _ _ _) = LogRollback"
| "advanceErrorCode (CheckpointAdvanceError AdvanceRootConflict _ _ _ _ _ _ _) = LogFork"
| "advanceErrorCode (CheckpointAdvanceError AdvanceConsistencyFailed _ _ _ _ _ _ _) = LogInconsistent"
| "advanceErrorCode _ = InvalidEvidence"

definition logVerificationError :: "sdk_error \<Rightarrow> bool \<Rightarrow> sdk_error" where
  "logVerificationError err transient =
     (if errors_As is_VerificationError err \<noteq> None then err
      else (case errors_As is_CheckpointAdvanceError err of
              Some adv \<Rightarrow>
                NewVerificationError (advanceErrorCode adv) False
                  ''dnsid: c2sp-tlog checkpoint continuity failed'' (Some err)
            | None \<Rightarrow>
                if errors_As is_ParseError err \<noteq> None \<or> errors_As is_ValidationError err \<noteq> None
                   \<or> errors_As is_ArgumentError err \<noteq> None
                then err
                else NewVerificationError LogErrorCode (resourceFailureTransient err transient)
                       ''dnsid: c2sp-tlog verification failed'' (Some err)))"

end
