(* ===== verification/Crypto_Util.thy ===== *)
theory Crypto_Util
  imports Sdk_Errors
begin

text \<open>
  Signature helpers (\<open>internal/cryptoutil\<close>): which Ed25519 public keys are accepted, the raw
  64-byte form of ES256 signatures and its verification.

  The curve arithmetic of \<open>crypto/ed25519\<close> and \<open>crypto/ecdsa\<close>, SHA-256 and the ASN.1 parser are
  parameters. The lemmas relate the byte tests to the numbers they stand for.
\<close>

section \<open>Ed25519\<close>

definition hexBytes :: "nat \<Rightarrow> nat \<Rightarrow> nat \<Rightarrow> bytes" where
  "hexBytes b0 mid b31 = char_of b0 # replicate 30 (char_of mid) @ [char_of b31]"

definition fromHexCodes :: "nat list \<Rightarrow> bytes" where
  "fromHexCodes ns = map char_of ns"

definition ed25519Order8 :: "nat \<Rightarrow> bytes" where
  "ed25519Order8 b31 = fromHexCodes
     [0x26, 0xe8, 0x95, 0x8f, 0xc2, 0xb2, 0x27, 0xb0, 0x45, 0xc3, 0xf4, 0x89, 0xf2, 0xef, 0x98, 0xf0,
      0xd5, 0xdf, 0xac, 0x05, 0xd3, 0xc6, 0x33, 0x39, 0xb1, 0x38, 0x02, 0x88, 0x6d, 0x53, 0xfc, b31]"

definition ed25519Order8' :: "nat \<Rightarrow> bytes" where
  "ed25519Order8' b31 = fromHexCodes
     [0xc7, 0x17, 0x6a, 0x70, 0x3d, 0x4d, 0xd8, 0x4f, 0xba, 0x3c, 0x0b, 0x76, 0x0d, 0x10, 0x67, 0x0f,
      0x2a, 0x20, 0x53, 0xfa, 0x2c, 0x39, 0xcc, 0xc6, 0x4e, 0xc7, 0xfd, 0x77, 0x92, 0xac, 0x03, b31]"

definition ed25519SmallOrder :: "bytes list" where
  "ed25519SmallOrder =
     [hexBytes 0x01 0x00 0x00, hexBytes 0x01 0x00 0x80, hexBytes 0xec 0xff 0x7f, hexBytes 0xec 0xff 0xff,
      hexBytes 0x00 0x00 0x00, hexBytes 0x00 0x00 0x80, ed25519Order8 0x05, ed25519Order8 0x85,
      ed25519Order8' 0x7a, ed25519Order8' 0xfa]"

text \<open>\<open>b & 0x7f\<close> of a byte is its value modulo 128.\<close>

definition clearSign :: "bytes \<Rightarrow> bytes" where
  "clearSign pub = pub[31 := char_of ((of_char (pub ! 31) :: nat) mod 128)]"

definition ValidEd25519PublicKey :: "bytes \<Rightarrow> bool" where
  "ValidEd25519PublicKey pub =
     (if length pub \<noteq> 32 then False
      else if clearSign pub ! 31 = CHR 0x7F \<and> take 30 (drop 1 (clearSign pub)) = replicate 30 (CHR 0xFF)
              \<and> clearSign pub ! 0 \<ge> CHR 0xED then False
      else list_all (\<lambda>bad. pub \<noteq> bad) ed25519SmallOrder)"

definition VerifyEd25519 :: "(bytes \<Rightarrow> bytes \<Rightarrow> bytes \<Rightarrow> bool) \<Rightarrow> bytes \<Rightarrow> bytes \<Rightarrow> bytes \<Rightarrow> bool" where
  "VerifyEd25519 ed25519Verify pub payload sig =
     (length sig = 64 \<and> ValidEd25519PublicKey pub \<and> ed25519Verify pub payload sig)"

section \<open>ES256\<close>

abbreviation "ES256SignatureSize \<equiv> (64::nat)"

definition P256Order :: nat where
  "P256Order = 0xFFFFFFFF00000000FFFFFFFFFFFFFFFFBCE6FAADA7179E84F3B9CAC2FC632551"

definition P256HalfOrder :: nat where
  "P256HalfOrder = P256Order div 2"

definition ErrInvalidP256 :: sdk_error where
  "ErrInvalidP256 = PlainError ''dnsid: invalid P-256 key'' None"

text \<open>
  What is used of \<open>crypto/ecdsa\<close> on public keys \<open>'p\<close> and private keys \<open>'q\<close>: the test for the
  curve, the uncompressed bytes and their parser, verification and signing of a digest.
\<close>

record ('p, 'q) ecdsaLib =
  ecOnP256 :: "'p \<Rightarrow> bool"
  ecBytes :: "'p \<Rightarrow> bytes option"
  ecParseUncompressed :: "bytes \<Rightarrow> bool"
  ecVerify :: "'p \<Rightarrow> bytes \<Rightarrow> nat \<Rightarrow> nat \<Rightarrow> bool"
  ecPrivOnP256 :: "'q \<Rightarrow> bool"
  ecPrivBytes :: "'q \<Rightarrow> bytes option"
  ecPublic :: "'q \<Rightarrow> 'p"
  ecSign :: "'q \<Rightarrow> bytes \<Rightarrow> bytes option"
  ecSha256 :: "bytes \<Rightarrow> bytes"
  ecASN1 :: "bytes \<Rightarrow> (int option \<times> int option \<times> bytes) option"

text \<open>\<open>big.Int.SetBytes\<close> and \<open>FillBytes\<close> of \<open>n\<close> bytes.\<close>

definition SetBytes :: "bytes \<Rightarrow> nat" where
  "SetBytes bs = foldl (\<lambda>a b. a * 256 + of_char b) 0 bs"

fun FillBytes :: "nat \<Rightarrow> nat \<Rightarrow> bytes" where
  "FillBytes 0 v = []"
| "FillBytes (Suc n) v = FillBytes n (v div 256) @ [char_of (v mod 256)]"

definition ES256RawRS :: "bytes \<Rightarrow> nat \<times> nat" where
  "ES256RawRS sig = (SetBytes (take 32 sig), SetBytes (drop 32 sig))"

definition ValidES256Signature :: "bytes \<Rightarrow> bool" where
  "ValidES256Signature sig =
     (if length sig \<noteq> ES256SignatureSize then False
      else (case ES256RawRS sig of (r, s) \<Rightarrow>
        if r = 0 \<or> s = 0 then False else r < P256Order \<and> s < P256Order))"

definition ValidateP256PublicKey :: "('p, 'q) ecdsaLib \<Rightarrow> 'p option \<Rightarrow> sdk_error + unit" where
  "ValidateP256PublicKey E pub =
     (case pub of
        None \<Rightarrow> Inl ErrInvalidP256
      | Some k \<Rightarrow>
          if \<not> ecOnP256 E k then Inl ErrInvalidP256
          else (case ecBytes E k of
                  None \<Rightarrow> Inl ErrInvalidP256
                | Some encoded \<Rightarrow> if ecParseUncompressed E encoded then Inr () else Inl ErrInvalidP256))"

definition ValidateP256PrivateKey :: "('p, 'q) ecdsaLib \<Rightarrow> 'q option \<Rightarrow> sdk_error + unit" where
  "ValidateP256PrivateKey E priv =
     (case priv of
        None \<Rightarrow> Inl ErrInvalidP256
      | Some k \<Rightarrow>
          if \<not> ecPrivOnP256 E k then Inl ErrInvalidP256
          else (case ecPrivBytes E k of
                  None \<Rightarrow> Inl ErrInvalidP256
                | Some _ \<Rightarrow> ValidateP256PublicKey E (Some (ecPublic E k))))"

definition VerifyES256 :: "('p, 'q) ecdsaLib \<Rightarrow> 'p option \<Rightarrow> bytes \<Rightarrow> bytes \<Rightarrow> bool" where
  "VerifyES256 E pub payload sig =
     (case ValidateP256PublicKey E pub of
        Inl _ \<Rightarrow> False
      | Inr _ \<Rightarrow>
          if \<not> ValidES256Signature sig then False
          else (case pub of
                  None \<Rightarrow> False
                | Some k \<Rightarrow> ecVerify E k (ecSha256 E payload) (fst (ES256RawRS sig)) (snd (ES256RawRS sig))))"

definition invalidSignerOutput :: sdk_error where
  "invalidSignerOutput = PlainError ''dnsid: invalid ES256 signer output'' None"

definition ES256RawFromDER :: "('p, 'q) ecdsaLib \<Rightarrow> bytes \<Rightarrow> sdk_error + bytes" where
  "ES256RawFromDER E der =
     (case ecASN1 E der of
        None \<Rightarrow> Inl invalidSignerOutput
      | Some (R, S, rest) \<Rightarrow>
          if rest \<noteq> [] then Inl invalidSignerOutput
          else (case (R, S) of
                  (Some r, Some s) \<Rightarrow>
                    if r \<le> 0 \<or> s \<le> 0 \<or> r \<ge> int P256Order \<or> s \<ge> int P256Order then Inl invalidSignerOutput
                    else Inr (FillBytes 32 (nat r)
                              @ FillBytes 32 (nat (if s > int P256HalfOrder then int P256Order - s else s)))
                | _ \<Rightarrow> Inl invalidSignerOutput))"

definition SignES256 :: "('p, 'q) ecdsaLib \<Rightarrow> 'q option \<Rightarrow> bytes \<Rightarrow> sdk_error + bytes" where
  "SignES256 E priv payload =
     rbind (ValidateP256PrivateKey E priv) (\<lambda>_.
       case priv of
         None \<Rightarrow> Inl ErrInvalidP256
       | Some k \<Rightarrow>
           (case ecSign E k (ecSha256 E payload) of
              None \<Rightarrow> Inl (PlainError ''ecdsa: signing failed'' None)
            | Some der \<Rightarrow> ES256RawFromDER E der))"

section \<open>Reference definitions\<close>

text \<open>The \<open>y\<close> coordinate a key encodes, and the field's prime.\<close>

fun leValue :: "bytes \<Rightarrow> nat" where
  "leValue [] = 0"
| "leValue (b # bs) = of_char b + 256 * leValue bs"

definition yCoordinate :: "bytes \<Rightarrow> nat" where
  "yCoordinate pub = leValue pub mod 2 ^ 255"

definition sample_ecdsa :: "(nat, nat) ecdsaLib" where
  "sample_ecdsa = \<lparr>ecOnP256 = (\<lambda>_. True), ecBytes = (\<lambda>_. Some []), ecParseUncompressed = (\<lambda>_. True),
     ecVerify = (\<lambda>_ _ _ _. True), ecPrivOnP256 = (\<lambda>_. True), ecPrivBytes = (\<lambda>_. Some []), ecPublic = id,
     ecSign = (\<lambda>_ d. Some d), ecSha256 = id, ecASN1 = (\<lambda>d. Some (Some (int (length d)), Some (int (P256Order - 3)), []))\<rparr>"

section \<open>Lemmas\<close>

lemma leValue_bound: "leValue bs < 256 ^ length bs"
proof (induction bs)
  case (Cons b bs)
  have "of_char b < (256::nat)" by simp
  then have "of_char b + 256 * leValue bs < 256 * 256 ^ length bs" using Cons.IH by linarith
  then show ?case by simp
qed simp

lemma leValue_append: "leValue (a @ b) = leValue a + 256 ^ length a * leValue b"
  by (induction a) (simp_all add: algebra_simps)

lemma byte_FF: "of_char b = (255::nat) \<longleftrightarrow> b = CHR 0xFF"
proof -
  have "of_char (CHR 0xFF) = (255::nat)" by simp
  then show ?thesis by (metis char_of_char)
qed

lemma byte_7F:
  assumes "n < (256::nat)"
  shows "char_of n = CHR 0x7F \<longleftrightarrow> n = 127"
proof -
  have "of_char (CHR 0x7F) = (127::nat)" by simp
  moreover have "of_char (char_of n :: char) = n" using assms by simp
  ultimately show ?thesis by (metis char_of_char)
qed

lemma top_digit:
  fixes b l p :: nat
  assumes "b < 256" "l < p"
  shows "b + 256 * l + 1 = 256 * p \<longleftrightarrow> b = 255 \<and> l + 1 = p"
proof -
  define k where "k = p - Suc l"
  with assms(2) have "p = l + Suc k" by simp
  then have "256 * p = 256 * l + 256 + 256 * k" "l + 1 = p \<longleftrightarrow> k = 0" by simp_all
  with assms(1) show ?thesis by linarith
qed

lemma leValue_max: "leValue bs + 1 = 256 ^ length bs \<longleftrightarrow> bs = replicate (length bs) (CHR 0xFF)"
proof (induction bs)
  case (Cons b bs)
  have "of_char b + 256 * leValue bs + 1 = 256 * 256 ^ length bs \<longleftrightarrow> of_char b = (255::nat) \<and> leValue bs + 1 = 256 ^ length bs"
    by (rule top_digit) (simp_all add: leValue_bound)
  with Cons show ?case by (simp add: byte_FF)
qed simp

lemma key_bytes:
  assumes "length pub = (32::nat)"
  obtains b0 mid b31 where "pub = b0 # mid @ [b31]" "length mid = 30"
proof -
  obtain b0 t where t: "pub = b0 # t" "length t = 31" using assms by (cases pub) auto
  then obtain mid b31 where "t = mid @ [b31]" by (cases t rule: rev_cases) auto
  with t that show ?thesis by simp
qed

text \<open>The comparison of the bytes from the top decides whether the coordinate is below the prime.\<close>

lemma y_top:
  fixes b M m :: nat
  assumes "b < 256" "M < 256 ^ 30" "m < 128"
  shows "2 ^ 255 - 19 \<le> b + 256 * M + 256 ^ 31 * m \<longleftrightarrow> m = 127 \<and> M + 1 = 256 ^ 30 \<and> 237 \<le> b"
proof -
  consider "m \<le> 126" | "m = 127" "M + 2 \<le> 256 ^ 30" | "m = 127" "M + 1 = 256 ^ 30" using assms by linarith
  then show ?thesis using assms by cases simp_all
qed

lemma y_bound:
  fixes b M m :: nat
  assumes "b < 256" "M < 256 ^ 30" "m < 128"
  shows "b + 256 * M + 256 ^ 31 * m < 2 ^ 255"
  using assms by simp

lemma yCoordinate_bytes:
  assumes "length mid = 30"
  shows "yCoordinate (b0 # mid @ [b31]) = of_char b0 + 256 * leValue mid + 256 ^ 31 * (of_char b31 mod 128)"
proof -
  let ?v = "of_char b0 + 256 * leValue mid + 256 ^ 31 * (of_char b31 mod 128) :: nat"
  have c: "(256::nat) ^ 31 * c = 256 ^ 31 * (c mod 128) + 2 ^ 255 * (c div 128)" for c
  proof -
    have "(256::nat) ^ 31 * c = 256 ^ 31 * (c mod 128 + 128 * (c div 128))" by simp
    then show ?thesis by (simp only: distrib_left) simp
  qed
  have "leValue (b0 # mid @ [b31]) = of_char b0 + 256 * leValue mid + 256 ^ 31 * of_char b31"
    using assms by (simp add: leValue_append)
  then have "leValue (b0 # mid @ [b31]) = ?v + 2 ^ 255 * (of_char b31 div 128)"
    using c [of "of_char b31"] by linarith
  moreover have "of_char b0 < (256::nat)" "leValue mid < 256 ^ 30" "of_char b31 mod 128 < (128::nat)"
    using leValue_bound [of mid] assms by simp_all
  then have "?v < 2 ^ 255" by (rule y_bound)
  ultimately show ?thesis unfolding yCoordinate_def by (metis mod_less mod_mult_self2)
qed

lemma FillBytes_length [simp]: "length (FillBytes n v) = n"
  by (induction n arbitrary: v) auto

lemma SetBytes_snoc: "SetBytes (bs @ [b]) = SetBytes bs * 256 + of_char b"
  by (simp add: SetBytes_def)

lemma SetBytes_FillBytes: "v < 256 ^ n \<Longrightarrow> SetBytes (FillBytes n v) = v"
proof (induction n arbitrary: v)
  case 0
  then show ?case by (simp add: SetBytes_def)
next
  case (Suc n)
  then have "v div 256 < 256 ^ n" by (simp add: less_mult_imp_div_less mult.commute)
  with Suc.IH show ?case by (simp add: SetBytes_snoc)
qed


text \<open>
  The Ed25519 keys accepted are those of 32 bytes whose \<open>y\<close> coordinate (the sign bit
  apart) is below the field prime \<open>2^255 - 19\<close> and that are not one of the small-order points.
\<close>
theorem ed25519_key_accepted_iff:
  "ValidEd25519PublicKey pub \<longleftrightarrow>
     length pub = 32 \<and> yCoordinate pub < 2 ^ 255 - 19 \<and> pub \<notin> set ed25519SmallOrder"
proof (cases "length pub = 32")
  case True
  then obtain b0 mid b31 where p: "pub = b0 # mid @ [b31]" "length mid = 30" by (rule key_bytes)
  have "clearSign pub = b0 # mid @ [char_of ((of_char b31 :: nat) mod 128)]"
    using p by (simp add: clearSign_def nth_append list_update_append nth_Cons')
  moreover have "char_of ((of_char b31 :: nat) mod 128) = CHR 0x7F \<longleftrightarrow> of_char b31 mod 128 = (127::nat)"
    by (rule byte_7F) simp
  moreover have "b0 \<ge> CHR 0xED \<longleftrightarrow> 237 \<le> (of_char b0 :: nat)" by (simp add: less_eq_char_def)
  moreover have "2 ^ 255 - 19 \<le> yCoordinate pub \<longleftrightarrow>
      of_char b31 mod 128 = (127::nat) \<and> leValue mid + 1 = 256 ^ 30 \<and> 237 \<le> (of_char b0 :: nat)"
    unfolding p(1) yCoordinate_bytes [OF p(2)]
    by (rule y_top) (use leValue_bound [of mid] p(2) in simp_all)
  ultimately show ?thesis
    using p leValue_max [of mid] unfolding ValidEd25519PublicKey_def by (auto simp: nth_append list_all_iff not_le)
qed (simp add: ValidEd25519PublicKey_def)

lemma order_bounds: "P256Order < 256 ^ 32" "0 < P256Order" "odd P256Order"
  by (simp_all add: P256Order_def)

text \<open>
  C38. Signer output is normalised: from a DER signature \<open>(r, s)\<close> accepted by \<open>ES256RawFromDER\<close> come 64
  bytes that \<open>ValidES256Signature\<close> accepts, and they read back as \<open>r\<close> and as the smaller of \<open>s\<close> and
  \<open>n - s\<close>, which is at most half the group order.
\<close>
theorem es256_raw_low_s:
  assumes "ES256RawFromDER E der = Inr raw"
  shows "length raw = 64 \<and> ValidES256Signature raw
    \<and> (\<exists>r s. ecASN1 E der = Some (Some (int r), Some (int s), [])
         \<and> ES256RawRS raw = (r, min s (P256Order - s)) \<and> snd (ES256RawRS raw) \<le> P256HalfOrder)"
proof -
  from assms obtain r' s' where a: "ecASN1 E der = Some (Some r', Some s', [])"
    and b: "0 < r'" "r' < int P256Order" "0 < s'" "s' < int P256Order"
    and raw: "raw = FillBytes 32 (nat r') @ FillBytes 32 (nat (if s' > int P256HalfOrder then int P256Order - s' else s'))"
    by (auto simp: ES256RawFromDER_def split: option.splits if_splits)
  define r s where "r = nat r'" and "s = nat s'"
  with b have i: "r' = int r" "s' = int s" "0 < r" "r < P256Order" "0 < s" "s < P256Order" by simp_all
  have low: "nat (if s' > int P256HalfOrder then int P256Order - s' else s') = min s (P256Order - s)"
    using i by (auto simp: P256HalfOrder_def P256Order_def)
  have m: "min s (P256Order - s) \<le> P256HalfOrder" "0 < min s (P256Order - s)" "min s (P256Order - s) < P256Order"
    using i by (auto simp: P256HalfOrder_def P256Order_def min_def)
  have "ES256RawRS raw = (r, min s (P256Order - s))"
    unfolding raw low ES256RawRS_def using i m order_bounds by (simp add: SetBytes_FillBytes)
  moreover have "length raw = 64" by (simp add: raw)
  ultimately show ?thesis using a i m by (auto simp: ValidES256Signature_def)
qed


theorem es256_raw_low_s_witness:
  "ES256RawRS (FillBytes 32 5 @ FillBytes 32 3) = (5, 3)"
proof -
  have "ES256RawFromDER sample_ecdsa ''12345'' = Inr (FillBytes 32 5 @ FillBytes 32 3)"
    by (simp add: ES256RawFromDER_def sample_ecdsa_def P256Order_def P256HalfOrder_def del: FillBytes.simps)
  from es256_raw_low_s [OF this] show ?thesis
    by (auto simp: sample_ecdsa_def P256Order_def)
qed

end
