(* ===== verification/Base64.thy ===== *)
theory Base64
  imports Go_Prelude
begin

text \<open>
  The two encodings of Go's \<open>encoding/base64\<close> the sources use: \<open>RawURLEncoding\<close> (thumbprints,
  record signatures) and \<open>StdEncoding\<close> (checkpoint roots and notes). As in Go, the decoder
  skips carriage returns and line feeds and does not require the unused trailing bits to
  be zero (neither encoding is \<open>Strict\<close>). The lemmas give the round trip.
\<close>

section \<open>Definitions\<close>

text \<open>The alphabet: \<open>url\<close> selects the URL-safe variant of the last two digits.\<close>

definition b64_char :: "bool \<Rightarrow> nat \<Rightarrow> char" where
  "b64_char url n =
     (if n < 26 then char_of (65 + n)
      else if n < 52 then char_of (71 + n)
      else if n < 62 then char_of (n - 4)
      else if n = 62 then (if url then CHR ''-'' else CHR ''+'')
      else (if url then CHR ''_'' else CHR ''/''))"

definition b64_val :: "bool \<Rightarrow> char \<Rightarrow> nat option" where
  "b64_val url c =
     (if CHR ''A'' \<le> c \<and> c \<le> CHR ''Z'' then Some (of_char c - 65)
      else if CHR ''a'' \<le> c \<and> c \<le> CHR ''z'' then Some (of_char c - 71)
      else if isASCIIDigit c then Some (of_char c + 4)
      else if c = (if url then CHR ''-'' else CHR ''+'') then Some 62
      else if c = (if url then CHR ''_'' else CHR ''/'') then Some 63
      else None)"

text \<open>\<open>EncodeToString\<close>: three bytes to four digits, with or without padding.\<close>

fun b64_encode :: "bool \<Rightarrow> bool \<Rightarrow> bytes \<Rightarrow> string" where
  "b64_encode url pad [] = []"
| "b64_encode url pad [a] =
     (let n = of_char a * 65536
      in [b64_char url (n div 262144), b64_char url (n div 4096 mod 64)]
         @ (if pad then ''=='' else []))"
| "b64_encode url pad [a, b] =
     (let n = of_char a * 65536 + of_char b * 256
      in [b64_char url (n div 262144), b64_char url (n div 4096 mod 64),
          b64_char url (n div 64 mod 64)] @ (if pad then ''='' else []))"
| "b64_encode url pad (a # b # c # rest) =
     (let n = of_char a * 65536 + of_char b * 256 + of_char c
      in [b64_char url (n div 262144), b64_char url (n div 4096 mod 64),
          b64_char url (n div 64 mod 64), b64_char url (n mod 64)]
         @ b64_encode url pad rest)"

text \<open>\<open>DecodeString\<close> after the line breaks are dropped; \<open>None\<close> is \<open>CorruptInputError\<close>.\<close>

fun b64_quanta :: "bool \<Rightarrow> bool \<Rightarrow> string \<Rightarrow> bytes option" where
  "b64_quanta url pad [] = Some []"
| "b64_quanta url pad [x] = None"
| "b64_quanta url pad [x, y] =
     (if pad then None
      else (case (b64_val url x, b64_val url y) of
              (Some p, Some q) \<Rightarrow> Some [char_of ((p * 262144 + q * 4096) div 65536)]
            | _ \<Rightarrow> None))"
| "b64_quanta url pad [x, y, z] =
     (if pad then None
      else (case (b64_val url x, b64_val url y, b64_val url z) of
              (Some p, Some q, Some r) \<Rightarrow>
                (let n = p * 262144 + q * 4096 + r * 64
                 in Some [char_of (n div 65536), char_of (n div 256 mod 256)])
            | _ \<Rightarrow> None))"
| "b64_quanta url pad (x # y # z # w # rest) =
     (if pad \<and> w = CHR ''='' then
        (if rest \<noteq> [] then None
         else if z = CHR ''='' then
           (case (b64_val url x, b64_val url y) of
              (Some p, Some q) \<Rightarrow> Some [char_of ((p * 262144 + q * 4096) div 65536)]
            | _ \<Rightarrow> None)
         else
           (case (b64_val url x, b64_val url y, b64_val url z) of
              (Some p, Some q, Some r) \<Rightarrow>
                (let n = p * 262144 + q * 4096 + r * 64
                 in Some [char_of (n div 65536), char_of (n div 256 mod 256)])
            | _ \<Rightarrow> None))
      else
        (case (b64_val url x, b64_val url y, b64_val url z, b64_val url w) of
           (Some p, Some q, Some r, Some s) \<Rightarrow>
             (let n = p * 262144 + q * 4096 + r * 64 + s
              in map_option (\<lambda>bs. char_of (n div 65536) # char_of (n div 256 mod 256)
                                   # char_of (n mod 256) # bs)
                   (b64_quanta url pad rest))
         | _ \<Rightarrow> None))"

definition b64_decode :: "bool \<Rightarrow> bool \<Rightarrow> string \<Rightarrow> bytes option" where
  "b64_decode url pad s =
     b64_quanta url pad (filter (\<lambda>c. c \<noteq> CHR 0x0D \<and> c \<noteq> CHR 0x0A) s)"

definition RawURLEncode :: "bytes \<Rightarrow> string" where
  "RawURLEncode bs = b64_encode True False bs"

definition RawURLDecode :: "string \<Rightarrow> bytes option" where
  "RawURLDecode s = b64_decode True False s"

definition StdEncode :: "bytes \<Rightarrow> string" where
  "StdEncode bs = b64_encode False True bs"

definition StdDecode :: "string \<Rightarrow> bytes option" where
  "StdDecode s = b64_decode False True s"

section \<open>Lemmas\<close>

lemma b64_char_code:
  "n < 64 \<Longrightarrow> of_char (b64_char url n) =
     (if n < 26 then 65 + n else if n < 52 then 71 + n else if n < 62 then n - 4
      else if n = 62 then (if url then 45 else 43) else (if url then 95 else (47::nat)))"
  by (auto simp: b64_char_def)

lemma b64_digit [simp]:
  assumes "n < 64"
  shows "b64_val url (b64_char url n) = Some n" "b64_char url n \<noteq> CHR ''=''"
    "b64_char url n \<noteq> CHR 0x0D" "b64_char url n \<noteq> CHR 0x0A"
proof -
  have ne: "b64_char url n \<noteq> c" if "of_char (b64_char url n) \<noteq> (of_char c :: nat)" for c
    using that by auto
  show "b64_char url n \<noteq> CHR ''=''" "b64_char url n \<noteq> CHR 0x0D" "b64_char url n \<noteq> CHR 0x0A"
    using assms by (intro ne; simp add: b64_char_code; presburger)+
  show "b64_val url (b64_char url n) = Some n"
  proof -
    consider "n < 26" | "26 \<le> n" "n < 52" | "52 \<le> n" "n < 62" | "n = 62" | "n = 63"
      using assms by linarith
    then show ?thesis
      by cases (auto simp: b64_char_def b64_val_def less_eq_char_def isASCIIDigit_def)
  qed
qed

lemma b64_split4: "n div 262144 * 262144 + n div 4096 mod 64 * 4096 + n div 64 mod 64 * 64 + n mod 64 = (n::nat)"
proof -
  define x y z where xyz: "x = n div 64" "y = x div 64" "z = y div 64"
  have yz: "n div 4096 = y" "n div 262144 = z"
    by (simp_all add: xyz div_mult2_eq [symmetric])
  have "n = x * 64 + n mod 64" "x = y * 64 + x mod 64" "y = z * 64 + y mod 64"
    unfolding xyz by (simp_all only: div_mult_mod_eq)
  then show ?thesis unfolding yz xyz(1) [symmetric] by linarith
qed

lemma b64_top [simp]:
  "(of_char a * 65536 + of_char b * 256 + of_char c) div 262144 < (64::nat)"
  "(of_char a * 65536 + of_char b * 256) div 262144 < (64::nat)"
  "of_char a div 4 < (64::nat)"
proof -
  have "x * 65536 + y * 256 + z < 16777216" if "x < 256" "y < 256" "z < 256" for x y z :: nat
    using that by linarith
  from this [of "of_char a" "of_char b" "of_char c"] this [of "of_char a" "of_char b" 0]
  show "(of_char a * 65536 + of_char b * 256 + of_char c) div 262144 < (64::nat)"
    "(of_char a * 65536 + of_char b * 256) div 262144 < (64::nat)"
    by (simp_all add: div_less_iff_less_mult)
  show "of_char a div 4 < (64::nat)"
    using nat_of_char_less_256 [of a] by (simp add: div_less_iff_less_mult)
qed

lemma b64_bytes:
  assumes "n = of_char a * 65536 + of_char b * 256 + of_char c"
  shows "n div 65536 = (of_char a :: nat)" "n div 256 mod 256 = of_char b" "n mod 256 = of_char c"
proof -
  have "n = (of_char a * 256 + of_char b) * 256 + of_char c" using assms by simp
  moreover have "(q * 256 + r) div 256 = q" if "r < 256" for q r :: nat using that by simp
  ultimately have q: "n div 256 = of_char a * 256 + of_char b" by (metis nat_of_char_less_256)
  have "n div 65536 = n div 256 div 256" by (simp add: div_mult2_eq [symmetric])
  then show "n div 65536 = of_char a" "n div 256 mod 256 = of_char b" by (simp_all add: q)
  show "n mod 256 = of_char c" by (simp add: assms mod_add_eq [symmetric])
qed

lemma b64_quanta_encode: "b64_quanta url pad (b64_encode url pad bs) = Some bs"
proof (induction url pad bs rule: b64_encode.induct)
  case (2 url pad a)
  define n where "n = of_char a * (65536::nat)"
  have "n div 64 mod 64 = 0" "n mod 64 = 0" by (simp_all add: n_def)
  then have "n div 262144 * 262144 + n div 4096 mod 64 * 4096 = n" using b64_split4 [of n] by simp
  moreover have "n div 262144 < 64" using nat_of_char_less_256 [of a] by (simp add: n_def div_less_iff_less_mult)
  ultimately show ?case by (simp add: Let_def n_def [symmetric]) (simp add: n_def)
next
  case (3 url pad a b)
  define n where "n = of_char a * 65536 + of_char b * (256::nat)"
  have "n mod 64 = 0" by (simp add: n_def mod_add_eq [symmetric])
  then have "n div 262144 * 262144 + n div 4096 mod 64 * 4096 + n div 64 mod 64 * 64 = n"
    using b64_split4 [of n] by simp
  moreover have "n div 262144 < 64"
    using nat_of_char_less_256 [of a] nat_of_char_less_256 [of b] by (simp add: n_def div_less_iff_less_mult)
  moreover have "n div 65536 = of_char a" "n div 256 mod 256 = of_char b"
    by (simp_all add: n_def div_mult2_eq [of _ 256 256, simplified])
  ultimately show ?case
    by (simp add: Let_def n_def [symmetric]) (metis char_of_mod_256 char_of_char)
next
  case (4 url pad a b c rest)
  define n where "n = of_char a * 65536 + of_char b * 256 + (of_char c :: nat)"
  have "n div 262144 < 64" by (simp add: n_def)
  then show ?case
    using 4 [of n] b64_split4 [of n] b64_bytes [OF n_def]
    by (simp add: Let_def n_def [symmetric]) (metis char_of_mod_256 char_of_char)
qed simp

lemma b64_encode_chars:
  "c \<in> set (b64_encode url pad bs) \<Longrightarrow> c \<noteq> CHR 0x0D \<and> c \<noteq> CHR 0x0A"
  by (induction url pad bs rule: b64_encode.induct) (auto simp: Let_def split: if_splits)

lemma b64_roundtrip: "b64_decode url pad (b64_encode url pad bs) = Some bs"
proof -
  have "filter (\<lambda>c. c \<noteq> CHR 0x0D \<and> c \<noteq> CHR 0x0A) (b64_encode url pad bs) = b64_encode url pad bs"
    using b64_encode_chars by (simp add: filter_id_conv)
  then show ?thesis by (simp add: b64_decode_def b64_quanta_encode)
qed

lemma RawURL_roundtrip [simp]: "RawURLDecode (RawURLEncode bs) = Some bs"
  by (simp add: RawURLDecode_def RawURLEncode_def b64_roundtrip)

lemma Std_roundtrip [simp]: "StdDecode (StdEncode bs) = Some bs"
  by (simp add: StdDecode_def StdEncode_def b64_roundtrip)

lemma RawURLEncode_inj: "RawURLEncode a = RawURLEncode b \<longleftrightarrow> a = b"
  by (metis RawURL_roundtrip option.inject)

end
