(* ===== verification/Jwk_Keys.thy ===== *)
theory Jwk_Keys
  imports Crypto_Util Base64
begin

text \<open>
  JSON Web Keys as the SDK uses them (\<open>alg.go\<close>, \<open>jwk_alg.go\<close>): the algorithms it allows, which
  algorithm a key is for, and the validation of key sets.

  The key library is outside the repository. A \<open>jwk.Key\<close> is a value of the type variable \<open>'k\<close> and
  the methods read from it are the fields of \<open>jwkLib\<close>: the SHA-256 thumbprint, the optional
  members of the key, its type and curve, its serialisation and the conversion to a key of the
  standard library. A \<open>jwk.Set\<close> is the list of its keys, \<open>None\<close> for \<open>nil\<close>.
\<close>

section \<open>Keys\<close>

record ('k, 'p, 'q) jwkLib =
  jkThumb :: "'k \<Rightarrow> bytes option"
  jkKid :: "'k \<Rightarrow> string option"
  jkUse :: "'k \<Rightarrow> string option"
  jkAlg :: "'k \<Rightarrow> string option"
  jkOps :: "'k \<Rightarrow> string list option"
  jkType :: "'k \<Rightarrow> string"
  jkCrv :: "'k \<Rightarrow> string option"
  jkPrivate :: "'k \<Rightarrow> bool option"
  jkMarshal :: "'k \<Rightarrow> bytes option"
  jkParse :: "bytes \<Rightarrow> 'k option"
  jkEd25519 :: "'k \<Rightarrow> bytes option"
  jkECDSA :: "'k \<Rightarrow> 'p option"
  jkEd25519Verify :: "bytes \<Rightarrow> bytes \<Rightarrow> bytes \<Rightarrow> bool"
  jkEC :: "('p, 'q) ecdsaLib"

type_synonym JoseAlg = string

abbreviation "JoseAlgEdDSA \<equiv> ''EdDSA''"
abbreviation "JoseAlgES256 \<equiv> ''ES256''"
abbreviation "keyTypeOKP \<equiv> ''OKP''"
abbreviation "keyTypeEC \<equiv> ''EC''"

definition joseAlg_Valid :: "JoseAlg \<Rightarrow> bool" where
  "joseAlg_Valid a = (a = JoseAlgEdDSA \<or> a = JoseAlgES256)"

text \<open>\<open>jwkAlg\<close>: an absent or \<open>nil\<close> algorithm is \<open>None\<close>.\<close>

definition jwkAlg :: "('k, 'p, 'q) jwkLib \<Rightarrow> 'k \<Rightarrow> JoseAlg option" where
  "jwkAlg K key = jkAlg K key"

definition jwkCurve :: "('k, 'p, 'q) jwkLib \<Rightarrow> 'k \<Rightarrow> string option" where
  "jwkCurve K key = jkCrv K key"

definition keyUse :: "('k, 'p, 'q) jwkLib \<Rightarrow> 'k option \<Rightarrow> string" where
  "keyUse K key =
     (case key of
        None \<Rightarrow> ''''
      | Some k \<Rightarrow> (case jkUse K k of None \<Rightarrow> '''' | Some use \<Rightarrow> use))"

definition algForJWK :: "('k, 'p, 'q) jwkLib \<Rightarrow> 'k option \<Rightarrow> JoseAlg option" where
  "algForJWK K key =
     (case key of
        None \<Rightarrow> None
      | Some k \<Rightarrow>
          if jkType K k = keyTypeOKP then (if jwkCurve K k = Some ''Ed25519'' then Some JoseAlgEdDSA else None)
          else if jkType K k = keyTypeEC then (if jwkCurve K k = Some ''P-256'' then Some JoseAlgES256 else None)
          else None)"

definition thumbprint :: "('k, 'p, 'q) jwkLib \<Rightarrow> 'k \<Rightarrow> string option" where
  "thumbprint K key = map_option RawURLEncode (jkThumb K key)"

section \<open>Key sets\<close>

definition validateES256JWK :: "('k, 'p, 'q) jwkLib \<Rightarrow> 'k \<Rightarrow> sdk_error + unit" where
  "validateES256JWK K key =
     (case jkECDSA K key of
        None \<Rightarrow> Inl (PlainError ''dnsid: exporting ES256 public key'' None)
      | Some raw \<Rightarrow>
          if \<not> ecOnP256 (jkEC K) raw then Inl (PlainError ''dnsid: ES256 key is not P-256'' None)
          else ValidateP256PublicKey (jkEC K) (Some raw))"

definition validateJWKUse :: "('k, 'p, 'q) jwkLib \<Rightarrow> 'k \<Rightarrow> sdk_error + unit" where
  "validateJWKUse K key =
     (if algForJWK K (Some key) = None then Inr ()
      else if keyUse K (Some key) \<in> {'''', ''sig'', ''enc''} then Inr ()
      else Inl (PlainError ''dnsid: JWK has unsupported use'' None))"

definition validateJWKAlgConsistency :: "('k, 'p, 'q) jwkLib \<Rightarrow> 'k \<Rightarrow> sdk_error + unit" where
  "validateJWKAlgConsistency K key =
     (if keyUse K (Some key) = ''enc'' then Inr ()
      else
        (case algForJWK K (Some key) of
           Some binding \<Rightarrow>
             if jwkAlg K key \<noteq> None \<and> jwkAlg K key \<noteq> Some binding
             then Inl (PlainError ''dnsid: JWK alg inconsistent with key type'' None)
             else if binding = JoseAlgES256 then
               (if jkKid K key = None \<or> jkKid K key = Some '''' then Inl (PlainError ''dnsid: ES256 key missing kid'' None)
                else validateES256JWK K key)
             else Inr ()
         | None \<Rightarrow>
             (case jwkAlg K key of
                Some alg \<Rightarrow> if joseAlg_Valid alg then Inl (PlainError ''dnsid: JWK alg inconsistent with key type'' None) else Inr ()
              | None \<Rightarrow> Inr ())))"

fun validateJWKLoop :: "('k, 'p, 'q) jwkLib \<Rightarrow> string list \<Rightarrow> 'k list \<Rightarrow> sdk_error + unit" where
  "validateJWKLoop K seenKids [] = Inr ()"
| "validateJWKLoop K seenKids (key # keys) =
     rbind (case jkKid K key of
              Some kid \<Rightarrow>
                if kid = '''' then Inr seenKids
                else if kid \<in> set seenKids then Inl (PlainError ''dnsid: duplicate kid in JWKS'' None)
                else Inr (kid # seenKids)
            | None \<Rightarrow> Inr seenKids) (\<lambda>seen.
     rbind (validateJWKUse K key) (\<lambda>_.
     rbind (validateJWKAlgConsistency K key) (\<lambda>_.
     validateJWKLoop K seen keys)))"

definition validateJWKSet :: "('k, 'p, 'q) jwkLib \<Rightarrow> 'k list option \<Rightarrow> sdk_error + unit" where
  "validateJWKSet K keys =
     (case keys of
        None \<Rightarrow> Inl (PlainError ''dnsid: nil JWKS'' None)
      | Some ks \<Rightarrow> validateJWKLoop K [] ks)"

definition signingKeyEligible :: "('k, 'p, 'q) jwkLib \<Rightarrow> 'k \<Rightarrow> bool" where
  "signingKeyEligible K key =
     (if keyUse K (Some key) \<noteq> '''' \<and> keyUse K (Some key) \<noteq> ''sig'' then False
      else (case jkOps K key of Some ops \<Rightarrow> ''verify'' \<in> set ops | None \<Rightarrow> True))"

definition exportEd25519PublicKey :: "('k, 'p, 'q) jwkLib \<Rightarrow> 'k \<Rightarrow> sdk_error + bytes" where
  "exportEd25519PublicKey K key =
     (case jkEd25519 K key of
        None \<Rightarrow> Inl (PlainError ''jwk: export'' None)
      | Some raw \<Rightarrow> if length raw \<noteq> 32 then Inl (PlainError ''invalid Ed25519 public key size'' None) else Inr raw)"

definition exportES256PublicKey :: "('k, 'p, 'q) jwkLib \<Rightarrow> 'k \<Rightarrow> sdk_error + 'p" where
  "exportES256PublicKey K key =
     (case jkECDSA K key of
        None \<Rightarrow> Inl (PlainError ''jwk: export'' None)
      | Some raw \<Rightarrow> rbind (ValidateP256PublicKey (jkEC K) (Some raw)) (\<lambda>_. Inr raw))"

definition decodeFixedJWKCoordinate :: "string \<Rightarrow> sdk_error + bytes" where
  "decodeFixedJWKCoordinate value =
     (if value = '''' then Inl (PlainError ''missing'' None)
      else if CHR ''='' \<in> set value then Inl (PlainError ''must be unpadded base64url'' None)
      else (case RawURLDecode value of
              None \<Rightarrow> Inl (PlainError ''illegal base64 data'' None)
            | Some decoded \<Rightarrow> if length decoded \<noteq> 32 then Inl (PlainError ''length, want 32'' None) else Inr decoded))"

section \<open>Reference definitions\<close>

definition keyKids :: "('k, 'p, 'q) jwkLib \<Rightarrow> 'k list \<Rightarrow> string list" where
  "keyKids K ks = filter (\<lambda>kid. kid \<noteq> '''') (map (\<lambda>k. case jkKid K k of None \<Rightarrow> '''' | Some kid \<Rightarrow> kid) ks)"

section \<open>Lemmas\<close>

lemma keyKids_Cons:
  "keyKids K (k # ks) = (case jkKid K k of None \<Rightarrow> [] | Some kid \<Rightarrow> if kid = '''' then [] else [kid]) @ keyKids K ks"
  by (simp add: keyKids_def split: option.split)

lemma validateJWKLoop_ok:
  assumes "validateJWKLoop K seen ks = Inr u" and "distinct seen"
  shows "distinct (seen @ keyKids K ks) \<and> (\<forall>k \<in> set ks. validateJWKUse K k = Inr () \<and> validateJWKAlgConsistency K k = Inr ())"
  using assms
proof (induction ks arbitrary: seen)
  case (Cons k ks)
  then obtain seen' where s: "(case jkKid K k of Some kid \<Rightarrow> if kid = '''' then Inr seen
      else if kid \<in> set seen then Inl (PlainError ''dnsid: duplicate kid in JWKS'' None) else Inr (kid # seen)
      | None \<Rightarrow> Inr seen) = Inr seen'" and k: "validateJWKUse K k = Inr ()" "validateJWKAlgConsistency K k = Inr ()"
    and r: "validateJWKLoop K seen' ks = Inr u"
    by (auto simp: rbind_Inr_iff)
  have "distinct seen'" "distinct (seen' @ keyKids K ks) \<Longrightarrow> distinct (seen @ keyKids K (k # ks))"
    using s Cons.prems(2) by (auto simp: keyKids_Cons split: option.splits if_splits)
  with Cons.IH [OF r] k show ?case by simp
qed (simp add: keyKids_def)

lemma validateJWKSet_ok:
  assumes "validateJWKSet K (Some ks) = Inr u"
  shows "distinct (keyKids K ks)" "\<forall>k \<in> set ks. validateJWKUse K k = Inr () \<and> validateJWKAlgConsistency K k = Inr ()"
  using validateJWKLoop_ok [of K "[]" ks u] assms by (simp_all add: validateJWKSet_def)

end
