(* ===== verification/Identity_Record.thy ===== *)
theory Identity_Record
  imports Sdk_Errors
begin

text \<open>
  The \<open>_dnsid\<close> TXT record (\<open>identity_record.go\<close>): the behaviour profiles, the record, its
  tag map, the wire form and the canonical form that is signed, and the two parsers.
  The lemmas show that the canonical form determines every signed tag, that the wire
  form and the canonical form are read back to the same tags, and what a parsed record
  is known to satisfy.
\<close>

section \<open>Profiles and tags\<close>

abbreviation "irTagVersion \<equiv> ''v''"
abbreviation "irTagKeyURI \<equiv> ''ku''"
abbreviation "irTagLogRef \<equiv> ''lr''"
abbreviation "irTagStatusURI \<equiv> ''su''"
abbreviation "irTagSignature \<equiv> ''sg''"
abbreviation "irTagGovernanceID \<equiv> ''gi''"
abbreviation "irTagEntityKeyURI \<equiv> ''ek''"
abbreviation "irTagFlags \<equiv> ''fl''"
abbreviation "irTagKeyAge \<equiv> ''ka''"
abbreviation "irTagCapabilities \<equiv> ''cu''"

definition identityRecordDraft01 :: string where
  "identityRecordDraft01 = ''dnsid-draft-01''"

definition identityRecordDNSid1 :: string where
  "identityRecordDNSid1 = ''DNSid1''"

definition DefaultPublishProfile :: string where
  "DefaultPublishProfile = identityRecordDraft01"

datatype identityRecordSignatureFormat = SignatureFormatDraft01

record identityRecordProfile =
  requiredTags :: "string list"
  alphabeticCanonical :: bool
  signatureFormat :: identityRecordSignatureFormat

definition draft01Profile :: identityRecordProfile where
  "draft01Profile = \<lparr>
     requiredTags = [irTagGovernanceID, irTagEntityKeyURI, irTagKeyURI, irTagLogRef, irTagStatusURI],
     alphabeticCanonical = True,
     signatureFormat = SignatureFormatDraft01\<rparr>"

definition identityRecordProfiles :: "identityRecordProfile gomap" where
  "identityRecordProfiles =
     [(identityRecordDraft01, draft01Profile), (identityRecordDNSid1, draft01Profile)]"

definition profileForVersion :: "string \<Rightarrow> identityRecordProfile option" where
  "profileForVersion v = map_of identityRecordProfiles v"

definition isSupportedVersion :: "string \<Rightarrow> bool" where
  "isSupportedVersion v = (profileForVersion v \<noteq> None)"

definition baseRequiredTagNames :: "string list" where
  "baseRequiredTagNames = [irTagKeyURI, irTagStatusURI]"

definition versionSpecificRequiredTagNames :: "string \<Rightarrow> string list" where
  "versionSpecificRequiredTagNames v =
     (case profileForVersion v of
        None \<Rightarrow> []
      | Some profile \<Rightarrow>
          filter (\<lambda>name. name \<noteq> irTagKeyURI \<and> name \<noteq> irTagStatusURI) (requiredTags profile))"

definition requiredTagNamesForVersion :: "string \<Rightarrow> string list" where
  "requiredTagNamesForVersion v =
     (case profileForVersion v of None \<Rightarrow> [] | Some profile \<Rightarrow> requiredTags profile)"

definition ValidKeyAgeValues :: "string list" where
  "ValidKeyAgeValues = [''24h'', ''7d'', ''30d'', ''90d'']"

section \<open>The record\<close>

record TXTRecord =
  Version :: string
  GovernanceID :: string
  EntityKeyURI :: string
  KeyURI :: string
  LogRef :: string
  StatusURI :: string
  Signature :: string
  Flags :: "string list"
  KeyAge :: string
  Capabilities :: string
  UnknownTags :: "string gomap"
  parsedTags :: "string gomap"

fun recordValueForTag :: "TXTRecord option \<Rightarrow> string \<Rightarrow> string" where
  "recordValueForTag None name = ''''"
| "recordValueForTag (Some rec) name =
     (if name = irTagVersion then Version rec
      else if name = irTagGovernanceID then GovernanceID rec
      else if name = irTagEntityKeyURI then EntityKeyURI rec
      else if name = irTagKeyURI then KeyURI rec
      else if name = irTagLogRef then LogRef rec
      else if name = irTagStatusURI then StatusURI rec
      else if name = irTagSignature then Signature rec
      else if name = irTagFlags then (if Flags rec \<noteq> [] then Join (Flags rec) '','' else '''')
      else if name = irTagKeyAge then KeyAge rec
      else if name = irTagCapabilities then Capabilities rec
      else '''')"

definition missingRequiredRecordTag :: "TXTRecord option \<Rightarrow> string" where
  "missingRequiredRecordTag rec =
     (case rec of
        None \<Rightarrow> irTagVersion
      | Some r \<Rightarrow>
          if Version r = '''' then irTagVersion
          else (case find (\<lambda>name. recordValueForTag rec name = '''')
                       (requiredTagNamesForVersion (Version r)) of
                  None \<Rightarrow> ''''
                | Some name \<Rightarrow> name))"

definition MissingRequiredField :: "TXTRecord option \<Rightarrow> string" where
  "MissingRequiredField rec = missingRequiredRecordTag rec"

definition WithSignature :: "TXTRecord option \<Rightarrow> string \<Rightarrow> TXTRecord option" where
  "WithSignature r sig = (case r of None \<Rightarrow> None | Some r \<Rightarrow> Some (r\<lparr>Signature := sig\<rparr>))"

definition isKnownIdentityRecordTag :: "string \<Rightarrow> bool" where
  "isKnownIdentityRecordTag name =
     (name \<in> {irTagGovernanceID, irTagEntityKeyURI, irTagKeyURI, irTagLogRef, irTagStatusURI,
              irTagSignature, irTagFlags, irTagKeyAge, irTagCapabilities})"

text \<open>One \<open>if value != "" \{ tags[name] = value \}\<close> of \<open>Tags\<close>.\<close>

definition put_nonempty :: "string \<Rightarrow> string \<Rightarrow> string gomap \<Rightarrow> string gomap" where
  "put_nonempty name val tags = (if val \<noteq> '''' then AList.update name val tags else tags)"

definition putParsedTag :: "TXTRecord \<Rightarrow> string \<Rightarrow> string gomap \<Rightarrow> string gomap" where
  "putParsedTag r name tags =
     (if name = irTagVersion \<or> isKnownIdentityRecordTag name
      then AList.update name (recordValueForTag (Some r) name) tags else tags)"

definition putUnknownTag :: "string \<times> string \<Rightarrow> string gomap \<Rightarrow> string gomap" where
  "putUnknownTag nv tags =
     (if fst nv = irTagVersion \<or> isKnownIdentityRecordTag (fst nv) then tags
      else AList.update (fst nv) (snd nv) tags)"

definition Tags :: "TXTRecord option \<Rightarrow> string gomap" where
  "Tags rec =
     (case rec of
        None \<Rightarrow> []
      | Some r \<Rightarrow>
          let t = fold (putParsedTag r) (map fst (parsedTags r)) [];
              t = put_nonempty irTagVersion (Version r) t;
              t = put_nonempty irTagGovernanceID (GovernanceID r) t;
              t = put_nonempty irTagEntityKeyURI (EntityKeyURI r) t;
              t = put_nonempty irTagKeyURI (KeyURI r) t;
              t = put_nonempty irTagLogRef (LogRef r) t;
              t = put_nonempty irTagStatusURI (StatusURI r) t;
              t = put_nonempty irTagSignature (Signature r) t;
              t = (if Flags r \<noteq> [] then AList.update irTagFlags (Join (Flags r) '','') t else t);
              t = put_nonempty irTagKeyAge (KeyAge r) t;
              t = put_nonempty irTagCapabilities (Capabilities r) t
          in fold putUnknownTag (UnknownTags r) t)"

section \<open>Serialization\<close>

definition tag_text :: "string \<times> string \<Rightarrow> string" where
  "tag_text nv = fst nv @ ''='' @ snd nv"

definition orderedNonVersionTagNames :: "string gomap \<Rightarrow> string list" where
  "orderedNonVersionTagNames tags = sort (filter (\<lambda>name. name \<noteq> irTagVersion) (map fst tags))"

definition serializeTags :: "string gomap \<Rightarrow> string" where
  "serializeTags tags =
     Join
       ((case map_of tags irTagVersion of None \<Rightarrow> [] | Some version \<Rightarrow> [tag_text (irTagVersion, version)])
        @ map (\<lambda>name. tag_text (name, lookup0 tags name)) (orderedNonVersionTagNames tags))
       '';''"

definition serializeTagsAlphabetical :: "string gomap \<Rightarrow> string" where
  "serializeTagsAlphabetical tags =
     Join (map (\<lambda>name. tag_text (name, lookup0 tags name)) (sort (map fst tags))) '';''"

definition usesFullAlphabeticCanon :: "string \<Rightarrow> bool" where
  "usesFullAlphabeticCanon v =
     (case profileForVersion v of None \<Rightarrow> False | Some profile \<Rightarrow> alphabeticCanonical profile)"

definition knownTags :: "TXTRecord \<Rightarrow> string gomap" where
  "knownTags r =
     filter (\<lambda>nv. fst nv = irTagVersion \<or> isKnownIdentityRecordTag (fst nv)) (Tags (Some r))"

definition KnownTagsCanonical :: "TXTRecord \<Rightarrow> bytes" where
  "KnownTagsCanonical r =
     (let tags = AList.delete irTagSignature (knownTags r)
      in if usesFullAlphabeticCanon (Version r) then serializeTagsAlphabetical tags
         else serializeTags tags)"

definition CanonicalContent :: "TXTRecord \<Rightarrow> bytes" where
  "CanonicalContent r =
     (let tags = AList.delete irTagSignature (Tags (Some r))
      in if usesFullAlphabeticCanon (Version r) then serializeTagsAlphabetical tags
         else serializeTags tags)"

definition isValidTXTTagName :: "string \<Rightarrow> bool" where
  "isValidTXTTagName name =
     (case name of
        [] \<Rightarrow> False
      | c # cs \<Rightarrow> isASCIIAlpha c \<and>
          list_all (\<lambda>c. isASCIIAlpha c \<or> isASCIIDigit c \<or> c = CHR ''_'') cs)"

definition isValidTXTTagValue :: "string \<Rightarrow> bool" where
  "isValidTXTTagValue val =
     list_all (\<lambda>c. \<not> (c < CHR 0x21 \<or> CHR 0x7E < c \<or> c = CHR '';'')) val"

fun validateTXTTagSyntax :: "string gomap \<Rightarrow> sdk_error + unit" where
  "validateTXTTagSyntax [] = Inr ()"
| "validateTXTTagSyntax ((name, val) # rest) =
     (if \<not> isValidTXTTagName name then Inl (ValidationError ''dnsid: invalid tag name'' None)
      else if \<not> isValidTXTTagValue val then Inl (ValidationError ''dnsid: invalid tag value'' None)
      else validateTXTTagSyntax rest)"

definition validateRequiredTags :: "TXTRecord option \<Rightarrow> bool \<Rightarrow> sdk_error + unit" where
  "validateRequiredTags rec includeSignature =
     (case rec of
        None \<Rightarrow> Inl (ValidationError ''dnsid: required tag is missing'' None)
      | Some r \<Rightarrow>
          if Version r = '''' then Inl (ValidationError ''dnsid: required tag is missing'' None)
          else if \<not> isSupportedVersion (Version r) then
            Inl (ValidationError ''dnsid: unrecognized version'' None)
          else if missingRequiredRecordTag rec \<noteq> '''' then
            Inl (ValidationError ''dnsid: required tag is missing'' None)
          else if includeSignature \<and> Signature r = '''' then
            Inl (ValidationError ''dnsid: required tag is missing'' None)
          else Inr ())"

definition MarshalTXT :: "TXTRecord \<Rightarrow> sdk_error + string" where
  "MarshalTXT r =
     rbind (validateRequiredTags (Some r) True) (\<lambda>_.
     rbind (validateTXTTagSyntax (Tags (Some r))) (\<lambda>_.
       Inr (serializeTags (Tags (Some r)))))"

definition Canonical :: "TXTRecord option \<Rightarrow> string" where
  "Canonical rec = (case rec of None \<Rightarrow> '''' | Some r \<Rightarrow> CanonicalContent r)"

definition Serialize :: "TXTRecord option \<Rightarrow> string" where
  "Serialize rec =
     (case rec of None \<Rightarrow> ''''
      | Some r \<Rightarrow> (case MarshalTXT r of Inl _ \<Rightarrow> '''' | Inr out \<Rightarrow> out))"

section \<open>Parsing\<close>

text \<open>
  One tag-value element: the optional space after a separator, the first \<open>=\<close>, the
  syntax of the name and of the value. \<open>later\<close> is \<open>i > 0\<close>.
\<close>

definition parsePair :: "bool \<Rightarrow> string \<Rightarrow> sdk_error + string \<times> string" where
  "parsePair later pair0 =
     (let pair = (if later \<and> HasPrefix pair0 '' '' then TrimPrefix pair0 '' '' else pair0)
      in case IndexByte pair (CHR ''='') of
           None \<Rightarrow> Inl (ParseError ''dnsid: invalid tag-value pair'' None)
         | Some idx \<Rightarrow>
             if idx = 0 then Inl (ParseError ''dnsid: invalid tag-value pair'' None)
             else
               let name = take idx pair; val = drop (idx + 1) pair
               in if \<not> isValidTXTTagName name then Inl (ParseError ''dnsid: invalid tag name'' None)
                  else if \<not> isValidTXTTagValue val then
                    Inl (ParseError ''dnsid: invalid tag value'' None)
                  else Inr (name, val))"

fun parsePairs ::
  "bool \<Rightarrow> string list \<Rightarrow> string gomap \<Rightarrow> string list \<Rightarrow> sdk_error + string gomap \<times> string list" where
  "parsePairs later [] tags orderedNames = Inr (tags, orderedNames)"
| "parsePairs later (pair # rest) tags orderedNames =
     (if pair = '''' then
        (if rest = [] then parsePairs True rest tags orderedNames
         else Inl (ParseError ''dnsid: empty tag-value element'' None))
      else
        rbind (parsePair later pair) (\<lambda>(name, val).
          if map_of tags name \<noteq> None then Inl (ParseError ''dnsid: duplicate tag'' None)
          else parsePairs True rest (AList.update name val tags) (orderedNames @ [name])))"

text \<open>The composite literal both parsers build from the tag map.\<close>

definition recordFromTags :: "string gomap \<Rightarrow> TXTRecord" where
  "recordFromTags tags =
     \<lparr>Version = lookup0 tags irTagVersion,
      GovernanceID = lookup0 tags irTagGovernanceID,
      EntityKeyURI = lookup0 tags irTagEntityKeyURI,
      KeyURI = lookup0 tags irTagKeyURI,
      LogRef = lookup0 tags irTagLogRef,
      StatusURI = lookup0 tags irTagStatusURI,
      Signature = lookup0 tags irTagSignature,
      Flags = (if lookup0 tags irTagFlags \<noteq> '''' then Split (lookup0 tags irTagFlags) (CHR '','') else []),
      KeyAge = lookup0 tags irTagKeyAge,
      Capabilities = lookup0 tags irTagCapabilities,
      UnknownTags = filter (\<lambda>nv. fst nv \<noteq> irTagVersion \<and> \<not> isKnownIdentityRecordTag (fst nv)) tags,
      parsedTags = tags\<rparr>"

definition missing_tag :: "string gomap \<Rightarrow> string list \<Rightarrow> bool" where
  "missing_tag tags names = list_ex (\<lambda>name. lookup0 tags name = '''') names"

definition parseTXTRecord :: "string \<Rightarrow> bool \<Rightarrow> sdk_error + TXTRecord" where
  "parseTXTRecord txt requireSignature =
     (if txt = '''' then Inl (ParseError ''dnsid: empty TXT content'' None)
      else
        rbind (parsePairs False (Split txt (CHR '';'')) [] []) (\<lambda>(tags, orderedNames).
          if orderedNames = [] \<or> hd orderedNames \<noteq> irTagVersion then
            Inl (ParseError ''dnsid: v= must be the first tag'' None)
          else if \<not> isSupportedVersion (lookup0 tags irTagVersion) then
            Inl (ParseError ''dnsid: unsupported version'' None)
          else if missing_tag tags baseRequiredTagNames then
            Inl (ParseError ''dnsid: required tag is missing'' None)
          else if missing_tag tags (versionSpecificRequiredTagNames (lookup0 tags irTagVersion)) then
            Inl (ParseError ''dnsid: required tag is missing'' None)
          else if requireSignature \<and> lookup0 tags irTagSignature = '''' then
            Inl (ParseError ''dnsid: required tag is missing'' None)
          else if \<not> requireSignature \<and> lookup0 tags irTagSignature \<noteq> '''' then
            Inl (ParseError ''dnsid: unsigned canonical content must not include sg'' None)
          else if lookup0 tags irTagKeyAge \<noteq> '''' \<and> lookup0 tags irTagKeyAge \<notin> set ValidKeyAgeValues then
            Inl (ValidationError ''dnsid: invalid ka value'' None)
          else Inr (recordFromTags tags)))"

definition ParseTXTRecord :: "string \<Rightarrow> sdk_error + TXTRecord" where
  "ParseTXTRecord txt = parseTXTRecord txt True"

fun parseUnsignedPairs :: "bool \<Rightarrow> string list \<Rightarrow> string gomap \<Rightarrow> sdk_error + string gomap" where
  "parseUnsignedPairs later [] tags = Inr tags"
| "parseUnsignedPairs later (pair # rest) tags =
     (if pair = '''' then
        (if rest = [] then parseUnsignedPairs True rest tags
         else Inl (ParseError ''dnsid: empty tag-value element'' None))
      else
        rbind (parsePair later pair) (\<lambda>(name, val).
          if map_of tags name \<noteq> None then Inl (ParseError ''dnsid: duplicate tag'' None)
          else if name = irTagSignature then
            Inl (ParseError ''dnsid: unsigned canonical content must not include sg'' None)
          else parseUnsignedPairs True rest (AList.update name val tags)))"

definition parseUnsignedCanonicalAlpha :: "string \<Rightarrow> sdk_error + TXTRecord" where
  "parseUnsignedCanonicalAlpha txt =
     (if txt = '''' then Inl (ParseError ''dnsid: empty TXT content'' None)
      else
        rbind (parseUnsignedPairs False (Split txt (CHR '';'')) []) (\<lambda>tags.
          let v = lookup0 tags irTagVersion in
          if v = '''' then Inl (ParseError ''dnsid: v= tag not found'' None)
          else if \<not> isSupportedVersion v then Inl (ParseError ''dnsid: unsupported version'' None)
          else if \<not> usesFullAlphabeticCanon v then
            Inl (ParseError ''dnsid: unsigned canonical content is not in canonical order'' None)
          else if missing_tag tags baseRequiredTagNames then
            Inl (ParseError ''dnsid: required tag is missing'' None)
          else if missing_tag tags (versionSpecificRequiredTagNames v) then
            Inl (ParseError ''dnsid: required tag is missing'' None)
          else if lookup0 tags irTagKeyAge \<noteq> '''' \<and> lookup0 tags irTagKeyAge \<notin> set ValidKeyAgeValues then
            Inl (ValidationError ''dnsid: invalid ka value'' None)
          else
            let rec = (recordFromTags tags)\<lparr>Signature := ''''\<rparr> in
            if CanonicalContent rec \<noteq> txt then
              Inl (ParseError ''dnsid: unsigned canonical content is not in canonical order'' None)
            else Inr rec))"

definition ParseUnsignedCanonical :: "string \<Rightarrow> sdk_error + TXTRecord" where
  "ParseUnsignedCanonical txt =
     (if HasPrefix txt (irTagVersion @ ''='') then
        let val = TrimPrefix (hd (Split txt (CHR '';''))) (irTagVersion @ ''='') in
        (case profileForVersion val of
           None \<Rightarrow> Inl (ParseError ''dnsid: unsupported version'' None)
         | Some profile \<Rightarrow>
             if \<not> alphabeticCanonical profile then
               rbind (parseTXTRecord txt False) (\<lambda>rec.
                 if CanonicalContent rec \<noteq> txt then
                   Inl (ParseError ''dnsid: unsigned canonical content is not in canonical order'' None)
                 else Inr rec)
             else parseUnsignedCanonicalAlpha txt)
      else parseUnsignedCanonicalAlpha txt)"

section \<open>Specification of well-formed tag lists, and sample values\<close>

definition valid_tags :: "string gomap \<Rightarrow> bool" where
  "valid_tags t \<longleftrightarrow> distinct (map fst t) \<and>
     (\<forall>nv \<in> set t. isValidTXTTagName (fst nv) \<and> isValidTXTTagValue (snd nv))"

definition alpha_kvs :: "string gomap \<Rightarrow> string gomap" where
  "alpha_kvs t = map (\<lambda>n. (n, lookup0 t n)) (sort (map fst t))"

definition wire_kvs :: "string gomap \<Rightarrow> string gomap" where
  "wire_kvs t =
     (case map_of t irTagVersion of None \<Rightarrow> [] | Some v \<Rightarrow> [(irTagVersion, v)])
     @ map (\<lambda>n. (n, lookup0 t n)) (orderedNonVersionTagNames t)"

definition sample_record :: TXTRecord where
  "sample_record = \<lparr>Version = ''DNSid1'', GovernanceID = ''a.b'', EntityKeyURI = ''https://a.b/e'',
     KeyURI = ''https://x.a.b/k'', LogRef = ''m:1'', StatusURI = ''https://a.b/s'', Signature = ''AA'',
     Flags = [''mtls'', ''logchk''], KeyAge = ''7d'', Capabilities = '''', UnknownTags = [(''zz'', ''1=2'')],
     parsedTags = []\<rparr>"



definition sample_text :: string where
  "sample_text = ''v=DNSid1;gi=a.b;ku=https://x.a.b/k;zz=1=2;ek=https://a.b/e;lr=m:1;su=https://a.b/s;sg=BB;fl=mtls,logchk;ka=7d;''"

section \<open>Lemmas\<close>

lemma valid_tags_Nil [simp]: "valid_tags []"
  by (simp add: valid_tags_def)

lemma validateTXTTagSyntax_iff [ok_iffs]:
  "validateTXTTagSyntax t = Inr u \<longleftrightarrow>
     (\<forall>nv \<in> set t. isValidTXTTagName (fst nv) \<and> isValidTXTTagValue (snd nv))"
  by (induction t rule: validateTXTTagSyntax.induct) (auto simp: ok_iffs)

lemma tag_name_chars:
  assumes "isValidTXTTagName n"
  shows "n \<noteq> []" "CHR ''='' \<notin> set n" "CHR '';'' \<notin> set n" "hd n \<noteq> CHR '' ''"
  using assms
  by (auto simp: isValidTXTTagName_def isASCIIAlpha_def isASCIIDigit_def less_eq_char_def list_all_iff
      split: list.splits)

lemma tag_value_chars: "isValidTXTTagValue v \<Longrightarrow> CHR '';'' \<notin> set v"
  by (auto simp: isValidTXTTagValue_def list_all_iff)

lemma tag_text_no_sep:
  "isValidTXTTagName (fst nv) \<Longrightarrow> isValidTXTTagValue (snd nv) \<Longrightarrow> CHR '';'' \<notin> set (tag_text nv)"
  by (auto simp: tag_text_def dest: tag_name_chars tag_value_chars)

lemma tag_text_neq_Nil [simp]: "tag_text nv \<noteq> []"
  by (simp add: tag_text_def)

lemma parsePair_tag_text:
  assumes "isValidTXTTagName (fst nv)" and "isValidTXTTagValue (snd nv)"
  shows "parsePair later (tag_text nv) = Inr nv"
proof -
  note n = tag_name_chars [OF assms(1)]
  have "\<not> HasPrefix (tag_text nv) '' ''"
    using n by (cases "fst nv") (auto simp: tag_text_def)
  moreover have "IndexByte (tag_text nv) (CHR ''='') = Some (length (fst nv))"
    using n by (simp add: tag_text_def IndexByte_append)
  ultimately show ?thesis
    using assms n by (simp add: parsePair_def tag_text_def)
qed

lemma parsePair_valid:
  "parsePair later p = Inr (n, v) \<Longrightarrow> isValidTXTTagName n \<and> isValidTXTTagValue v"
  by (auto simp: parsePair_def Let_def split: option.splits if_splits)

lemma map_of_None_iff: "map_of m k \<noteq> None \<longleftrightarrow> k \<in> fst ` set m"
  by (simp add: map_of_eq_None_iff)

lemma valid_tags_snoc:
  "valid_tags t \<Longrightarrow> n \<notin> fst ` set t \<Longrightarrow> isValidTXTTagName n \<Longrightarrow> isValidTXTTagValue v
    \<Longrightarrow> valid_tags (t @ [(n, v)])"
  by (auto simp: valid_tags_def)

lemma parsePairs_valid:
  assumes "parsePairs later ps t ns = Inr (t', ns')" and "valid_tags t" and "map fst t = ns"
  shows "valid_tags t' \<and> map fst t' = ns'"
  using assms
proof (induction ps arbitrary: later t ns)
  case (Cons pair rest later tags ns)
  show ?case
  proof (cases "pair = []")
    case True
    with Cons.prems show ?thesis by (auto split: if_splits)
  next
    case False
    with Cons.prems(1) obtain n v where nv: "parsePair later pair = Inr (n, v)"
      and new: "map_of tags n = None"
      and rec: "parsePairs True rest (AList.update n v tags) (ns @ [n]) = Inr (t', ns')"
      by (auto simp: ok_iffs split: if_splits prod.splits)
    from new have fresh: "n \<notin> fst ` set tags" by (simp add: map_of_eq_None_iff)
    have upd: "AList.update n v tags = tags @ [(n, v)]" using fresh by (rule update_new)
    have "valid_tags (tags @ [(n, v)])"
      using Cons.prems(2) fresh parsePair_valid [OF nv] by (simp add: valid_tags_snoc)
    with Cons.IH rec Cons.prems(3) show ?thesis
      by (simp add: upd)
  qed
qed simp

lemma parsePairs_complete:
  assumes "valid_tags (t @ kvs)"
  shows "parsePairs later (map tag_text kvs) t ns = Inr (t @ kvs, ns @ map fst kvs)"
  using assms
proof (induction kvs arbitrary: later t ns)
  case (Cons nv kvs)
  obtain n v where nv: "nv = (n, v)" by fastforce
  from Cons.prems have fresh: "n \<notin> fst ` set t" by (auto simp: valid_tags_def nv)
  with Cons.prems Cons.IH [of "t @ [nv]" True "ns @ [n]"] show ?case
    by (auto simp: nv parsePair_tag_text valid_tags_def update_new map_of_eq_None_iff)
qed simp

lemma parseUnsignedPairs_complete:
  assumes "valid_tags (t @ kvs)" and "irTagSignature \<notin> fst ` set kvs"
  shows "parseUnsignedPairs later (map tag_text kvs) t = Inr (t @ kvs)"
  using assms
proof (induction kvs arbitrary: later t)
  case (Cons nv kvs)
  obtain n v where nv: "nv = (n, v)" by fastforce
  from Cons.prems have fresh: "n \<notin> fst ` set t" by (auto simp: valid_tags_def nv)
  with Cons.prems Cons.IH [of "t @ [nv]" True] show ?case
    by (auto simp: nv parsePair_tag_text valid_tags_def update_new map_of_eq_None_iff)
qed simp

lemma parseUnsignedPairs_valid:
  assumes "parseUnsignedPairs later ps t = Inr t'" and "valid_tags t" and "irTagSignature \<notin> fst ` set t"
  shows "valid_tags t' \<and> irTagSignature \<notin> fst ` set t'"
  using assms
proof (induction ps arbitrary: later t)
  case (Cons pair rest later tags)
  show ?case
  proof (cases "pair = []")
    case True
    with Cons.prems show ?thesis by (auto split: if_splits)
  next
    case False
    with Cons.prems(1) obtain n v where nv: "parsePair later pair = Inr (n, v)"
      and new: "map_of tags n = None" and nsg: "n \<noteq> irTagSignature"
      and rec: "parseUnsignedPairs True rest (AList.update n v tags) = Inr t'"
      by (auto simp: ok_iffs split: if_splits prod.splits)
    from new have fresh: "n \<notin> fst ` set tags" by (simp add: map_of_eq_None_iff)
    have upd: "AList.update n v tags = tags @ [(n, v)]" using fresh by (rule update_new)
    have "valid_tags (tags @ [(n, v)])"
      using Cons.prems(2) fresh parsePair_valid [OF nv] by (simp add: valid_tags_snoc)
    with Cons.IH rec Cons.prems(3) nsg show ?thesis
      by (simp add: upd)
  qed
qed simp

subsection \<open>The ordered tag lists behind the two serializations\<close>

lemma serializeTagsAlphabetical_kvs: "serializeTagsAlphabetical t = Join (map tag_text (alpha_kvs t)) '';''"
  by (simp add: serializeTagsAlphabetical_def alpha_kvs_def comp_def)

lemma serializeTags_kvs: "serializeTags t = Join (map tag_text (wire_kvs t)) '';''"
  by (simp add: serializeTags_def wire_kvs_def comp_def split: option.splits)

lemma map_of_lookup0: "map_of (map (\<lambda>n. (n, lookup0 t n)) ns) k = (if k \<in> set ns then Some (lookup0 t k) else None)"
  by (induction ns) auto

lemma lookup0_Nil [simp]: "lookup0 [] k = ''''"
  by (simp add: lookup0_def)

lemma not_in_keys: "k \<notin> fst ` set t \<Longrightarrow> map_of t k = None"
  by (simp add: map_of_eq_None_iff)

lemma lookup0_in: "k \<in> fst ` set t \<Longrightarrow> Some (lookup0 t k) = map_of t k"
  by (auto simp: lookup0_def map_of_eq_None_iff split: option.splits)

lemma map_of_alpha_kvs [simp]: "map_of (alpha_kvs t) = map_of t"
proof
  fix k show "map_of (alpha_kvs t) k = map_of t k"
    by (simp add: alpha_kvs_def map_of_lookup0 lookup0_in not_in_keys)
qed

lemma map_of_wire_kvs [simp]: "map_of (wire_kvs t) = map_of t"
proof
  fix k show "map_of (wire_kvs t) k = map_of t k"
    by (cases "k = irTagVersion"; cases "map_of t irTagVersion"; cases "k \<in> fst ` set t")
      (simp_all add: wire_kvs_def orderedNonVersionTagNames_def map_add_def map_of_lookup0
        lookup0_in not_in_keys split: option.splits)
qed

lemma valid_tags_map_of:
  "valid_tags t \<longleftrightarrow> distinct (map fst t) \<and>
    (\<forall>n v. map_of t n = Some v \<longrightarrow> isValidTXTTagName n \<and> isValidTXTTagValue v)"
  by (fastforce simp: valid_tags_def map_of_in_iff)

lemma distinct_alpha_kvs: "distinct (map fst t) \<Longrightarrow> distinct (map fst (alpha_kvs t))"
  by (simp add: alpha_kvs_def comp_def)

lemma distinct_wire_kvs: "distinct (map fst t) \<Longrightarrow> distinct (map fst (wire_kvs t))"
  by (auto simp: wire_kvs_def orderedNonVersionTagNames_def comp_def split: option.splits)

lemma valid_alpha_kvs: "valid_tags t \<Longrightarrow> valid_tags (alpha_kvs t)"
  by (simp add: valid_tags_map_of distinct_alpha_kvs)

lemma valid_wire_kvs: "valid_tags t \<Longrightarrow> valid_tags (wire_kvs t)"
  by (simp add: valid_tags_map_of distinct_wire_kvs)

lemma Split_tag_texts:
  assumes "valid_tags kvs" and "kvs \<noteq> []"
  shows "Split (Join (map tag_text kvs) '';'') (CHR '';'') = map tag_text kvs"
  using assms by (intro Split_Join) (auto simp: valid_tags_def tag_text_no_sep)

lemma Join_tag_texts_Nil: "Join (map tag_text kvs) '';'' = [] \<longleftrightarrow> kvs = []"
  by (cases kvs; cases "tl kvs") (auto simp: neq_Nil_conv)

lemma tag_text_inj:
  "isValidTXTTagName (fst a) \<Longrightarrow> isValidTXTTagValue (snd a) \<Longrightarrow> isValidTXTTagName (fst b) \<Longrightarrow>
   isValidTXTTagValue (snd b) \<Longrightarrow> tag_text a = tag_text b \<Longrightarrow> a = b"
  by (metis Inr_inject parsePair_tag_text)

lemma Join_tag_texts_inj:
  assumes "valid_tags a" and "valid_tags b" and "Join (map tag_text a) '';'' = Join (map tag_text b) '';''"
  shows "a = b"
proof (cases "a = [] \<or> b = []")
  case True
  with assms(3) Join_tag_texts_Nil show ?thesis by (metis Join.simps(1) list.simps(8))
next
  case False
  then have "map tag_text a = map tag_text b"
    using Split_tag_texts assms by metis
  then show ?thesis
    by (rule list.inj_map_strong [rotated]) (use assms(1,2) in \<open>unfold valid_tags_def, blast intro: tag_text_inj\<close>)
qed

text \<open>The canonical form determines the tag map.\<close>

lemma serializeTagsAlphabetical_inj:
  assumes "valid_tags a" and "valid_tags b"
    and "serializeTagsAlphabetical a = serializeTagsAlphabetical b"
  shows "map_of a = map_of b"
proof -
  have "alpha_kvs a = alpha_kvs b"
    using assms by (intro Join_tag_texts_inj valid_alpha_kvs) (simp_all add: serializeTagsAlphabetical_kvs)
  then show ?thesis by (metis map_of_alpha_kvs)
qed

lemma serializeTagsAlphabetical_cong:
  assumes "distinct (map fst a)" and "distinct (map fst b)" and "map_of a = map_of b"
  shows "serializeTagsAlphabetical a = serializeTagsAlphabetical b"
  using assms distinct_keys_eq_sorted [OF assms]
  by (simp add: serializeTagsAlphabetical_def lookup0_def)

subsection \<open>The tag map of a record\<close>

lemma distinct_fold_updates:
  assumes "\<And>x t. distinct (map fst t) \<Longrightarrow> distinct (map fst (f x t))" and "distinct (map fst t)"
  shows "distinct (map fst (fold f xs t))"
  using assms by (induction xs arbitrary: t) auto

lemma distinct_put [simp]:
  "distinct (map fst t) \<Longrightarrow> distinct (map fst (put_nonempty n v t))"
  "distinct (map fst t) \<Longrightarrow> distinct (map fst (putParsedTag r n t))"
  "distinct (map fst t) \<Longrightarrow> distinct (map fst (putUnknownTag nv t))"
  by (simp_all add: put_nonempty_def putParsedTag_def putUnknownTag_def distinct_update)

lemma distinct_Tags [simp]: "distinct (map fst (Tags rec))"
  by (cases rec) (simp_all add: Tags_def Let_def distinct_fold_updates distinct_update)

lemma map_of_put_nonempty:
  "map_of (put_nonempty n v t) = (if v = '''' then map_of t else (map_of t)(n \<mapsto> v))"
  by (simp add: put_nonempty_def update_conv')

lemma map_of_fold_putParsedTag:
  "map_of (fold (putParsedTag r) ns t) =
     (\<lambda>k. if k \<in> set ns \<and> (k = irTagVersion \<or> isKnownIdentityRecordTag k)
          then Some (recordValueForTag (Some r) k) else map_of t k)"
  by (induction ns arbitrary: t) (auto simp: putParsedTag_def update_conv fun_eq_iff simp del: recordValueForTag.simps)

lemma map_of_fold_putUnknownTag:
  "distinct (map fst us) \<Longrightarrow>
   map_of (fold putUnknownTag us t) =
     (\<lambda>k. if k = irTagVersion \<or> isKnownIdentityRecordTag k then map_of t k
          else (case map_of us k of None \<Rightarrow> map_of t k | Some v \<Rightarrow> Some v))"
proof (induction us arbitrary: t)
  case (Cons u us)
  then have "map_of us (fst u) = None" by (simp add: map_of_eq_None_iff)
  with Cons show ?case
    by (cases u) (auto simp: putUnknownTag_def update_conv fun_eq_iff split: option.splits)
qed (simp add: fun_eq_iff)

lemma map_of_filter_keys:
  "map_of (filter (\<lambda>nv. P (fst nv)) m) k = (if P k then map_of m k else None)"
  by (induction m) auto

lemma recordValue_recordFromTags:
  "k = irTagVersion \<or> isKnownIdentityRecordTag k \<Longrightarrow>
     recordValueForTag (Some (recordFromTags tags)) k = lookup0 tags k"
  by (auto simp: isKnownIdentityRecordTag_def recordFromTags_def)

lemma map_of_put_same:
  "v = '''' \<or> map_of t n = Some v \<Longrightarrow> map_of (put_nonempty n v t) = map_of t"
  by (auto simp: map_of_put_nonempty)

lemma lookup0_nonempty: "lookup0 t k \<noteq> '''' \<Longrightarrow> map_of t k = Some (lookup0 t k)"
  by (auto simp: lookup0_def split: option.splits)

lemma map_of_Tags_recordFromTags:
  assumes "distinct (map fst tags)"
  shows "map_of (Tags (Some (recordFromTags tags))) = map_of tags"
proof -
  let ?r = "recordFromTags tags"
  let ?p = "\<lambda>k. k = irTagVersion \<or> isKnownIdentityRecordTag k"
  let ?t0 = "fold (putParsedTag ?r) (map fst tags) []"
  have t0: "map_of ?t0 = (\<lambda>k. if ?p k then map_of tags k else None)"
    by (auto simp: map_of_fold_putParsedTag recordValue_recordFromTags lookup0_in not_in_keys fun_eq_iff
        simp del: recordValueForTag.simps)
  have known: "map_of t k = Some (lookup0 tags k)"
    if "map_of t = map_of ?t0" and "?p k" and "lookup0 tags k \<noteq> ''''" for t k
    using that lookup0_nonempty [OF that(3)] by (simp add: t0)
  have step: "map_of (put_nonempty k (lookup0 tags k) t) = map_of ?t0"
    if "map_of t = map_of ?t0" and "?p k" for t k
    using map_of_put_same known that by metis
  have fl: "map_of (if Flags ?r \<noteq> [] then AList.update irTagFlags (Join (Flags ?r) '','') t else t)
      = map_of ?t0" if "map_of t = map_of ?t0" for t
    using that known [OF that, of irTagFlags]
    by (auto simp: recordFromTags_def update_conv isKnownIdentityRecordTag_def)
  have unk: "map_of (UnknownTags ?r) k = (if ?p k then None else map_of tags k)" for k
    using map_of_filter_keys [of "\<lambda>k. k \<noteq> irTagVersion \<and> \<not> isKnownIdentityRecordTag k" tags k]
    by (auto simp: recordFromTags_def)
  have du: "distinct (map fst (UnknownTags ?r))"
    using assms by (simp add: recordFromTags_def distinct_map_filter)
  have sel: "Version ?r = lookup0 tags irTagVersion" "GovernanceID ?r = lookup0 tags irTagGovernanceID"
    "EntityKeyURI ?r = lookup0 tags irTagEntityKeyURI" "KeyURI ?r = lookup0 tags irTagKeyURI"
    "LogRef ?r = lookup0 tags irTagLogRef" "StatusURI ?r = lookup0 tags irTagStatusURI"
    "Signature ?r = lookup0 tags irTagSignature" "KeyAge ?r = lookup0 tags irTagKeyAge"
    "Capabilities ?r = lookup0 tags irTagCapabilities" "parsedTags ?r = tags"
    by (simp_all add: recordFromTags_def)
  have "\<exists>t1. map_of t1 = map_of ?t0 \<and> Tags (Some ?r) = fold putUnknownTag (UnknownTags ?r) t1"
    unfolding Tags_def Let_def option.case sel
    by (rule exI, rule conjI [OF _ refl], intro step fl refl) (simp_all add: isKnownIdentityRecordTag_def)
  then show ?thesis
    using du by (auto simp: map_of_fold_putUnknownTag t0 unk fun_eq_iff split: option.splits)
qed

lemma lookup0_put:
  "lookup0 (put_nonempty n v t) k = (if k = n \<and> v \<noteq> '''' then v else lookup0 t k)"
  "lookup0 (if b then AList.update n w t else t) k = (if k = n \<and> b then w else lookup0 t k)"
  by (simp_all add: put_nonempty_def lookup0_update)

lemma lookup0_putParsed:
  "k = irTagVersion \<or> isKnownIdentityRecordTag k \<Longrightarrow>
   lookup0 (fold (putParsedTag r) ns []) k = (if k \<in> set ns then recordValueForTag (Some r) k else '''')"
  by (simp add: lookup0_def map_of_fold_putParsedTag del: recordValueForTag.simps)

lemma lookup0_putUnknown:
  "k = irTagVersion \<or> isKnownIdentityRecordTag k \<Longrightarrow> lookup0 (fold putUnknownTag us t) k = lookup0 t k"
  by (induction us arbitrary: t) (auto simp: putUnknownTag_def lookup0_update)

lemma lookup0_Tags:
  assumes "k = irTagVersion \<or> isKnownIdentityRecordTag k"
  shows "lookup0 (Tags (Some r)) k = recordValueForTag (Some r) k"
proof -
  from assms have "k \<in> {irTagVersion, irTagGovernanceID, irTagEntityKeyURI, irTagKeyURI, irTagLogRef, irTagStatusURI,
              irTagSignature, irTagFlags, irTagKeyAge, irTagCapabilities}"
    by (auto simp: isKnownIdentityRecordTag_def)
  then show ?thesis
    unfolding Tags_def Let_def option.case lookup0_putUnknown [OF assms] lookup0_put lookup0_putParsed [OF assms]
    by (elim insertE) simp_all
qed

lemma validateRequiredTags_iff [ok_iffs]:
  "validateRequiredTags (Some r) sig = Inr u \<longleftrightarrow>
     isSupportedVersion (Version r) \<and>
     (\<forall>name \<in> set (requiredTagNamesForVersion (Version r)). recordValueForTag (Some r) name \<noteq> '''') \<and>
     (sig \<longrightarrow> Signature r \<noteq> '''')"
proof -
  have ne: "isSupportedVersion v \<Longrightarrow> v \<noteq> ''''" for v
    by (auto simp: isSupportedVersion_def profileForVersion_def identityRecordProfiles_def
        identityRecordDraft01_def identityRecordDNSid1_def)
  have req: "requiredTagNamesForVersion v \<noteq> [] \<longrightarrow> '''' \<notin> set (requiredTagNamesForVersion v)" for v
    by (auto simp: requiredTagNamesForVersion_def profileForVersion_def identityRecordProfiles_def
        draft01Profile_def split: option.splits if_splits)
  show ?thesis
    using ne [of "Version r"] req [of "Version r"]
    by (auto simp: validateRequiredTags_def missingRequiredRecordTag_def find_None_iff
        dest: find_SomeD split: option.splits if_splits simp del: recordValueForTag.simps)
qed

lemma supported_draft01:
  assumes "isSupportedVersion v"
  shows "requiredTagNamesForVersion v =
      [irTagGovernanceID, irTagEntityKeyURI, irTagKeyURI, irTagLogRef, irTagStatusURI]"
    and "usesFullAlphabeticCanon v"
    and "versionSpecificRequiredTagNames v = [irTagGovernanceID, irTagEntityKeyURI, irTagLogRef]"
    and "v \<noteq> ''''"
  using assms
  by (auto simp: isSupportedVersion_def requiredTagNamesForVersion_def usesFullAlphabeticCanon_def
      versionSpecificRequiredTagNames_def profileForVersion_def identityRecordProfiles_def
      identityRecordDraft01_def identityRecordDNSid1_def draft01Profile_def split: if_splits)

lemma CanonicalContent_alpha:
  "isSupportedVersion (Version r) \<Longrightarrow>
     CanonicalContent r = serializeTagsAlphabetical (AList.delete irTagSignature (Tags (Some r)))"
  by (simp add: CanonicalContent_def supported_draft01)

lemma CanonicalContent_cong:
  assumes "isSupportedVersion (Version r)" and "isSupportedVersion (Version r')"
    and "(map_of (Tags (Some r)))(irTagSignature := None) = (map_of (Tags (Some r')))(irTagSignature := None)"
  shows "CanonicalContent r = CanonicalContent r'"
  using assms by (simp add: CanonicalContent_alpha)
    (intro serializeTagsAlphabetical_cong, simp_all add: distinct_delete delete_conv')

lemma valid_delete: "valid_tags t \<Longrightarrow> valid_tags (AList.delete k t)"
  by (simp add: valid_tags_map_of distinct_delete delete_conv')

lemma parseTXTRecord_ok:
  assumes "parseTXTRecord txt sig = Inr r"
  obtains tags names where "parsePairs False (Split txt (CHR '';'')) [] [] = Inr (tags, names)"
    and "r = recordFromTags tags" and "valid_tags tags" and "map fst tags = names"
    and "names \<noteq> []" and "hd names = irTagVersion"
    and "isSupportedVersion (Version r)"
    and "\<forall>n \<in> {irTagGovernanceID, irTagEntityKeyURI, irTagKeyURI, irTagLogRef, irTagStatusURI}. lookup0 tags n \<noteq> ''''"
    and "sig \<longleftrightarrow> Signature r \<noteq> ''''" and "KeyAge r = '''' \<or> KeyAge r \<in> set ValidKeyAgeValues"
proof -
  from assms obtain tags names where p: "parsePairs False (Split txt (CHR '';'')) [] [] = Inr (tags, names)"
    and r: "r = recordFromTags tags" and n: "names \<noteq> []" "hd names = irTagVersion"
    and v: "isSupportedVersion (lookup0 tags irTagVersion)"
    and m1: "\<not> missing_tag tags baseRequiredTagNames"
    and m2: "\<not> missing_tag tags (versionSpecificRequiredTagNames (lookup0 tags irTagVersion))"
    and sg: "sig \<longleftrightarrow> lookup0 tags irTagSignature \<noteq> ''''"
    and ka: "lookup0 tags irTagKeyAge = '''' \<or> lookup0 tags irTagKeyAge \<in> set ValidKeyAgeValues"
    unfolding parseTXTRecord_def by (auto simp: ok_iffs split: if_splits prod.splits)
  from parsePairs_valid [OF p] have val: "valid_tags tags" and mf: "map fst tags = names"
    by simp_all
  show thesis
    by (rule that [OF p r val mf n])
      (use v m1 m2 sg ka in \<open>simp_all add: r recordFromTags_def missing_tag_def baseRequiredTagNames_def supported_draft01\<close>)
qed

lemma parsed_Tags:
  assumes "parseTXTRecord txt sig = Inr r"
  shows "map_of (Tags (Some r)) = map_of (parsedTags r)" and "valid_tags (Tags (Some r))"
    and "isSupportedVersion (Version r)" and "valid_tags (parsedTags r)"
proof -
  from assms obtain tags where r: "r = recordFromTags tags" and v: "valid_tags tags"
    and s: "isSupportedVersion (Version r)"
    by (rule parseTXTRecord_ok)
  from v have m: "map_of (Tags (Some r)) = map_of tags"
    by (simp add: r map_of_Tags_recordFromTags valid_tags_def)
  have pt: "parsedTags r = tags" by (simp add: r recordFromTags_def)
  show "map_of (Tags (Some r)) = map_of (parsedTags r)" by (simp add: pt m)
  show "valid_tags (Tags (Some r))" using v by (simp add: valid_tags_map_of m)
  show "isSupportedVersion (Version r)" by (rule s)
  show "valid_tags (parsedTags r)" using v by (simp add: pt)
qed

lemma parsePairs_elements:
  assumes "parsePairs later ps t ns = Inr (t', ns')"
  shows "\<exists>qs kvs. (ps = qs \<or> ps = qs @ ['''']) \<and> t' = t @ kvs \<and> length qs = length kvs \<and>
           (\<forall>i < length qs. parsePair (later \<or> 0 < i) (qs ! i) = Inr (kvs ! i))"
  using assms
proof (induction ps arbitrary: later t ns)
  case (Cons pair rest)
  show ?case
  proof (cases "pair = []")
    case True
    with Cons.prems show ?thesis by (intro exI [of _ "[]"]) (auto split: if_splits)
  next
    case False
    with Cons.prems obtain n v where nv: "parsePair later pair = Inr (n, v)"
      and new: "map_of t n = None"
      and rec: "parsePairs True rest (AList.update n v t) (ns @ [n]) = Inr (t', ns')"
      by (auto simp: ok_iffs split: if_splits prod.splits)
    from new have upd: "AList.update n v t = t @ [(n, v)]"
      by (simp add: map_of_eq_None_iff update_new)
    from Cons.IH [OF rec] obtain qs kvs where q: "rest = qs \<or> rest = qs @ ['''']"
      "t' = AList.update n v t @ kvs" "length qs = length kvs"
      "\<forall>i < length qs. parsePair (True \<or> 0 < i) (qs ! i) = Inr (kvs ! i)"
      by blast
    then show ?thesis
      using nv by (intro exI [of _ "pair # qs"] exI [of _ "(n, v) # kvs"]) (auto simp: upd nth_Cons split: nat.splits)
  qed
qed auto

section \<open>Properties\<close>

text \<open>
  C1. The signed content determines the tags: two accepted records with the same canonical
  content have the same tags with the same values, the signature tag apart. So a record
  signature covers every tag of the record, unknown extension tags included.
\<close>

theorem canonical_content_binds_tags:
  assumes "ParseTXTRecord s1 = Inr r1" and "ParseTXTRecord s2 = Inr r2"
    and "CanonicalContent r1 = CanonicalContent r2"
  shows "(map_of (Tags (Some r1)))(irTagSignature := None) = (map_of (Tags (Some r2)))(irTagSignature := None)"
proof -
  note p1 = parsed_Tags [OF assms(1) [unfolded ParseTXTRecord_def]]
    and p2 = parsed_Tags [OF assms(2) [unfolded ParseTXTRecord_def]]
  have "map_of (AList.delete irTagSignature (Tags (Some r1))) = map_of (AList.delete irTagSignature (Tags (Some r2)))"
    by (rule serializeTagsAlphabetical_inj)
      (use assms(3) p1 p2 in \<open>simp_all add: valid_delete CanonicalContent_alpha\<close>)
  then show ?thesis by (simp add: delete_conv')
qed


text \<open>
  C25. What a parsed record is: the elements of the text are read in order, each tag occurs
  once (a second \<open>ku=\<close> cannot be smuggled in), the version tag is first, the tag map of the
  record is exactly what was read, and the record passes the checks of \<open>MarshalTXT\<close>.
\<close>

theorem parse_exact_elements:
  assumes "ParseTXTRecord txt = Inr r"
  shows "(\<exists>qs. (Split txt (CHR '';'') = qs \<or> Split txt (CHR '';'') = qs @ ['''']) \<and>
            length qs = length (parsedTags r) \<and>
            (\<forall>i < length qs. parsePair (0 < i) (qs ! i) = Inr (parsedTags r ! i)))
         \<and> distinct (map fst (parsedTags r)) \<and> hd (map fst (parsedTags r)) = irTagVersion
         \<and> map_of (Tags (Some r)) = map_of (parsedTags r)
         \<and> (\<exists>s. MarshalTXT r = Inr s)"
proof -
  note p = parsed_Tags [OF assms [unfolded ParseTXTRecord_def]]
  from assms obtain tags names where
    pp: "parsePairs False (Split txt (CHR '';'')) [] [] = Inr (tags, names)" and r: "r = recordFromTags tags"
    and v: "valid_tags tags" "map fst tags = names" "hd names = irTagVersion"
    and req: "\<forall>n \<in> {irTagGovernanceID, irTagEntityKeyURI, irTagKeyURI, irTagLogRef, irTagStatusURI}. lookup0 tags n \<noteq> ''''"
    and sg: "Signature r \<noteq> ''''"
    unfolding ParseTXTRecord_def by (elim parseTXTRecord_ok) simp
  have pt: "parsedTags r = tags" by (simp add: r recordFromTags_def)
  have "\<exists>qs. (Split txt (CHR '';'') = qs \<or> Split txt (CHR '';'') = qs @ ['''']) \<and>
      length qs = length tags \<and> (\<forall>i < length qs. parsePair (0 < i) (qs ! i) = Inr (tags ! i))"
    using parsePairs_elements [OF pp] by simp
  moreover have "\<exists>s. MarshalTXT r = Inr s"
    using p sg req
    by (auto simp: MarshalTXT_def ok_iffs valid_tags_def supported_draft01 r recordFromTags_def [of tags])
  ultimately show ?thesis
    using v p(1) by (auto simp: pt valid_tags_def)
qed

text \<open>
  C30. Canonical round trip: for a record that passes the checks made before signing, the
  unsigned canonical content is accepted by \<open>ParseUnsignedCanonical\<close>, and gives back every
  tag but the signature.
\<close>

theorem canonical_unsigned_roundtrip:
  assumes req: "validateRequiredTags (Some r) False = Inr ()"
    and syn: "validateTXTTagSyntax (AList.delete irTagSignature (Tags (Some r))) = Inr ()"
    and ka: "KeyAge r = '''' \<or> KeyAge r \<in> set ValidKeyAgeValues"
  shows "\<exists>r'. ParseUnsignedCanonical (CanonicalContent r) = Inr r' \<and>
           map_of (Tags (Some r')) = (map_of (Tags (Some r)))(irTagSignature := None) \<and>
           CanonicalContent r' = CanonicalContent r"
proof -
  let ?t = "AList.delete irTagSignature (Tags (Some r))"
  let ?k = "alpha_kvs ?t" and ?txt = "CanonicalContent r"
  from req have sup: "isSupportedVersion (Version r)" by (simp add: ok_iffs)
  note s = supported_draft01 [OF sup]
  have v: "valid_tags ?k"
    using syn by (intro valid_alpha_kvs) (simp add: ok_iffs valid_tags_def distinct_delete)
  have l: "lookup0 ?k k = (if k = irTagSignature then '''' else lookup0 (Tags (Some r)) k)" for k
    by (simp add: lookup0_def delete_conv')
  have tx: "?txt = Join (map tag_text ?k) '';''"
    by (simp add: CanonicalContent_alpha sup serializeTagsAlphabetical_kvs)
  have "lookup0 ?k irTagVersion \<noteq> ''''" by (simp add: l lookup0_Tags s)
  then have k: "?k \<noteq> []" by (metis lookup0_Nil)
  have nsg: "irTagSignature \<notin> fst ` set ?k"
    by (metis delete_conv' fun_upd_same map_of_alpha_kvs map_of_eq_None_iff)
  have sp: "Split ?txt (CHR '';'') = map tag_text ?k"
    using v k by (simp add: tx Split_tag_texts)
  have pp: "parseUnsignedPairs False (Split ?txt (CHR '';'')) [] = Inr ?k"
    using parseUnsignedPairs_complete [of "[]" ?k False] v nsg by (simp add: sp)
  let ?r = "(recordFromTags ?k)\<lparr>Signature := ''''\<rparr>"
  have rr: "?r = recordFromTags ?k" by (simp add: recordFromTags_def l)
  have t: "map_of (Tags (Some ?r)) = (map_of (Tags (Some r)))(irTagSignature := None)"
    using v by (simp add: rr map_of_Tags_recordFromTags valid_tags_def delete_conv')
  have c: "CanonicalContent ?r = ?txt"
    using sup t by (intro CanonicalContent_cong) (simp_all add: recordFromTags_def l lookup0_Tags)
  have alpha: "parseUnsignedCanonicalAlpha ?txt = Inr ?r"
    using pp k sup c ka req s
    by (simp add: parseUnsignedCanonicalAlpha_def Join_tag_texts_Nil [of ?k, folded tx] l lookup0_Tags
        isKnownIdentityRecordTag_def missing_tag_def baseRequiredTagNames_def ok_iffs Let_def)
  have "profileForVersion (TrimPrefix (hd (Split ?txt (CHR '';''))) (irTagVersion @ ''='')) \<noteq> None"
    if pre: "HasPrefix ?txt (irTagVersion @ ''='')"
  proof -
    obtain n x rest where kk: "?k = (n, x) # rest" using k by (cases ?k) auto
    with v have nx: "isValidTXTTagName n" by (auto simp: valid_tags_def)
    have "?txt = tag_text (n, x) @ (if rest = [] then '''' else '';'' @ Join (map tag_text rest) '';'')"
      by (simp add: tx kk Join_Cons)
    with pre have "n = irTagVersion"
      using tag_name_chars(1,2) [OF nx] by (cases n; cases "tl n") (auto simp: tag_text_def)
    then have "x = Version r"
      using l [of irTagVersion] by (simp add: kk lookup0_Tags) (simp add: lookup0_def)
    with \<open>n = irTagVersion\<close> show ?thesis
      using sup by (simp add: sp kk tag_text_def TrimPrefix_def isSupportedVersion_def)
  qed
  moreover have "alphabeticCanonical p" if "profileForVersion v = Some p" for v p
    using that by (auto simp: profileForVersion_def identityRecordProfiles_def draft01Profile_def split: if_splits)
  ultimately have "ParseUnsignedCanonical ?txt = Inr ?r"
    using alpha by (auto simp: ParseUnsignedCanonical_def Let_def split: option.splits)
  with t c show ?thesis by blast
qed

lemma sample_MarshalTXT:
  "MarshalTXT sample_record = Inr ''v=DNSid1;ek=https://a.b/e;fl=mtls,logchk;gi=a.b;ka=7d;ku=https://x.a.b/k;lr=m:1;sg=AA;su=https://a.b/s;zz=1=2''"
  by code_simp


lemma sample_parsed:
  "ParseTXTRecord sample_text = Inr (recordFromTags [(''v'', ''DNSid1''), (''gi'', ''a.b''),
     (''ku'', ''https://x.a.b/k''), (''zz'', ''1=2''), (''ek'', ''https://a.b/e''), (''lr'', ''m:1''),
     (''su'', ''https://a.b/s''), (''sg'', ''BB''), (''fl'', ''mtls,logchk''), (''ka'', ''7d'')])"
  by code_simp

lemma sample_wire_parsed:
  "ParseTXTRecord ''v=DNSid1;ek=https://a.b/e;fl=mtls,logchk;gi=a.b;ka=7d;ku=https://x.a.b/k;lr=m:1;sg=AA;su=https://a.b/s;zz=1=2'' = Inr (recordFromTags [(''v'', ''DNSid1''), (''ek'', ''https://a.b/e''),
     (''fl'', ''mtls,logchk''), (''gi'', ''a.b''), (''ka'', ''7d''), (''ku'', ''https://x.a.b/k''), (''lr'', ''m:1''),
     (''sg'', ''AA''), (''su'', ''https://a.b/s''), (''zz'', ''1=2'')])"
  by code_simp

lemma sample_same_content:
  "CanonicalContent (recordFromTags [(''v'', ''DNSid1''), (''gi'', ''a.b''),
     (''ku'', ''https://x.a.b/k''), (''zz'', ''1=2''), (''ek'', ''https://a.b/e''), (''lr'', ''m:1''),
     (''su'', ''https://a.b/s''), (''sg'', ''BB''), (''fl'', ''mtls,logchk''), (''ka'', ''7d'')])
   = CanonicalContent (recordFromTags [(''v'', ''DNSid1''), (''ek'', ''https://a.b/e''),
     (''fl'', ''mtls,logchk''), (''gi'', ''a.b''), (''ka'', ''7d''), (''ku'', ''https://x.a.b/k''), (''lr'', ''m:1''),
     (''sg'', ''AA''), (''su'', ''https://a.b/s''), (''zz'', ''1=2'')])"
  by code_simp

theorem canonical_content_binds_tags_witness:
  "\<exists>r1 r2. ParseTXTRecord sample_text = Inr r1 \<and> MarshalTXT sample_record \<noteq> Inr sample_text \<and>
     ParseTXTRecord ''v=DNSid1;ek=https://a.b/e;fl=mtls,logchk;gi=a.b;ka=7d;ku=https://x.a.b/k;lr=m:1;sg=AA;su=https://a.b/s;zz=1=2'' = Inr r2 \<and>
     (map_of (Tags (Some r1)))(irTagSignature := None) = (map_of (Tags (Some r2)))(irTagSignature := None)"
  using canonical_content_binds_tags [OF sample_parsed sample_wire_parsed sample_same_content]
    sample_parsed sample_wire_parsed by (auto simp: sample_MarshalTXT sample_text_def)

theorem parse_exact_elements_witness:
  "\<exists>r. ParseTXTRecord sample_text = Inr r \<and> distinct (map fst (parsedTags r)) \<and>
     map_of (Tags (Some r)) = map_of (parsedTags r) \<and> (\<exists>s. MarshalTXT r = Inr s)"
  using parse_exact_elements [OF sample_parsed] sample_parsed by blast

theorem canonical_unsigned_roundtrip_witness:
  "\<exists>r'. ParseUnsignedCanonical (CanonicalContent sample_record) = Inr r' \<and>
     map_of (Tags (Some r')) = (map_of (Tags (Some sample_record)))(irTagSignature := None) \<and>
     CanonicalContent r' = CanonicalContent sample_record"
proof (rule canonical_unsigned_roundtrip)
  show "validateRequiredTags (Some sample_record) False = Inr ()" by code_simp
  show "validateTXTTagSyntax (AList.delete irTagSignature (Tags (Some sample_record))) = Inr ()" by code_simp
  show "KeyAge sample_record = '''' \<or> KeyAge sample_record \<in> set ValidKeyAgeValues" by code_simp
qed

end
