(* ===== verification/Go_Unicode.thy ===== *)
theory Go_Unicode
  imports Go_Prelude
begin

text \<open>
  UTF-8 and UTF-16 as Go's \<open>unicode/utf8\<close> and \<open>unicode/utf16\<close> have them: decoding a rune, the runes of
  a string, validity, and encoding. The lemmas show that decoding looks no further than the
  rune's own bytes, so that validity of strings is kept by concatenation.
\<close>

section \<open>Strings\<close>

text \<open>\<open>utf8.DecodeRune\<close>: the rune and its width; \<open>(0xFFFD, 1)\<close> for an invalid byte.\<close>

definition contByte :: "nat \<Rightarrow> bool" where
  "contByte b = (0x80 \<le> b \<and> b \<le> 0xBF)"

definition secondByte :: "nat \<Rightarrow> nat \<Rightarrow> bool" where
  "secondByte b0 b1 =
     (if b0 = 0xE0 then 0xA0 \<le> b1 \<and> b1 \<le> 0xBF
      else if b0 = 0xED then 0x80 \<le> b1 \<and> b1 \<le> 0x9F
      else if b0 = 0xF0 then 0x90 \<le> b1 \<and> b1 \<le> 0xBF
      else if b0 = 0xF4 then 0x80 \<le> b1 \<and> b1 \<le> 0x8F
      else contByte b1)"

definition decodeRune4 :: "nat \<Rightarrow> nat \<Rightarrow> nat \<Rightarrow> nat \<Rightarrow> nat \<times> nat" where
  "decodeRune4 b0 b1 b2 b3 =
     (if b0 < 0x80 then (b0, 1)
      else if 0xC2 \<le> b0 \<and> b0 \<le> 0xDF \<and> secondByte b0 b1
      then ((b0 - 0xC0) * 64 + (b1 - 0x80), 2)
      else if 0xE0 \<le> b0 \<and> b0 \<le> 0xEF \<and> secondByte b0 b1 \<and> contByte b2
      then ((b0 - 0xE0) * 4096 + (b1 - 0x80) * 64 + (b2 - 0x80), 3)
      else if 0xF0 \<le> b0 \<and> b0 \<le> 0xF4 \<and> secondByte b0 b1 \<and> contByte b2 \<and> contByte b3
      then ((b0 - 0xF0) * 262144 + (b1 - 0x80) * 4096 + (b2 - 0x80) * 64 + (b3 - 0x80), 4)
      else (0xFFFD, 1))"

definition byteAt :: "string \<Rightarrow> nat \<Rightarrow> nat" where
  "byteAt s i = (if i < length s then of_char (s ! i) else 0)"

definition decodeRune :: "string \<Rightarrow> nat \<times> nat" where
  "decodeRune s = decodeRune4 (byteAt s 0) (byteAt s 1) (byteAt s 2) (byteAt s 3)"

lemma decodeRune_shorter [termination_simp]:
  "\<lbrakk>s \<noteq> []; (r, w) = decodeRune s\<rbrakk> \<Longrightarrow> length s - w < length s"
proof -
  assume "s \<noteq> []" "(r, w) = decodeRune s"
  moreover have "0 < snd (decodeRune s)"
    unfolding decodeRune_def decodeRune4_def by (simp split: if_split del: One_nat_def)
  ultimately show ?thesis by (metis diff_less length_greater_0_conv snd_conv)
qed

text \<open>The runes of a string, and whether it is valid: a width of 1 for a byte from 0x80 is an error.\<close>

function runes :: "string \<Rightarrow> nat list" where
  "runes s = (if s = [] then [] else (case decodeRune s of (r, w) \<Rightarrow> r # runes (drop w s)))"
  by pat_completeness auto
termination
  by (relation "measure length") (simp_all add: decodeRune_shorter)

declare runes.simps [simp del]

function ValidString :: "string \<Rightarrow> bool" where
  "ValidString s =
     (if s = [] then True
      else (case decodeRune s of (r, w) \<Rightarrow> (w \<noteq> 1 \<or> of_char (hd s) < (0x80::nat)) \<and> ValidString (drop w s)))"
  by pat_completeness auto
termination
  by (relation "measure length") (simp_all add: decodeRune_shorter)

declare ValidString.simps [simp del]

text \<open>\<open>utf16.Encode([]rune(s))\<close>\<close>

definition utf16Units :: "nat \<Rightarrow> nat list" where
  "utf16Units r =
     (if r < 0x10000 then [r]
      else [0xD800 + (r - 0x10000) div 1024, 0xDC00 + (r - 0x10000) mod 1024])"

definition utf16 :: "string \<Rightarrow> nat list" where
  "utf16 s = concat (map utf16Units (runes s))"

text \<open>\<open>utf8.EncodeRune\<close>: surrogates and values out of range are written as U+FFFD.\<close>

definition encodeRune :: "nat \<Rightarrow> string" where
  "encodeRune r =
     (if r < 0x80 then [char_of r]
      else if r < 0x800 then [char_of (0xC0 + r div 64), char_of (0x80 + r mod 64)]
      else if (0xD800 \<le> r \<and> r \<le> 0xDFFF) \<or> r > 0x10FFFF then [CHR 0xEF, CHR 0xBF, CHR 0xBD]
      else if r < 0x10000
      then [char_of (0xE0 + r div 4096), char_of (0x80 + r div 64 mod 64), char_of (0x80 + r mod 64)]
      else [char_of (0xF0 + r div 262144), char_of (0x80 + r div 4096 mod 64),
            char_of (0x80 + r div 64 mod 64), char_of (0x80 + r mod 64)])"

text \<open>
  White space (\<open>unicode.IsSpace\<close>): the length of the space character a text starts with, 0 for
  none, and of the one it ends with; \<open>strings.TrimSpace\<close>.
\<close>

definition spaceLen :: "string \<Rightarrow> nat" where
  "spaceLen s =
     (case s of
        [] \<Rightarrow> 0
      | c # _ \<Rightarrow>
          if c \<in> {CHR 0x09, CHR 0x0A, CHR 0x0B, CHR 0x0C, CHR 0x0D, CHR '' ''} then 1
          else if HasPrefix s [CHR 0xC2, CHR 0x85] \<or> HasPrefix s [CHR 0xC2, CHR 0xA0] then 2
          else if list_ex (HasPrefix s)
              ([[CHR 0xE1, CHR 0x9A, CHR 0x80], [CHR 0xE2, CHR 0x80, CHR 0xA8], [CHR 0xE2, CHR 0x80, CHR 0xA9],
                [CHR 0xE2, CHR 0x80, CHR 0xAF], [CHR 0xE2, CHR 0x81, CHR 0x9F], [CHR 0xE3, CHR 0x80, CHR 0x80]]
               @ map (\<lambda>i. [CHR 0xE2, CHR 0x80, char_of (128 + i :: nat)]) [0..<11]) then 3
          else 0)"

lemma spaceLen_Nil [simp]: "spaceLen [] = 0"
  by (simp add: spaceLen_def)

lemma drop_shorter: "\<lbrakk>s \<noteq> []; n \<noteq> 0\<rbrakk> \<Longrightarrow> length (drop n s) < length s"
  by (cases s; cases n) auto

definition trailingSpace :: "string \<Rightarrow> nat" where
  "trailingSpace s =
     (case find (\<lambda>k. k \<le> length s \<and> spaceLen (drop (length s - k) s) = k) [1, 2, 3] of None \<Rightarrow> 0 | Some k \<Rightarrow> k)"

function trimLeft :: "string \<Rightarrow> string" where
  "trimLeft s = (if spaceLen s = 0 then s else trimLeft (drop (spaceLen s) s))"
  by pat_completeness auto
termination
  by (relation "measure length") (simp, metis drop_shorter in_measure spaceLen_Nil)

function trimRight :: "string \<Rightarrow> string" where
  "trimRight s = (if s = [] \<or> trailingSpace s = 0 then s else trimRight (take (length s - trailingSpace s) s))"
  by pat_completeness auto
termination
  by (relation "measure length") auto

declare trimLeft.simps [simp del] trimRight.simps [simp del]

definition TrimSpace :: "string \<Rightarrow> string" where
  "TrimSpace s = trimRight (trimLeft s)"

text \<open>\<open>strings.Map\<close>; an invalid byte is mapped as U+FFFD.\<close>

definition mapRunes :: "(nat \<Rightarrow> nat) \<Rightarrow> string \<Rightarrow> string" where
  "mapRunes f s = concat (map (\<lambda>r. encodeRune (f r)) (runes s))"

section \<open>Lemmas\<close>

lemma byteAt_append: "i < length a \<Longrightarrow> byteAt (a @ b) i = byteAt a i"
  by (simp add: byteAt_def nth_append)

lemma decodeRune_width: "1 \<le> snd (decodeRune s)"
  unfolding decodeRune_def decodeRune4_def by (simp split: if_split del: One_nat_def)

text \<open>A rune wider than one byte is within the string, and its bytes are not ASCII.\<close>

lemma decodeRune_wide:
  assumes "decodeRune s = (r, w)" "w \<noteq> 1"
  shows "1 < w \<and> w \<le> length s \<and> (\<forall>i < w. 0x80 \<le> byteAt s i)"
proof -
  let ?b = "byteAt s"
  have w: "w = 2 \<and> 0x80 \<le> ?b 0 \<and> 0x80 \<le> ?b 1 \<or> w = 3 \<and> 0x80 \<le> ?b 0 \<and> 0x80 \<le> ?b 1 \<and> 0x80 \<le> ?b 2
      \<or> w = 4 \<and> 0x80 \<le> ?b 0 \<and> 0x80 \<le> ?b 1 \<and> 0x80 \<le> ?b 2 \<and> 0x80 \<le> ?b 3"
    using assms by (auto simp: decodeRune_def decodeRune4_def secondByte_def contByte_def split: if_splits)
  have "0x80 \<le> ?b i \<Longrightarrow> i < length s" for i by (simp add: byteAt_def split: if_splits)
  moreover have "0x80 \<le> ?b (w - 1)" "0 < w" using w by (elim disjE; simp)+
  ultimately have "w \<le> length s" by fastforce
  moreover have "\<forall>i < w. 0x80 \<le> ?b i" using w by (elim disjE) (auto simp: less_Suc_eq numeral_eq_Suc)
  ultimately show ?thesis using w by auto
qed

lemma decodeRune_ascii: "of_char c < (0x80::nat) \<Longrightarrow> decodeRune (c # s) = (of_char c, 1)"
  by (simp add: decodeRune_def decodeRune4_def byteAt_def)

lemma decodeRune_local:
  assumes "decodeRune s = (r, w)" "w \<noteq> 1" "\<forall>i < w. byteAt t i = byteAt s i"
  shows "decodeRune t = (r, w)"
proof -
  have "w = 2 \<or> w = 3 \<or> w = 4"
    using assms(1,2) by (auto simp: decodeRune_def decodeRune4_def split: if_splits)
  moreover have "0 < w" using calculation by auto
  ultimately show ?thesis
    using assms by (elim disjE) (auto simp: decodeRune_def decodeRune4_def split: if_splits)
qed

lemma ValidString_Nil [simp]: "ValidString []"
  by (simp add: ValidString.simps)

lemma ValidString_ascii [simp]: "of_char c < (0x80::nat) \<Longrightarrow> ValidString (c # s) \<longleftrightarrow> ValidString s"
  by (subst ValidString.simps) (simp add: decodeRune_ascii)

text \<open>A valid string is a sequence of ASCII bytes and of wide runes.\<close>

lemma ValidString_cases:
  assumes "ValidString s"
  obtains "s = []" | c t where "s = c # t" "of_char c < (0x80::nat)" "ValidString t"
  | r w where "decodeRune s = (r, w)" "w \<noteq> 1" "w \<le> length s" "\<forall>i < w. 0x80 \<le> byteAt s i" "ValidString (drop w s)"
proof (cases s)
  case (Cons c t)
  obtain r w where rw: "decodeRune s = (r, w)" by fastforce
  then have v: "w \<noteq> 1 \<or> of_char c < (0x80::nat)" "ValidString (drop w s)"
    using assms unfolding Cons by (subst (asm) (1) ValidString.simps, simp)+
  show ?thesis
  proof (cases "w = 1")
    case True
    with v Cons that(2) show ?thesis by simp
  next
    case False
    with rw v that(3) decodeRune_wide [OF rw False] show ?thesis by blast
  qed
qed (use that in simp)

lemma ValidString_wide:
  assumes "decodeRune s = (r, w)" "w \<noteq> 1" "w \<le> length s"
  shows "ValidString (take w s @ t) \<longleftrightarrow> ValidString t"
proof -
  have "decodeRune (take w s @ t) = (r, w)"
    using assms by (intro decodeRune_local [OF assms(1,2)]) (auto simp: byteAt_def nth_append)
  moreover have "take w s @ t \<noteq> []" using assms decodeRune_width [of s] by auto
  ultimately show ?thesis using assms by (simp add: ValidString.simps [of "take w s @ t"])
qed

lemma ValidString_induct [consumes 1, case_names Nil ascii wide]:
  assumes "ValidString s" and "P []"
    and "\<And>c t. \<lbrakk>of_char c < (0x80::nat); ValidString t; P t\<rbrakk> \<Longrightarrow> P (c # t)"
    and "\<And>s r w. \<lbrakk>decodeRune s = (r, w); w \<noteq> 1; w \<le> length s; \<forall>i < w. 0x80 \<le> byteAt s i;
           ValidString (drop w s); P (drop w s)\<rbrakk> \<Longrightarrow> P s"
  shows "P s"
  using assms(1)
proof (induction s rule: measure_induct_rule [of length])
  case (less s)
  from less(2) show ?case
  proof (cases rule: ValidString_cases)
    case (3 r w)
    then have "length (drop w s) < length s" using decodeRune_width [of s] by (cases s) auto
    with 3 less(1) assms(4) show ?thesis by blast
  qed (use less(1) assms(2,3) in auto)
qed

lemma ValidString_append: "\<lbrakk>ValidString a; ValidString b\<rbrakk> \<Longrightarrow> ValidString (a @ b)"
proof (induction a rule: ValidString_induct)
  case (wide s r w)
  then have "ValidString (drop w s @ b)" by simp
  then have "ValidString (take w s @ (drop w s @ b))" using ValidString_wide [OF wide(1,2,3)] by blast
  then show ?case by (simp flip: append_assoc)
qed simp_all

lemma ValidString_concat: "\<forall>s \<in> set ss. ValidString s \<Longrightarrow> ValidString (concat ss)"
  by (induction ss) (simp_all add: ValidString_append)

lemma ValidString_ascii_list: "ascii s \<Longrightarrow> ValidString s"
  by (induction s) (simp_all add: ascii_def)

end
