(* ===== verification/Domain_Names.thy ===== *)
theory Domain_Names
  imports Sdk_Errors Go_Unicode
begin

text \<open>
  Domain names (\<open>fqdn.go\<close>, and \<open>hostnameRegex\<close> and \<open>isDomainName\<close> of \<open>identity_dns.go\<close> and
  \<open>identity_manager.go\<close>). The IDNA profile is a package outside the repository: its \<open>ToASCII\<close> is
  the parameter \<open>toASCII\<close>, \<open>None\<close> for an error.
\<close>

section \<open>Definitions\<close>

abbreviation "maxDNSIDFQDNLength \<equiv> (246::nat)"

definition mapIDNADot :: "nat \<Rightarrow> nat" where
  "mapIDNADot r = (if r = 0x3002 \<or> r = 0xFF0E \<or> r = 0xFF61 then 0x2E else r)"

definition invalidFQDNError :: "sdk_error option \<Rightarrow> sdk_error" where
  "invalidFQDNError err = ValidationError ''dnsid: invalid FQDN'' err"

definition NormalizeFQDN :: "(string \<Rightarrow> string option) \<Rightarrow> string \<Rightarrow> sdk_error + string" where
  "NormalizeFQDN toASCII input =
     (if input = [] then Inl (invalidFQDNError (Some (PlainError ''empty input'' None)))
      else let mappedInput = mapRunes mapIDNADot input in
        if HasSuffix mappedInput ''..'' then Inl (invalidFQDNError (Some (PlainError ''multiple trailing dots'' None)))
        else let mapped = TrimSuffix mappedInput ''.'' in
          if mapped = [] then Inl (invalidFQDNError (Some (PlainError ''empty name'' None)))
          else (case toASCII mapped of
                  None \<Rightarrow> Inl (invalidFQDNError (Some (PlainError ''idna'' None)))
                | Some normalized \<Rightarrow>
                    if length normalized > maxDNSIDFQDNLength
                    then Inl (invalidFQDNError (Some (PlainError ''length exceeds octets'' None)))
                    else Inr normalized))"

definition isDomainOrSubdomain :: "string \<Rightarrow> string \<Rightarrow> bool" where
  "isDomainOrSubdomain name domain = (name = domain \<or> HasSuffix name (''.'' @ domain))"

text \<open>\<open>hostnameRegex\<close>: at least two labels of 1 to 63 letters, digits and inner hyphens.\<close>

definition alnum :: "char \<Rightarrow> bool" where
  "alnum c = (isASCIIAlpha c \<or> isASCIIDigit c)"

definition hostLabel :: "string \<Rightarrow> bool" where
  "hostLabel l = (l \<noteq> [] \<and> length l \<le> 63 \<and> alnum (hd l) \<and> alnum (last l) \<and> list_all (\<lambda>c. alnum c \<or> c = CHR ''-'') l)"

definition hostnameRegex :: "string \<Rightarrow> bool" where
  "hostnameRegex s = (2 \<le> length (Split s (CHR ''.'')) \<and> list_all hostLabel (Split s (CHR ''.'')))"

definition isDomainName :: "string \<Rightarrow> bool" where
  "isDomainName value =
     (if value = [] \<or> CHR '':'' \<in> set value \<or> CHR ''/'' \<in> set value then False
      else if list_all isASCIIDigit (last (Split value (CHR ''.''))) then False
      else hostnameRegex value)"

text \<open>
  What is relied on of the IDNA profile: its results are ASCII names without a trailing dot, and
  it maps them to themselves.
\<close>

definition idnaProfile :: "(string \<Rightarrow> string option) \<Rightarrow> bool" where
  "idnaProfile toASCII =
     (\<forall>s t. toASCII s = Some t \<longrightarrow> t \<noteq> [] \<and> ascii t \<and> last t \<noteq> CHR ''.'' \<and> toASCII t = Some t)"

definition sample_toASCII :: "string \<Rightarrow> string option" where
  "sample_toASCII s = (if s \<noteq> [] \<and> ascii s \<and> last s \<noteq> CHR ''.'' then Some (ascii_lower s) else None)"

section \<open>Lemmas\<close>

lemma runes_ascii: "ascii s \<Longrightarrow> runes s = map of_char s"
proof (induction s)
  case Nil
  then show ?case by (simp add: runes.simps)
next
  case (Cons c s)
  then have "of_char c < (0x80::nat)" "runes s = map of_char s" by (simp_all add: ascii_def)
  then show ?case by (subst runes.simps) (simp add: decodeRune_ascii)
qed

lemma mapRunes_ascii: "ascii s \<Longrightarrow> mapRunes mapIDNADot s = s"
  by (induction s) (simp_all add: mapRunes_def runes_ascii encodeRune_def mapIDNADot_def ascii_def)

lemma no_trailing_dot:
  assumes "t \<noteq> []" "last t \<noteq> CHR ''.''"
  shows "\<not> HasSuffix t ''..''" "TrimSuffix t ''.'' = t"
proof -
  have "\<not> HasSuffix t ''.''" using assms by (auto simp: HasSuffix_iff)
  then show "TrimSuffix t ''.'' = t" by (simp add: TrimSuffix_def)
  show "\<not> HasSuffix t ''..''" using assms by (auto simp: HasSuffix_iff)
qed

lemma NormalizeFQDN_ok:
  assumes "NormalizeFQDN toASCII s = Inr t"
  obtains m where "toASCII m = Some t" "length t \<le> 246"
  using assms by (auto simp: NormalizeFQDN_def Let_def split: if_splits option.splits)


lemma ascii_lower_char_idem: "ascii_lower_char (ascii_lower_char c) = ascii_lower_char c"
proof (cases "CHR ''A'' \<le> c \<and> c \<le> CHR ''Z''")
  case True
  then have "65 \<le> (of_char c :: nat)" "of_char c \<le> (90::nat)" by (simp_all add: less_eq_char_def)
  then show ?thesis by (simp add: ascii_lower_char_def less_eq_char_def)
next
  case False
  then show ?thesis by (auto simp: ascii_lower_char_def)
qed

lemma ascii_lower_char_ascii: "of_char c < (128::nat) \<Longrightarrow> of_char (ascii_lower_char c) < (128::nat)"
  by (auto simp: ascii_lower_char_def less_eq_char_def)

lemma ascii_lower_char_dot: "ascii_lower_char c = CHR ''.'' \<longleftrightarrow> c = CHR ''.''"
proof (cases "CHR ''A'' \<le> c \<and> c \<le> CHR ''Z''")
  case True
  then have c: "65 \<le> (of_char c :: nat)" "of_char c \<le> (90::nat)" by (simp_all add: less_eq_char_def)
  then have "of_char (char_of (of_char c + (32::nat)) :: char) = (of_char c + 32 :: nat)" by simp
  moreover have "of_char (CHR ''.'') = (46::nat)" by simp
  ultimately have "char_of (of_char c + (32::nat)) \<noteq> CHR ''.''" using c by (intro notI) simp
  moreover have "c \<noteq> CHR ''.''" using c by auto
  ultimately show ?thesis using True by (simp add: ascii_lower_char_def)
qed (auto simp: ascii_lower_char_def)

lemma sample_idna: "idnaProfile sample_toASCII"
  by (auto simp: idnaProfile_def sample_toASCII_def ascii_lower_def ascii_def list_all_iff last_map
      ascii_lower_char_dot ascii_lower_char_ascii ascii_lower_char_idem split: if_splits)


end
