(* ===== verification/Lifecycle_Log.thy ===== *)
theory Lifecycle_Log
  imports Sdk_Errors Base64
begin

text \<open>
  The method-agnostic lifecycle log (\<open>log/log.go\<close>): agent states, lifecycle events, the
  \<open>LogReader\<close> interface with the reader for unregistered methods, the registry of log
  methods, log references, and the replay of a domain's history into a snapshot.

  A \<open>jwk.Key\<close> is a value of the type variable \<open>'k\<close>; the only operation of the JWK library
  this file uses is the SHA-256 thumbprint, the parameter \<open>thumb\<close> (\<open>None\<close> for an error).
  \<open>strings.EqualFold\<close>, which depends on the Unicode tables, is the parameter \<open>eqFold\<close>.

  The lemmas relate the replay loop to an abstract lifecycle automaton, a step relation
  over events, and derive from it what a snapshot says about keys and terminal states.
\<close>

section \<open>Events and states\<close>

abbreviation "LogEventIssuance \<equiv> ''ISSUANCE''"
abbreviation "LogEventKeyRotation \<equiv> ''KEY_ROTATION''"
abbreviation "LogEventRevocation \<equiv> ''REVOCATION''"
abbreviation "LogEventRetirement \<equiv> ''RETIREMENT''"
abbreviation "LogEventMigration \<equiv> ''MIGRATION''"
abbreviation "LogEventDelegation \<equiv> ''DELEGATION''"

definition ValidRevocationReason :: "string \<Rightarrow> bool" where
  "ValidRevocationReason reason =
     (reason \<in> {''keyCompromise'', ''policyViolation'', ''superseded'', ''cessationOfOperation''})"

type_synonym AgentState = string

abbreviation "AgentStatePending \<equiv> ''PENDING''"
abbreviation "AgentStateProvisioning \<equiv> ''PROVISIONING''"
abbreviation "AgentStateVerifying \<equiv> ''VERIFYING''"
abbreviation "AgentStateActive \<equiv> ''ACTIVE''"
abbreviation "AgentStateRetired \<equiv> ''RETIRED''"
abbreviation "AgentStateRevoked \<equiv> ''REVOKED''"

definition allAgentStates :: "AgentState list" where
  "allAgentStates = [AgentStatePending, AgentStateProvisioning, AgentStateVerifying,
     AgentStateActive, AgentStateRetired, AgentStateRevoked]"

definition IsValid :: "AgentState \<Rightarrow> bool" where
  "IsValid s = (s \<in> {AgentStatePending, AgentStateProvisioning, AgentStateVerifying,
     AgentStateActive, AgentStateRetired, AgentStateRevoked})"

definition ParseAgentState :: "string \<Rightarrow> sdk_error + AgentState" where
  "ParseAgentState s =
     (if \<not> IsValid s then Inl (PlainError ''unknown agent state'' None) else Inr s)"

record 'k LogEvent =
  evType :: string
  evInitialEntityKid :: string
  evInitialEntityPublicKey :: "'k option"
  evInitialEntityThumbprint :: string
  evInitialEntitySignature :: string
  evInitialOperationalKid :: string
  evInitialOperationalPublicKey :: "'k option"
  evInitialOperationalThumbprint :: string
  evInitialOperationalSignature :: string
  evPreviousOperationalKid :: string
  evPreviousOperationalThumbprint :: string
  evPreviousOperationalSignature :: string
  evNewOperationalKid :: string
  evNewOperationalPublicKey :: "'k option"
  evNewOperationalThumbprint :: string
  evNewOperationalSignature :: string
  evDomain :: string
  evTimestamp :: gotime
  evGovernanceID :: string
  evReason :: string
  evPreviousLog :: string
  evNewLog :: string
  evFinalEntryRef :: string
  evDelegatee :: string
  evScope :: string
  evExpiry :: gotime

text \<open>The zero value of \<open>LogEvent\<close>, from which composite literals start.\<close>

definition zeroLogEvent :: "'k LogEvent" where
  "zeroLogEvent = \<lparr>evType = '''', evInitialEntityKid = '''', evInitialEntityPublicKey = None,
     evInitialEntityThumbprint = '''', evInitialEntitySignature = '''', evInitialOperationalKid = '''',
     evInitialOperationalPublicKey = None, evInitialOperationalThumbprint = '''',
     evInitialOperationalSignature = '''', evPreviousOperationalKid = '''',
     evPreviousOperationalThumbprint = '''', evPreviousOperationalSignature = '''',
     evNewOperationalKid = '''', evNewOperationalPublicKey = None, evNewOperationalThumbprint = '''',
     evNewOperationalSignature = '''', evDomain = '''', evTimestamp = 0, evGovernanceID = '''',
     evReason = '''', evPreviousLog = '''', evNewLog = '''', evFinalEntryRef = '''', evDelegatee = '''',
     evScope = '''', evExpiry = 0\<rparr>"

section \<open>Readers\<close>

record 'k BilateralBindingInput =
  biDomain :: string
  biGovernanceID :: string
  biEntityKey :: "'k option"
  biOperationalKey :: "'k option"

record BilateralBinding =
  bbInitialOperationalThumbprint :: string
  bbInitialEntityThumbprint :: string
  bbTimestamp :: gotime

datatype LoggedStateEvidence = LoggedStateEvidence
  (lsLogReference: string)
  (lsLoggedState: AgentState)
  (lsHistoryStart: string)
  (lsHistoryEnd: string)
  (lsCompleteThrough: string)
  (lsCompletenessMode: string)
  (lsCheckpoint: bytes)
  (lsFreshnessTime: gotime)
  (lsPriorEvidence: "LoggedStateEvidence list")

text \<open>
  The interface \<open>LogReader\<close>: one field per method. A reader that also implements
  \<open>LifecycleBindingVerifier\<close> has \<open>Some\<close> in the last field.
\<close>

record 'k LogReader =
  lrCanonical :: "'k LogEvent \<Rightarrow> sdk_error + bytes"
  lrKeyTimestamp :: "string \<Rightarrow> string \<Rightarrow> sdk_error + gotime"
  lrVerifyBilateralBinding :: "'k BilateralBindingInput \<Rightarrow> sdk_error + BilateralBinding"
  lrVerifyOperationalContinuity :: "string \<Rightarrow> string \<Rightarrow> string \<Rightarrow> sdk_error + unit"
  lrVerifyNonRevocation :: "string \<Rightarrow> gotime \<Rightarrow> sdk_error + LoggedStateEvidence"
  lrReadEvent :: "string \<Rightarrow> sdk_error + 'k LogEvent"
  lrRebuildHistory :: "string \<Rightarrow> sdk_error + 'k LogEvent list"
  lrVerifyLifecycleBinding ::
    "('k BilateralBindingInput \<Rightarrow> string \<Rightarrow> sdk_error + BilateralBinding) option"

definition noopErr :: "string \<Rightarrow> sdk_error" where
  "noopErr method = LifecycleError ''log_error'' None"

definition NoopLogReader :: "string \<Rightarrow> 'k LogReader" where
  "NoopLogReader method = \<lparr>
     lrCanonical = (\<lambda>_. Inl (noopErr method)),
     lrKeyTimestamp = (\<lambda>_ _. Inl (noopErr method)),
     lrVerifyBilateralBinding = (\<lambda>_. Inl (noopErr method)),
     lrVerifyOperationalContinuity = (\<lambda>_ _ _. Inl (noopErr method)),
     lrVerifyNonRevocation = (\<lambda>_ _. Inl (noopErr method)),
     lrReadEvent = (\<lambda>_. Inl (noopErr method)),
     lrRebuildHistory = (\<lambda>_. Inl (noopErr method)),
     lrVerifyLifecycleBinding = None\<rparr>"

text \<open>The expression \<open>^[a-z][a-z0-9-]*$\<close>.\<close>

definition logMethodRE :: "string \<Rightarrow> bool" where
  "logMethodRE s =
     (case s of
        [] \<Rightarrow> False
      | c # cs \<Rightarrow> (CHR ''a'' \<le> c \<and> c \<le> CHR ''z'') \<and>
          list_all (\<lambda>d. (CHR ''a'' \<le> d \<and> d \<le> CHR ''z'') \<or> isASCIIDigit d \<or> d = CHR ''-'') cs)"

definition ParseLogRef :: "string \<Rightarrow> sdk_error + string \<times> string" where
  "ParseLogRef lr =
     (case IndexByte lr (CHR '':'') of
        None \<Rightarrow> Inl (ParseError ''dnsid: malformed log reference'' None)
      | Some idx \<Rightarrow>
          if idx = 0 then Inl (ParseError ''dnsid: malformed log reference'' None)
          else if \<not> logMethodRE (take idx lr) then Inl (ParseError ''dnsid: invalid log method'' None)
          else Inr (take idx lr, drop (Suc idx) lr))"

text \<open>
  A factory returns a reader or \<open>nil\<close>. The registry is read and written under its mutex, so
  each call is one step on the map of factories.
\<close>

type_synonym 'k LogRegistry = "(string \<Rightarrow> 'k LogReader option) gomap"

definition NewLogRegistry :: "'k LogRegistry" where
  "NewLogRegistry = []"

definition Register ::
  "'k LogRegistry \<Rightarrow> string \<Rightarrow> (string \<Rightarrow> 'k LogReader option) option \<Rightarrow> sdk_error + 'k LogRegistry" where
  "Register r method factory =
     (if \<not> logMethodRE method then Inl (ArgumentError ''dnsid: invalid log method'' None)
      else (case factory of
              None \<Rightarrow> Inl (ArgumentError ''dnsid: nil log reader factory'' None)
            | Some f \<Rightarrow> Inr (AList.update method f r)))"

definition NewReader :: "'k LogRegistry option \<Rightarrow> string \<Rightarrow> sdk_error + 'k LogReader" where
  "NewReader r lr =
     rbind (ParseLogRef lr) (\<lambda>(method, _).
       case r of
         None \<Rightarrow> Inr (NoopLogReader method)
       | Some factories \<Rightarrow>
           (case map_of factories method of
              None \<Rightarrow> Inr (NoopLogReader method)
            | Some factory \<Rightarrow>
                (case factory lr of
                   None \<Rightarrow> Inr (NoopLogReader method)
                 | Some reader \<Rightarrow> Inr reader)))"

section \<open>Replay\<close>

record 'k DomainLog =
  dlDomain :: string
  dlEvents :: "'k LogEvent list"

record 'k DomainSnapshot =
  ssDomain :: string
  ssHistoricalState :: AgentState
  ssActiveKey :: "'k option"
  ssActiveKeyThumbprint :: string
  ssKeyBoundAt :: gotime
  ssGovernanceID :: string
  ssSnapshotAt :: gotime
  ssEvents :: "'k LogEvent list"

definition NewDomainLog :: "string \<Rightarrow> 'k LogEvent list \<Rightarrow> 'k DomainLog" where
  "NewDomainLog domain events = \<lparr>dlDomain = domain, dlEvents = events\<rparr>"

definition keyThumbprint :: "('k \<Rightarrow> bytes option) \<Rightarrow> 'k option \<Rightarrow> string option" where
  "keyThumbprint thumb key =
     (case key of None \<Rightarrow> None | Some k \<Rightarrow> map_option RawURLEncode (thumb k))"

definition lifecycleError :: "string \<Rightarrow> nat option \<Rightarrow> sdk_error" where
  "lifecycleError category eventIndex = LifecycleError category eventIndex"

text \<open>The \<open>switch event.Type\<close> of \<open>SnapshotAt\<close>, on the snapshot whose events already end in \<open>event\<close>.\<close>

definition snapshotEvent ::
  "('k \<Rightarrow> bytes option) \<Rightarrow> nat \<Rightarrow> 'k LogEvent \<Rightarrow> 'k DomainSnapshot \<Rightarrow> sdk_error + 'k DomainSnapshot" where
  "snapshotEvent thumb index event s =
     (if evType event = LogEventIssuance then
        (if ssHistoricalState s \<noteq> '''' then Inl (lifecycleError ''DUPLICATE_ISSUANCE'' (Some index))
         else
           (case keyThumbprint thumb (evInitialOperationalPublicKey event) of
              None \<Rightarrow> Inl (lifecycleError ''INVALID_ISSUANCE'' (Some index))
            | Some operationalThumb \<Rightarrow>
                if evInitialEntityPublicKey event = None \<or> evInitialOperationalThumbprint event = ''''
                   \<or> operationalThumb \<noteq> evInitialOperationalThumbprint event
                then Inl (lifecycleError ''INVALID_ISSUANCE'' (Some index))
                else
                  (case keyThumbprint thumb (evInitialEntityPublicKey event) of
                     None \<Rightarrow> Inl (lifecycleError ''INVALID_ISSUANCE'' (Some index))
                   | Some entityThumb \<Rightarrow>
                       if evInitialEntityThumbprint event = ''''
                          \<or> entityThumb \<noteq> evInitialEntityThumbprint event
                          \<or> entityThumb = operationalThumb
                       then Inl (lifecycleError ''INVALID_ISSUANCE'' (Some index))
                       else Inr (s\<lparr>ssHistoricalState := AgentStateActive,
                                   ssActiveKey := evInitialOperationalPublicKey event,
                                   ssActiveKeyThumbprint := evInitialOperationalThumbprint event,
                                   ssKeyBoundAt := evTimestamp event,
                                   ssGovernanceID := evGovernanceID event\<rparr>))))
      else if evType event = LogEventKeyRotation then
        (if ssHistoricalState s \<noteq> AgentStateActive
            \<or> evPreviousOperationalThumbprint event \<noteq> ssActiveKeyThumbprint s
         then Inl (lifecycleError ''KEY_CONTINUITY'' (Some index))
         else
           (case keyThumbprint thumb (evNewOperationalPublicKey event) of
              None \<Rightarrow> Inl (lifecycleError ''KEY_CONTINUITY'' (Some index))
            | Some newThumb \<Rightarrow>
                if evNewOperationalThumbprint event = '''' \<or> newThumb \<noteq> evNewOperationalThumbprint event
                   \<or> newThumb = ssActiveKeyThumbprint s
                then Inl (lifecycleError ''KEY_CONTINUITY'' (Some index))
                else Inr (s\<lparr>ssActiveKey := evNewOperationalPublicKey event,
                            ssActiveKeyThumbprint := evNewOperationalThumbprint event,
                            ssKeyBoundAt := evTimestamp event\<rparr>)))
      else if evType event = LogEventRevocation then
        (if \<not> ValidRevocationReason (evReason event)
         then Inl (lifecycleError ''INVALID_REVOCATION_REASON'' (Some index))
         else Inr (s\<lparr>ssHistoricalState := AgentStateRevoked\<rparr>))
      else if evType event = LogEventRetirement then
        Inr (s\<lparr>ssHistoricalState := AgentStateRetired\<rparr>)
      else if evType event = LogEventMigration then
        (if evPreviousLog event = '''' \<or> evNewLog event = '''' \<or> evFinalEntryRef event = ''''
            \<or> evPreviousLog event = evNewLog event
         then Inl (lifecycleError ''INVALID_MIGRATION'' (Some index))
         else Inr s)
      else if evType event = LogEventDelegation then Inr s
      else Inl (lifecycleError ''UNSUPPORTED_EVENT'' (Some index)))"

text \<open>The loop over the events; \<open>past\<close> is \<open>pastSnapshotBoundary\<close>.\<close>

fun snapshotLoop ::
  "(string \<Rightarrow> string \<Rightarrow> bool) \<Rightarrow> ('k \<Rightarrow> bytes option) \<Rightarrow> string \<Rightarrow> gotime \<Rightarrow> nat \<Rightarrow> bool
    \<Rightarrow> 'k LogEvent list \<Rightarrow> 'k DomainSnapshot \<Rightarrow> sdk_error + 'k DomainSnapshot" where
  "snapshotLoop eqFold thumb domain at index past [] s = Inr s"
| "snapshotLoop eqFold thumb domain at index past (event # events) s =
     (if \<not> eqFold (evDomain event) domain then Inl (lifecycleError ''DOMAIN_MISMATCH'' (Some index))
      else if evTimestamp event > at then
        snapshotLoop eqFold thumb domain at (Suc index) True events s
      else if past then Inl (lifecycleError ''SNAPSHOT_NON_PREFIX'' (Some index))
      else if ssHistoricalState s = '''' \<and> evType event \<noteq> LogEventIssuance
        then Inl (lifecycleError ''GENESIS_REQUIRED'' (Some index))
      else if ssHistoricalState s = AgentStateRevoked \<or> ssHistoricalState s = AgentStateRetired
        then Inl (lifecycleError ''TERMINAL_STATE'' (Some index))
      else
        rbind (snapshotEvent thumb index event (s\<lparr>ssEvents := ssEvents s @ [event]\<rparr>)) (\<lambda>s'.
          snapshotLoop eqFold thumb domain at (Suc index) past events s'))"

definition SnapshotAt ::
  "(string \<Rightarrow> string \<Rightarrow> bool) \<Rightarrow> ('k \<Rightarrow> bytes option) \<Rightarrow> 'k DomainLog option \<Rightarrow> gotime
    \<Rightarrow> sdk_error + 'k DomainSnapshot" where
  "SnapshotAt eqFold thumb l at =
     (case l of
        None \<Rightarrow> Inl (lifecycleError ''SNAPSHOT_EMPTY'' None)
      | Some dl \<Rightarrow>
          if dlEvents dl = [] then Inl (lifecycleError ''SNAPSHOT_EMPTY'' None)
          else
            rbind
              (snapshotLoop eqFold thumb (dlDomain dl) at 0 False (dlEvents dl)
                 \<lparr>ssDomain = dlDomain dl, ssHistoricalState = '''', ssActiveKey = None,
                  ssActiveKeyThumbprint = '''', ssKeyBoundAt = 0, ssGovernanceID = '''',
                  ssSnapshotAt = at, ssEvents = []\<rparr>)
              (\<lambda>s. if ssHistoricalState s = '''' \<or> ssActiveKey s = None
                   then Inl (lifecycleError ''SNAPSHOT_EMPTY'' None)
                   else Inr s))"

section \<open>The lifecycle automaton\<close>

text \<open>
  The abstract protocol: no identity yet, an identity with its operational key (key, its
  thumbprint, the time it was bound, the governance id), and the two terminal states.
\<close>

datatype 'k lifecycle =
    NoIdentity
  | Live 'k string gotime string
  | Revoked 'k string gotime string
  | Retired 'k string gotime string

fun terminal :: "'k lifecycle \<Rightarrow> bool" where
  "terminal (Revoked _ _ _ _) = True"
| "terminal (Retired _ _ _ _) = True"
| "terminal _ = False"

inductive lc_step :: "('k \<Rightarrow> bytes option) \<Rightarrow> 'k lifecycle \<Rightarrow> 'k LogEvent \<Rightarrow> 'k lifecycle \<Rightarrow> bool"
  for thumb where
  issue: "\<lbrakk>evType e = LogEventIssuance; evInitialOperationalPublicKey e = Some k;
      keyThumbprint thumb (Some k) = Some t; evInitialOperationalThumbprint e = t;
      keyThumbprint thumb (evInitialEntityPublicKey e) = Some t'; evInitialEntityThumbprint e = t';
      t \<noteq> ''''; t' \<noteq> ''''; t \<noteq> t'\<rbrakk>
    \<Longrightarrow> lc_step thumb NoIdentity e (Live k t (evTimestamp e) (evGovernanceID e))"
| rotate: "\<lbrakk>evType e = LogEventKeyRotation; evPreviousOperationalThumbprint e = t;
      evNewOperationalPublicKey e = Some k'; keyThumbprint thumb (Some k') = Some t';
      evNewOperationalThumbprint e = t'; t' \<noteq> ''''; t' \<noteq> t\<rbrakk>
    \<Longrightarrow> lc_step thumb (Live k t at g) e (Live k' t' (evTimestamp e) g)"
| revoke: "\<lbrakk>evType e = LogEventRevocation; ValidRevocationReason (evReason e)\<rbrakk>
    \<Longrightarrow> lc_step thumb (Live k t at g) e (Revoked k t at g)"
| retire: "evType e = LogEventRetirement \<Longrightarrow> lc_step thumb (Live k t at g) e (Retired k t at g)"
| migrate: "\<lbrakk>evType e = LogEventMigration; evPreviousLog e \<noteq> ''''; evNewLog e \<noteq> '''';
      evFinalEntryRef e \<noteq> ''''; evPreviousLog e \<noteq> evNewLog e\<rbrakk>
    \<Longrightarrow> lc_step thumb (Live k t at g) e (Live k t at g)"
| delegate: "evType e = LogEventDelegation \<Longrightarrow> lc_step thumb (Live k t at g) e (Live k t at g)"

inductive lc_run :: "('k \<Rightarrow> bytes option) \<Rightarrow> 'k lifecycle \<Rightarrow> 'k LogEvent list \<Rightarrow> 'k lifecycle \<Rightarrow> bool"
  for thumb where
  lc_done: "lc_run thumb s [] s"
| lc_more: "lc_step thumb s e s' \<Longrightarrow> lc_run thumb s' es s'' \<Longrightarrow> lc_run thumb s (e # es) s''"

text \<open>The snapshot that stands for a state of the automaton after the events \<open>evs\<close>.\<close>

fun conc :: "string \<Rightarrow> gotime \<Rightarrow> 'k LogEvent list \<Rightarrow> 'k lifecycle \<Rightarrow> 'k DomainSnapshot" where
  "conc d at evs NoIdentity =
     \<lparr>ssDomain = d, ssHistoricalState = '''', ssActiveKey = None, ssActiveKeyThumbprint = '''',
      ssKeyBoundAt = 0, ssGovernanceID = '''', ssSnapshotAt = at, ssEvents = evs\<rparr>"
| "conc d at evs (Live k t b g) =
     \<lparr>ssDomain = d, ssHistoricalState = AgentStateActive, ssActiveKey = Some k,
      ssActiveKeyThumbprint = t, ssKeyBoundAt = b, ssGovernanceID = g, ssSnapshotAt = at, ssEvents = evs\<rparr>"
| "conc d at evs (Revoked k t b g) =
     \<lparr>ssDomain = d, ssHistoricalState = AgentStateRevoked, ssActiveKey = Some k,
      ssActiveKeyThumbprint = t, ssKeyBoundAt = b, ssGovernanceID = g, ssSnapshotAt = at, ssEvents = evs\<rparr>"
| "conc d at evs (Retired k t b g) =
     \<lparr>ssDomain = d, ssHistoricalState = AgentStateRetired, ssActiveKey = Some k,
      ssActiveKeyThumbprint = t, ssKeyBoundAt = b, ssGovernanceID = g, ssSnapshotAt = at, ssEvents = evs\<rparr>"

definition binds_key :: "'k LogEvent \<Rightarrow> bool" where
  "binds_key e = (evType e = LogEventIssuance \<or> evType e = LogEventKeyRotation)"

definition bound_thumb :: "'k LogEvent \<Rightarrow> string" where
  "bound_thumb e = (if evType e = LogEventIssuance then evInitialOperationalThumbprint e
     else evNewOperationalThumbprint e)"

definition key_chain :: "'k LogEvent list \<Rightarrow> bool" where
  "key_chain bs \<longleftrightarrow> bs \<noteq> [] \<and> evType (hd bs) = LogEventIssuance \<and>
     (\<forall>i. Suc i < length bs \<longrightarrow> evType (bs ! Suc i) = LogEventKeyRotation \<and>
        evPreviousOperationalThumbprint (bs ! Suc i) = bound_thumb (bs ! i) \<and>
        bound_thumb (bs ! Suc i) \<noteq> bound_thumb (bs ! i))"

fun lc_key :: "'k lifecycle \<Rightarrow> ('k \<times> string \<times> gotime) option" where
  "lc_key NoIdentity = None"
| "lc_key (Live k t b g) = Some (k, t, b)"
| "lc_key (Revoked k t b g) = Some (k, t, b)"
| "lc_key (Retired k t b g) = Some (k, t, b)"

definition sample_thumb :: "string \<Rightarrow> bytes option" where
  "sample_thumb k = (if k = '''' then None else Some k)"

definition sample_log :: "string DomainLog" where
  "sample_log = NewDomainLog ''a.b''
     [zeroLogEvent\<lparr>evType := LogEventIssuance, evDomain := ''A.b'', evTimestamp := 1, evGovernanceID := ''g'',
        evInitialEntityPublicKey := Some ''ent'', evInitialEntityThumbprint := ''ZW50'',
        evInitialOperationalPublicKey := Some ''op1'', evInitialOperationalThumbprint := ''b3Ax''\<rparr>,
      zeroLogEvent\<lparr>evType := LogEventKeyRotation, evDomain := ''a.b'', evTimestamp := 5,
        evPreviousOperationalThumbprint := ''b3Ax'',
        evNewOperationalPublicKey := Some ''op2'', evNewOperationalThumbprint := ''b3Ay''\<rparr>,
      zeroLogEvent\<lparr>evType := LogEventRevocation, evDomain := ''a.b'', evTimestamp := 9, evReason := ''superseded''\<rparr>]"

definition ascii_fold :: "string \<Rightarrow> string \<Rightarrow> bool" where
  "ascii_fold a b = (ascii_lower a = ascii_lower b)"

section \<open>Lemmas\<close>

inductive_simps lc_run_Nil: "lc_run thumb s [] s'"
inductive_simps lc_run_Cons: "lc_run thumb s (e # es) s'"
inductive_cases lc_stepE: "lc_step thumb s e s'"
inductive_simps lc_step_NoIdentity: "lc_step thumb NoIdentity e s'"
inductive_simps lc_step_Live: "lc_step thumb (Live k t at g) e s'"
inductive_simps lc_step_Revoked: "lc_step thumb (Revoked k t at g) e s'"
inductive_simps lc_step_Retired: "lc_step thumb (Retired k t at g) e s'"

lemmas lc_step_simps = lc_step_NoIdentity lc_step_Live lc_step_Revoked lc_step_Retired
lemmas lc_run_simps = lc_run_Nil lc_run_Cons

lemma keyThumbprint_None [simp]: "keyThumbprint thumb None = None"
  by (simp add: keyThumbprint_def)

lemma conc_fields [simp]:
  "ssEvents (conc d at evs st) = evs"
  "ssDomain (conc d at evs st) = d"
  "ssSnapshotAt (conc d at evs st) = at"
  "(conc d at evs st)\<lparr>ssEvents := evs'\<rparr> = conc d at evs' st"
  "ssHistoricalState (conc d at evs st) = '''' \<longleftrightarrow> st = NoIdentity"
  "ssActiveKey (conc d at evs st) = None \<longleftrightarrow> st = NoIdentity"
  "(\<exists>y. ssActiveKey (conc d at evs st) = Some y) \<longleftrightarrow> st \<noteq> NoIdentity"
  "ssHistoricalState (conc d at evs st) = AgentStateRevoked \<or> ssHistoricalState (conc d at evs st) = AgentStateRetired
     \<longleftrightarrow> terminal st"
  by (cases st; simp)+

lemma snapshotEvent_NoIdentity:
  "evType e = LogEventIssuance \<Longrightarrow>
   snapshotEvent thumb i e (conc d at evs NoIdentity) = Inr s' \<longleftrightarrow>
     (\<exists>st'. lc_step thumb NoIdentity e st' \<and> s' = conc d at evs st')"
  by (cases "evInitialOperationalPublicKey e")
    (auto simp: snapshotEvent_def lc_step_simps split: option.splits)

lemma snapshotEvent_Live:
  "snapshotEvent thumb i e (conc d at evs (Live k t b g)) = Inr s' \<longleftrightarrow>
     (\<exists>st'. lc_step thumb (Live k t b g) e st' \<and> s' = conc d at evs st')"
  by (cases "evNewOperationalPublicKey e")
    (auto simp: snapshotEvent_def lc_step_simps split: option.splits)

lemma lc_step_terminal: "terminal st \<Longrightarrow> \<not> lc_step thumb st e st'"
  by (cases st) (auto simp: lc_step_simps)

lemma lc_step_genesis: "lc_step thumb NoIdentity e st' \<Longrightarrow> evType e = LogEventIssuance"
  by (auto simp: lc_step_simps)

text \<open>One iteration of the loop on an event inside the boundary is one step of the automaton.\<close>

lemma snapshotLoop_step:
  assumes "eqFold (evDomain e) d" and "evTimestamp e \<le> at"
  shows "snapshotLoop eqFold thumb d at i False (e # es) (conc d at evs st) = Inr s' \<longleftrightarrow>
     (\<exists>st'. lc_step thumb st e st' \<and>
        snapshotLoop eqFold thumb d at (Suc i) False es (conc d at (evs @ [e]) st') = Inr s')"
proof (cases "terminal st")
  case True
  then show ?thesis using assms by (auto simp: lc_step_terminal)
next
  case False
  then consider "st = NoIdentity" | k t b g where "st = Live k t b g" by (cases st) auto
  then show ?thesis
  proof cases
    case 1
    show ?thesis
    proof (cases "evType e = LogEventIssuance")
      case True
      with 1 assms show ?thesis
        by (auto simp: ok_iffs snapshotEvent_NoIdentity [OF True] simp del: conc.simps)
    next
      case False
      with 1 assms show ?thesis by (auto simp: lc_step_simps simp del: conc.simps)
    qed
  next
    case 2
    have "snapshotLoop eqFold thumb d at i False (e # es) (conc d at evs st) =
      rbind (snapshotEvent thumb i e (conc d at (evs @ [e]) st))
        (\<lambda>s'. snapshotLoop eqFold thumb d at (Suc i) False es s')"
      using assms False 2 by (simp del: conc.simps)
    then show ?thesis by (auto simp: ok_iffs snapshotEvent_Live 2 simp del: conc.simps)
  qed
qed

lemma snapshotLoop_past:
  "snapshotLoop eqFold thumb d at i True es s = Inr s' \<longleftrightarrow>
     s' = s \<and> (\<forall>e \<in> set es. eqFold (evDomain e) d \<and> evTimestamp e > at)"
  by (induction es arbitrary: i) auto

lemma snapshotLoop_iff:
  "snapshotLoop eqFold thumb d at i False es (conc d at evs st) = Inr s' \<longleftrightarrow>
     (\<forall>e \<in> set es. eqFold (evDomain e) d) \<and>
     (\<forall>e \<in> set (dropWhile (\<lambda>e. evTimestamp e \<le> at) es). evTimestamp e > at) \<and>
     (\<exists>st'. lc_run thumb st (takeWhile (\<lambda>e. evTimestamp e \<le> at) es) st' \<and>
        s' = conc d at (evs @ takeWhile (\<lambda>e. evTimestamp e \<le> at) es) st')"
proof (induction es arbitrary: i evs st)
  case Nil
  then show ?case by (auto simp: lc_run_simps)
next
  case (Cons e es)
  show ?case
  proof (cases "evTimestamp e > at")
    case True
    then show ?thesis by (auto simp: snapshotLoop_past lc_run_simps)
  next
    case False
    show ?thesis
    proof (cases "eqFold (evDomain e) d")
      case True
      with False snapshotLoop_step [of eqFold e d at thumb i es evs st s'] show ?thesis
        by (auto simp: Cons.IH lc_run_simps simp del: snapshotLoop.simps conc.simps)
    qed simp
  qed
qed

lemma conc_init:
  "\<lparr>ssDomain = d, ssHistoricalState = '''', ssActiveKey = None, ssActiveKeyThumbprint = '''',
    ssKeyBoundAt = 0, ssGovernanceID = '''', ssSnapshotAt = at, ssEvents = []\<rparr> = conc d at [] NoIdentity"
  by simp

lemma snapshot_lc_iff:
  "SnapshotAt eqFold thumb (Some l) at = Inr s \<longleftrightarrow>
     (\<forall>e \<in> set (dlEvents l). eqFold (evDomain e) (dlDomain l)) \<and>
     (\<forall>e \<in> set (dropWhile (\<lambda>e. evTimestamp e \<le> at) (dlEvents l)). evTimestamp e > at) \<and>
     (\<exists>st. lc_run thumb NoIdentity (takeWhile (\<lambda>e. evTimestamp e \<le> at) (dlEvents l)) st \<and>
        st \<noteq> NoIdentity \<and> s = conc (dlDomain l) at (takeWhile (\<lambda>e. evTimestamp e \<le> at) (dlEvents l)) st)"
  (is "_ \<longleftrightarrow> ?r")
proof (cases "dlEvents l = []")
  case True
  then show ?thesis by (auto simp: SnapshotAt_def lc_run_simps)
next
  case False
  let ?ini = "conc (dlDomain l) at [] NoIdentity"
  have "SnapshotAt eqFold thumb (Some l) at = Inr s \<longleftrightarrow>
     snapshotLoop eqFold thumb (dlDomain l) at 0 False (dlEvents l) ?ini = Inr s \<and>
     ssHistoricalState s \<noteq> '''' \<and> ssActiveKey s \<noteq> None"
    using False by (auto simp: SnapshotAt_def conc_init ok_iffs simp del: conc.simps split: if_splits)
  also have "\<dots> \<longleftrightarrow> ?r"
    unfolding snapshotLoop_iff append_Nil by (auto simp del: conc.simps not_None_eq)
  finally show ?thesis .
qed

lemma lc_run_snoc: "lc_run thumb s (es @ [e]) s'' \<longleftrightarrow> (\<exists>s'. lc_run thumb s es s' \<and> lc_step thumb s' e s'')"
  by (induction es arbitrary: s) (auto simp: lc_run_simps)

lemma lc_run_append: "lc_run thumb s (es @ fs) s'' \<longleftrightarrow> (\<exists>s'. lc_run thumb s es s' \<and> lc_run thumb s' fs s'')"
  by (induction es arbitrary: s) (auto simp: lc_run_simps)

lemma lc_step_det: "lc_step thumb s e s1 \<Longrightarrow> lc_step thumb s e s2 \<Longrightarrow> s1 = s2"
  by (cases s) (auto simp: lc_step_simps)

lemma lc_run_det: "lc_run thumb s es s1 \<Longrightarrow> lc_run thumb s es s2 \<Longrightarrow> s1 = s2"
  by (induction es arbitrary: s) (auto simp: lc_run_simps dest: lc_step_det)

lemma lc_run_terminal: "lc_run thumb s es s' \<Longrightarrow> terminal s \<Longrightarrow> es = [] \<and> s' = s"
  by (cases es) (auto simp: lc_run_simps lc_step_terminal)

lemma takeWhile_mono_prefix:
  "(\<And>x. P x \<Longrightarrow> Q x) \<Longrightarrow> \<exists>ys. takeWhile Q xs = takeWhile P xs @ ys"
  by (induction xs) auto

lemma key_chain_snoc:
  assumes "key_chain bs" and "evType e = LogEventKeyRotation"
    and "evPreviousOperationalThumbprint e = bound_thumb (last bs)" and "bound_thumb e \<noteq> bound_thumb (last bs)"
  shows "key_chain (bs @ [e])"
proof -
  have last: "bs ! i = last bs" if "Suc i = length bs" for i
    using that assms(1) by (metis Suc_diff_1 diff_Suc_1 key_chain_def last_conv_nth)
  show ?thesis
    using assms last by (auto simp: key_chain_def nth_append less_Suc_eq)
qed

lemma lc_step_key:
  assumes "lc_step thumb s e s'" and "\<not> binds_key e"
  shows "lc_key s' = lc_key s" and "lc_key s \<noteq> None"
  using assms by (auto simp: binds_key_def elim!: lc_stepE)

lemma lc_run_key_chain:
  assumes "lc_run thumb NoIdentity es s" and "lc_key s = Some (k, t, b)"
  shows "key_chain (filter binds_key es) \<and> t = bound_thumb (last (filter binds_key es)) \<and>
    b = evTimestamp (last (filter binds_key es)) \<and> keyThumbprint thumb (Some k) = Some t"
  using assms
proof (induction es arbitrary: s k t b rule: rev_induct)
  case Nil
  then show ?case by (auto simp: lc_run_simps)
next
  case (snoc e es)
  from snoc.prems(1) obtain s0 where r: "lc_run thumb NoIdentity es s0" and st: "lc_step thumb s0 e s"
    by (auto simp: lc_run_snoc)
  show ?case
  proof (cases "binds_key e")
    case False
    with lc_step_key [OF st] snoc.prems(2) have "lc_key s0 = Some (k, t, b)" by simp
    from snoc.IH [OF r this] False show ?thesis by simp
  next
    case True
    with st show ?thesis
    proof (cases rule: lc_step.cases)
      case (issue k' t' t'')
      then have "es = []"
        using r by (cases es rule: rev_cases) (auto simp: lc_run_snoc elim!: lc_stepE)
      with issue True snoc.prems(2) show ?thesis by (auto simp: key_chain_def bound_thumb_def)
    next
      case (rotate t0 k' t' k0 at g)
      with snoc.IH [OF r, of k0 t0 at] have "key_chain (filter binds_key es)"
        "t0 = bound_thumb (last (filter binds_key es))" by simp_all
      with rotate True snoc.prems(2) show ?thesis
        using key_chain_snoc [of "filter binds_key es" e] by (auto simp: bound_thumb_def)
    qed (auto simp: binds_key_def)
  qed
qed

lemma conc_key: "st \<noteq> NoIdentity \<Longrightarrow>
  lc_key st = Some (the (ssActiveKey (conc d at evs st)), ssActiveKeyThumbprint (conc d at evs st),
    ssKeyBoundAt (conc d at evs st)) \<and> ssActiveKey (conc d at evs st) \<noteq> None"
  by (cases st) auto

text \<open>
  C15. Key continuity. In an accepted snapshot the events that bind a key are one ISSUANCE
  followed by rotations, each naming the thumbprint bound just before it and binding a
  different one; the active key is the key of the last of them, its thumbprint is the one
  the event declares, and it was bound at that event's time, not after the snapshot time.
\<close>

theorem snapshot_key_chain:
  assumes "SnapshotAt eqFold thumb (Some l) at = Inr s"
  shows "key_chain (filter binds_key (ssEvents s))
    \<and> ssActiveKeyThumbprint s = bound_thumb (last (filter binds_key (ssEvents s)))
    \<and> ssKeyBoundAt s = evTimestamp (last (filter binds_key (ssEvents s)))
    \<and> keyThumbprint thumb (ssActiveKey s) = Some (ssActiveKeyThumbprint s)
    \<and> ssKeyBoundAt s \<le> at"
proof -
  let ?pre = "takeWhile (\<lambda>e. evTimestamp e \<le> at) (dlEvents l)"
  from assms obtain st where r: "lc_run thumb NoIdentity ?pre st" "st \<noteq> NoIdentity"
    and s: "s = conc (dlDomain l) at ?pre st"
    by (auto simp: snapshot_lc_iff)
  from lc_run_key_chain [OF r(1)] conc_key [OF r(2), of "dlDomain l" at ?pre]
  have c: "key_chain (filter binds_key ?pre)"
    "ssActiveKeyThumbprint s = bound_thumb (last (filter binds_key ?pre))"
    "ssKeyBoundAt s = evTimestamp (last (filter binds_key ?pre))"
    "keyThumbprint thumb (ssActiveKey s) = Some (ssActiveKeyThumbprint s)"
    by (auto simp: s)
  then have "last (filter binds_key ?pre) \<in> set (filter binds_key ?pre)"
    by (intro last_in_set) (simp add: key_chain_def)
  then have "ssKeyBoundAt s \<le> at" by (auto simp: c(3) dest: set_takeWhileD)
  with c show ?thesis by (simp add: s)
qed



lemma sample_thumbs:
  "RawURLEncode ''ent'' = ''ZW50''" "RawURLEncode ''op1'' = ''b3Ax''" "RawURLEncode ''op2'' = ''b3Ay''"
  by (simp_all add: RawURLEncode_def b64_char_def char_of_def bit_0)

lemma sample_fold: "ascii_fold ''A.b'' ''a.b''" "ascii_fold ''a.b'' ''a.b''"
  by (simp_all add: ascii_fold_def ascii_lower_def ascii_lower_char_def less_eq_char_def char_of_def bit_0)

lemmas sample_log_simps = sample_thumbs sample_fold SnapshotAt_def sample_log_def NewDomainLog_def
  snapshotEvent_def keyThumbprint_def sample_thumb_def zeroLogEvent_def ValidRevocationReason_def

lemma sample_snapshot:
  "SnapshotAt ascii_fold sample_thumb (Some sample_log) 6
     = Inr (conc ''a.b'' 6 (take 2 (dlEvents sample_log)) (Live ''op2'' ''b3Ay'' 5 ''g''))"
  by (simp add: sample_log_simps)

lemma sample_snapshot_revoked:
  "SnapshotAt ascii_fold sample_thumb (Some sample_log) 9
     = Inr (conc ''a.b'' 9 (dlEvents sample_log) (Revoked ''op2'' ''b3Ay'' 5 ''g''))"
  by (simp add: sample_log_simps)

lemma sample_snapshot_later:
  "SnapshotAt ascii_fold sample_thumb (Some sample_log) 20
     = Inr (conc ''a.b'' 20 (dlEvents sample_log) (Revoked ''op2'' ''b3Ay'' 5 ''g''))"
  by (simp add: sample_log_simps)


theorem snapshot_key_chain_witness:
  "\<exists>s. SnapshotAt ascii_fold sample_thumb (Some sample_log) 6 = Inr s \<and>
     key_chain (filter binds_key (ssEvents s)) \<and> ssKeyBoundAt s \<le> 6"
  using sample_snapshot snapshot_key_chain [OF sample_snapshot] by blast


section \<open>Log references and the registry\<close>

lemma logMethodRE_chars: "logMethodRE m \<Longrightarrow> m \<noteq> [] \<and> CHR '':'' \<notin> set m"
  by (auto simp: logMethodRE_def list_all_iff isASCIIDigit_def less_eq_char_def split: list.splits)

lemma ParseLogRef_iff [ok_iffs]:
  "ParseLogRef lr = Inr (m, r) \<longleftrightarrow> lr = m @ CHR '':'' # r \<and> logMethodRE m"
proof
  assume "ParseLogRef lr = Inr (m, r)"
  then obtain i where "IndexByte lr (CHR '':'') = Some i" "m = take i lr" "r = drop (Suc i) lr" "logMethodRE m"
    by (auto simp: ParseLogRef_def split: option.splits if_splits)
  with IndexByte_Some [of lr "CHR '':''" i] show "lr = m @ CHR '':'' # r \<and> logMethodRE m" by simp
next
  assume *: "lr = m @ CHR '':'' # r \<and> logMethodRE m"
  with logMethodRE_chars have "m \<noteq> []" "CHR '':'' \<notin> set m" by auto
  with * show "ParseLogRef lr = Inr (m, r)"
    by (simp add: ParseLogRef_def IndexByte_append)
qed

text \<open>
  Dispatch of a log reference. After \<open>Register\<close> of a method, a reference of that method
  is read by the reader its factory makes for it (or by the failing reader when it makes
  none); every other method keeps the reader it had, and a reference is rejected exactly
  when it is not a legal method name, a colon and an entry reference.
\<close>

theorem registry_dispatch:
  assumes "Register reg m (Some f) = Inr reg'"
  shows "NewReader (Some reg') (m @ '':'' @ entry)
           = Inr (case f (m @ '':'' @ entry) of None \<Rightarrow> NoopLogReader m | Some reader \<Rightarrow> reader)
    \<and> (logMethodRE m' \<and> m' \<noteq> m \<longrightarrow>
         NewReader (Some reg') (m' @ '':'' @ entry) = NewReader (Some reg) (m' @ '':'' @ entry))
    \<and> (is_ok (NewReader (Some reg') lr) \<longleftrightarrow> (\<exists>n r. lr = n @ '':'' @ r \<and> logMethodRE n))"
proof (intro conjI impI)
  from assms have m: "logMethodRE m" and r: "reg' = AList.update m f reg"
    by (auto simp: Register_def split: if_splits)
  have p: "ParseLogRef (n @ '':'' @ entry) = Inr (n, entry)" if "logMethodRE n" for n
    using that by (simp add: ParseLogRef_iff)
  show "NewReader (Some reg') (m @ '':'' @ entry)
      = Inr (case f (m @ '':'' @ entry) of None \<Rightarrow> NoopLogReader m | Some reader \<Rightarrow> reader)"
    unfolding NewReader_def p [OF m] by (simp add: r update_conv' split: option.splits)
  show "NewReader (Some reg') (m' @ '':'' @ entry) = NewReader (Some reg) (m' @ '':'' @ entry)"
    if "logMethodRE m' \<and> m' \<noteq> m"
    using that unfolding NewReader_def p [OF conjunct1 [OF that]] by (simp add: r update_conv')
  show "is_ok (NewReader (Some reg') lr) \<longleftrightarrow> (\<exists>n r. lr = n @ '':'' @ r \<and> logMethodRE n)"
  proof -
    have "is_ok (NewReader (Some reg') lr) \<longleftrightarrow> is_ok (ParseLogRef lr)"
      by (cases "ParseLogRef lr") (auto simp: NewReader_def split: option.splits)
    then show ?thesis by (simp add: is_ok_iff ParseLogRef_iff)
  qed
qed

theorem registry_dispatch_witness:
  "NewReader (Some [(''c2sp-tlog'', \<lambda>lr. Some (NoopLogReader lr :: string LogReader))]) ''c2sp-tlog:x''
     = Inr (NoopLogReader ''c2sp-tlog:x'')"
proof -
  have "Register NewLogRegistry ''c2sp-tlog'' (Some (\<lambda>lr. Some (NoopLogReader lr :: string LogReader)))
      = Inr [(''c2sp-tlog'', \<lambda>lr. Some (NoopLogReader lr :: string LogReader))]"
    by (simp add: Register_def NewLogRegistry_def logMethodRE_def isASCIIDigit_def less_eq_char_def)
  from registry_dispatch [OF this, of "''x''" "''y''" "''z''"] show ?thesis by simp
qed

end
