(* ===== verification/Go_Strconv.thy ===== *)
theory Go_Strconv
  imports Go_Prelude
begin

text \<open>
  Decimal numbers as \<open>strconv.FormatUint(n, 10)\<close> prints them and \<open>strconv.ParseUint(s, 10, bits)\<close>
  reads them, and the interface \<open>codec\<close> of an encoding whose accepted texts are exactly the
  encodings of the valid values.
\<close>

section \<open>Definitions\<close>

fun FormatUint :: "nat \<Rightarrow> string" where
  "FormatUint n = (if n < 10 then [char_of (48 + n)] else FormatUint (n div 10) @ [char_of (48 + n mod 10)])"

declare FormatUint.simps [simp del]

definition decimalDigits :: "string \<Rightarrow> bool" where
  "decimalDigits s = (s \<noteq> [] \<and> list_all isASCIIDigit s)"

fun digitsValue :: "nat \<Rightarrow> string \<Rightarrow> nat" where
  "digitsValue acc [] = acc"
| "digitsValue acc (c # cs) = digitsValue (acc * 10 + (of_char c - 48)) cs"

definition ParseUint :: "string \<Rightarrow> nat \<Rightarrow> nat option" where
  "ParseUint s bits =
     (if decimalDigits s \<and> digitsValue 0 s < 2 ^ bits then Some (digitsValue 0 s) else None)"

section \<open>Interface\<close>

text \<open>
  An encoding is canonical when the decoder accepts exactly the encodings of valid values and
  returns the value encoded. Then encoding is injective on valid values, and two texts that
  decode to the same value are the same text.
\<close>

locale codec =
  fixes enc :: "'a \<Rightarrow> string" and dec :: "string \<Rightarrow> 'e + 'a" and valid :: "'a \<Rightarrow> bool"
  assumes dec_iff: "dec s = Inr x \<longleftrightarrow> s = enc x \<and> valid x"
begin

lemma dec_enc: "valid x \<Longrightarrow> dec (enc x) = Inr x"
  by (simp add: dec_iff)

lemma enc_inj: "valid x \<Longrightarrow> enc x = enc y \<Longrightarrow> valid y \<Longrightarrow> x = y"
  by (metis dec_enc sum.inject(2))

lemma dec_canonical: "dec s = Inr x \<Longrightarrow> dec s' = Inr x \<Longrightarrow> s = s'"
  by (simp add: dec_iff)

lemma accepts_iff: "is_ok (dec s) \<longleftrightarrow> (\<exists>x. s = enc x \<and> valid x)"
  by (simp add: is_ok_iff dec_iff)

end

section \<open>Lemmas\<close>

lemma digit_char [simp]:
  assumes "d < (10::nat)"
  shows "of_char (char_of (48 + d) :: char) = 48 + d" "isASCIIDigit (char_of (48 + d))"
  using assms by (simp_all add: isASCIIDigit_def less_eq_char_def)

lemma digit_code: "isASCIIDigit c \<longleftrightarrow> 48 \<le> (of_char c :: nat) \<and> of_char c \<le> (57 :: nat)"
  by (simp add: isASCIIDigit_def less_eq_char_def)

lemma char_of_digit [simp]: "isASCIIDigit c \<Longrightarrow> char_of (48 + (of_char c - 48 :: nat)) = c"
  by (simp add: digit_code)

lemma digitsValue_append: "digitsValue acc (s @ [c]) = digitsValue acc s * 10 + (of_char c - 48)"
  by (induction s arbitrary: acc) auto

lemma FormatUint_not_Nil [simp]: "FormatUint n \<noteq> []"
  by (subst FormatUint.simps) simp

lemma FormatUint_digits: "list_all isASCIIDigit (FormatUint n)"
proof (induction n rule: FormatUint.induct)
  case (1 n)
  then show ?case by (subst FormatUint.simps) auto
qed

lemma decimalDigits_FormatUint [simp]: "decimalDigits (FormatUint n)"
  by (simp add: decimalDigits_def FormatUint_digits)

lemma digitsValue_FormatUint [simp]: "digitsValue 0 (FormatUint n) = n"
proof (induction n rule: FormatUint.induct)
  case (1 n)
  show ?case
  proof (cases "n < 10")
    case True
    then show ?thesis by (subst FormatUint.simps) simp
  next
    case False
    with 1 show ?thesis by (subst FormatUint.simps) (simp add: digitsValue_append)
  qed
qed

lemma ParseUint_FormatUint [simp]: "ParseUint (FormatUint n) bits = (if n < 2 ^ bits then Some n else None)"
  by (simp add: ParseUint_def)

lemma FormatUint_inj: "FormatUint n = FormatUint m \<longleftrightarrow> n = m"
  by (metis digitsValue_FormatUint)

lemma digitsValue_pos: "list_all isASCIIDigit s \<Longrightarrow> 0 < acc \<Longrightarrow> 0 < digitsValue acc s"
  by (induction s arbitrary: acc) auto

lemma FormatUint_digitsValue:
  assumes "decimalDigits s" and "length s = 1 \<or> hd s \<noteq> CHR ''0''"
  shows "FormatUint (digitsValue 0 s) = s"
  using assms
proof (induction s rule: rev_induct)
  case (snoc c s)
  have c: "isASCIIDigit c" using snoc.prems by (simp add: decimalDigits_def)
  then have d: "of_char c - 48 < (10::nat)" unfolding digit_code by linarith
  show ?case
  proof (cases "s = []")
    case True
    with c d show ?thesis by (simp add: FormatUint.simps)
  next
    case False
    with snoc.prems have s: "decimalDigits s" "hd s \<noteq> CHR ''0''" by (auto simp: decimalDigits_def)
    obtain x xs where x: "s = x # xs" using False by (cases s) auto
    have "of_char x \<noteq> (48::nat)"
    proof
      assume "of_char x = (48::nat)"
      then have "of_char x = (of_char (CHR ''0'') :: nat)" by simp
      then show False using s(2) x by (simp only: of_char_eq_iff) simp
    qed
    then have "0 < digitsValue 0 s"
      using s(1) by (auto simp: x decimalDigits_def digit_code intro!: digitsValue_pos)
    then show ?thesis
      using snoc.IH s c d by (subst FormatUint.simps) (simp add: digitsValue_append)
  qed
qed (simp add: decimalDigits_def)

lemma FormatUint_no_leading_zero: "length (FormatUint n) = 1 \<or> hd (FormatUint n) \<noteq> CHR ''0''"
proof (induction n rule: FormatUint.induct)
  case (1 n)
  show ?case
  proof (cases "n < 10")
    case True
    then show ?thesis by (subst FormatUint.simps) simp
  next
    case False
    show ?thesis
    proof (cases "n div 10 < 10")
      case True
      then have "FormatUint n = [char_of (48 + n div 10), char_of (48 + n mod 10)]"
        using False by (simp add: FormatUint.simps)
      moreover have "of_char (char_of (48 + n div 10) :: char) \<noteq> (of_char (CHR ''0'') :: nat)"
        using True False by simp
      ultimately show ?thesis by (metis list.sel(1))
    next
      case div: False
      then have "length (FormatUint (n div 10)) \<noteq> 1"
        by (subst FormatUint.simps) simp
      with 1 False have "hd (FormatUint (n div 10)) \<noteq> CHR ''0''" by simp
      then show ?thesis using False by (simp add: FormatUint.simps [of n])
    qed
  qed
qed

end
