(* ===== verification/Log_Reference.thy ===== *)
theory Log_Reference
  imports Lifecycle_Log Go_Strconv
begin

text \<open>
  The references of the \<open>c2sp-tlog\<close> binding (\<open>log/c2sptlog/reference.go\<close>) and the two
  encodings of a tiled log its scan reads (\<open>scan_source.go\<close>): tile numbers and entry bundles.

  \<open>net/url\<close> is the parameter \<open>urlParse\<close>: it returns what the accessors of the parsed URL
  give, or \<open>None\<close> for an error.

  The lemmas show that the accepted texts are exactly the printed forms of the valid values,
  as interpretations of the interface \<open>codec\<close>.
\<close>

section \<open>References\<close>

record URL =
  urlScheme :: string
  urlHost :: string
  urlHasUser :: bool
  urlEscapedPath :: string
  urlHostname :: string
  urlPort :: string

definition Method :: string where
  "Method = ''c2sp-tlog''"

record Reference =
  refScope :: string
  refLogPrefix :: string
  refStreamID :: string

definition reference_String :: "Reference \<Rightarrow> string" where
  "reference_String r = Method @ '':'' @ refScope r @ '':'' @ refLogPrefix r @ ''#'' @ refStreamID r"

definition validPrivateScope :: "string \<Rightarrow> bool" where
  "validPrivateScope scope =
     (if scope = ''private-'' then False
      else list_all (\<lambda>c. isASCIIAlpha c \<or> isASCIIDigit c \<or> c = CHR ''-'') (TrimPrefix scope ''private-''))"

definition isUpperHex :: "char \<Rightarrow> bool" where
  "isUpperHex b = (isASCIIDigit b \<or> (CHR ''A'' \<le> b \<and> b \<le> CHR ''F''))"

definition isHex :: "char \<Rightarrow> bool" where
  "isHex c = (c \<in> set ''0123456789abcdefABCDEF'')"

definition fromHex :: "char \<Rightarrow> nat" where
  "fromHex b = (if b \<le> CHR ''9'' then of_char b - 48 else of_char b - 65 + 10)"

definition isUnreserved :: "char \<Rightarrow> bool" where
  "isUnreserved b =
     (isASCIIAlpha b \<or> isASCIIDigit b \<or> b = CHR ''-'' \<or> b = CHR ''.'' \<or> b = CHR ''_'' \<or> b = CHR ''~'')"

fun validateCanonicalEscapes :: "string \<Rightarrow> sdk_error + unit" where
  "validateCanonicalEscapes [] = Inr ()"
| "validateCanonicalEscapes (c # cs) =
     (if c \<noteq> CHR ''%'' then validateCanonicalEscapes cs
      else (case cs of
              h # l # rest \<Rightarrow>
                if \<not> isUpperHex h \<or> \<not> isUpperHex l
                then Inl (PlainError ''dnsid: c2sp-tlog log prefix percent-encodings must use uppercase hex'' None)
                else (let b = char_of (fromHex h * 16 + fromHex l)
                      in if b = CHR ''/'' \<or> b = CHR 0x5C
                         then Inl (PlainError ''dnsid: c2sp-tlog log prefix must not percent-encode slash or backslash'' None)
                         else if isUnreserved b
                         then Inl (PlainError ''dnsid: c2sp-tlog log prefix must decode unreserved percent-encodings'' None)
                         else validateCanonicalEscapes rest)
            | _ \<Rightarrow> Inl (PlainError ''dnsid: c2sp-tlog log prefix percent-encodings must use uppercase hex'' None)))"

fun validStreamID :: "string \<Rightarrow> bool" where
  "validStreamID [] = True"
| "validStreamID (c # cs) =
     (if isUnreserved c then validStreamID cs
      else if c \<noteq> CHR ''%'' then False
      else (case cs of h # l # rest \<Rightarrow> isHex h \<and> isHex l \<and> validStreamID rest | _ \<Rightarrow> False))"

definition JoinHostPort :: "string \<Rightarrow> string \<Rightarrow> string" where
  "JoinHostPort host port =
     (if CHR '':'' \<in> set host then ''['' @ host @ '']:'' @ port else host @ '':'' @ port)"

text \<open>
  \<open>strings.IndexFunc(origin, unicode.IsSpace) >= 0\<close>: the white space of Unicode as its UTF-8
  byte sequences, none of which occurs inside the encoding of another character.
\<close>

definition containsSpace :: "string \<Rightarrow> bool" where
  "containsSpace s =
     (ContainsAny s [CHR 0x09, CHR 0x0A, CHR 0x0B, CHR 0x0C, CHR 0x0D, CHR '' '']
      \<or> list_ex (Contains s)
          ([[CHR 0xC2, CHR 0x85], [CHR 0xC2, CHR 0xA0], [CHR 0xE1, CHR 0x9A, CHR 0x80],
            [CHR 0xE2, CHR 0x80, CHR 0xA8], [CHR 0xE2, CHR 0x80, CHR 0xA9], [CHR 0xE2, CHR 0x80, CHR 0xAF],
            [CHR 0xE2, CHR 0x81, CHR 0x9F], [CHR 0xE3, CHR 0x80, CHR 0x80]]
           @ map (\<lambda>i. [CHR 0xE2, CHR 0x80, char_of (128 + i :: nat)]) [0..<11]))"

definition invalidReference :: "sdk_error \<Rightarrow> sdk_error" where
  "invalidReference e = ValidationError ''dnsid: invalid c2sp-tlog reference'' (Some e)"

definition Origin :: "(string \<Rightarrow> URL option) \<Rightarrow> Reference \<Rightarrow> sdk_error + string" where
  "Origin urlParse r = map_err invalidReference
     (case urlParse (refLogPrefix r) of
        None \<Rightarrow> Inl (PlainError ''dnsid: invalid c2sp-tlog log prefix'' None)
      | Some u \<Rightarrow>
          if urlHost u = '''' then Inl (PlainError ''dnsid: invalid c2sp-tlog log prefix'' None)
          else
            (let path = (if urlEscapedPath u = ''/'' then '''' else urlEscapedPath u);
                 host = (if CHR '':'' \<in> set (urlHost u) \<and> urlPort u \<noteq> ''''
                         then JoinHostPort (urlHostname u) (urlPort u) else urlHost u);
                 origin = host @ path
             in if CHR ''+'' \<in> set origin \<or> containsSpace origin
                then Inl (PlainError ''dnsid: c2sp-tlog origin is not a valid signed-note key name'' None)
                else Inr origin))"

definition printableByte :: "char \<Rightarrow> bool" where
  "printableByte c = (\<not> (c < CHR 0x21 \<or> c > CHR 0x7E \<or> c = CHR '';''))"

definition reference_Validate :: "(string \<Rightarrow> URL option) \<Rightarrow> Reference \<Rightarrow> sdk_error + unit" where
  "reference_Validate urlParse r = map_err invalidReference
     (let lr = reference_String r;
          fail = (\<lambda>msg. Inl (PlainError msg None))
      in if length lr > 1024 then fail ''dnsid: c2sp-tlog reference exceeds 1024 bytes''
         else if \<not> list_all printableByte lr
           then fail ''dnsid: c2sp-tlog reference must be a printable ASCII TXT tag value without spaces or semicolons''
         else if \<not> (refScope r = ''public'' \<or> refScope r = ''testnet''
                     \<or> HasPrefix (refScope r) ''private-'' \<and> validPrivateScope (refScope r))
           then fail ''dnsid: invalid c2sp-tlog scope''
         else
           (case urlParse (refLogPrefix r) of
              None \<Rightarrow> fail ''dnsid: invalid c2sp-tlog log prefix''
            | Some u \<Rightarrow>
                if urlScheme u = '''' \<or> urlHost u = '''' then fail ''dnsid: invalid c2sp-tlog log prefix''
                else if urlHasUser u then fail ''dnsid: c2sp-tlog log prefix must not contain userinfo''
                else if ContainsAny (refLogPrefix r) ''?#''
                  then fail ''dnsid: c2sp-tlog log prefix must not contain query or fragment''
                else if \<not> HasPrefix (refLogPrefix r) (urlScheme u @ ''://'')
                  then fail ''dnsid: c2sp-tlog log prefix scheme must be lowercase''
                else if Contains (urlEscapedPath u) ''/./'' \<or> Contains (urlEscapedPath u) ''/../''
                     \<or> HasSuffix (urlEscapedPath u) ''/.'' \<or> HasSuffix (urlEscapedPath u) ''/..''
                  then fail ''dnsid: c2sp-tlog log prefix must not contain dot segments''
                else if HasSuffix (refLogPrefix r) ''/''
                  then fail ''dnsid: c2sp-tlog log prefix must not end with slash''
                else if refScope r = ''public'' \<and> urlScheme u \<noteq> ''https''
                  then fail ''dnsid: public c2sp-tlog log prefix must use https''
                else if urlScheme u \<noteq> ''https'' \<and> urlScheme u \<noteq> ''http''
                  then fail ''dnsid: c2sp-tlog log prefix must use http or https''
                else if \<not> ascii (urlHostname u) then fail ''dnsid: c2sp-tlog log prefix host must be ASCII''
                else if urlHostname u \<noteq> ascii_lower (urlHostname u)
                  then fail ''dnsid: c2sp-tlog log prefix host must be lowercase''
                else if (urlScheme u = ''https'' \<and> urlPort u = ''443'') \<or> (urlScheme u = ''http'' \<and> urlPort u = ''80'')
                  then fail ''dnsid: c2sp-tlog log prefix must omit default port''
                else rbind (validateCanonicalEscapes (urlEscapedPath u)) (\<lambda>_.
                  if refStreamID r = '''' then fail ''dnsid: c2sp-tlog stream id is required''
                  else if \<not> validStreamID (refStreamID r)
                    then fail ''dnsid: c2sp-tlog stream id must contain only unreserved or percent-encoded characters''
                  else rbind (Origin urlParse r) (\<lambda>_. Inr ()))))"

text \<open>\<open>strings.Cut(s, sep)\<close> for a one-byte separator.\<close>

definition Cut :: "string \<Rightarrow> char \<Rightarrow> (string \<times> string) option" where
  "Cut s c = map_option (\<lambda>i. (take i s, drop (Suc i) s)) (IndexByte s c)"

definition ParseReference :: "(string \<Rightarrow> URL option) \<Rightarrow> string \<Rightarrow> sdk_error + Reference" where
  "ParseReference urlParse lr = map_err (\<lambda>e. ParseError ''dnsid: parsing c2sp-tlog reference'' (Some e))
     (rbind (ParseLogRef lr) (\<lambda>(method, entryRef).
        if method \<noteq> Method then Inl (PlainError ''dnsid: log method is not c2sp-tlog'' None)
        else (case Cut entryRef (CHR '':'') of
                None \<Rightarrow> Inl (PlainError ''dnsid: malformed c2sp-tlog reference'' None)
              | Some (scope, rest) \<Rightarrow>
                  if scope = '''' \<or> rest = '''' then Inl (PlainError ''dnsid: malformed c2sp-tlog reference'' None)
                  else (case LastIndexByte rest (CHR ''#'') of
                          None \<Rightarrow> Inl (PlainError ''dnsid: malformed c2sp-tlog reference'' None)
                        | Some hash \<Rightarrow>
                            if hash = 0 \<or> hash = length rest - 1
                            then Inl (PlainError ''dnsid: malformed c2sp-tlog reference'' None)
                            else (let ref = \<lparr>refScope = scope, refLogPrefix = take hash rest,
                                             refStreamID = drop (Suc hash) rest\<rparr>
                                  in rbind (reference_Validate urlParse ref) (\<lambda>_. Inr ref))))))"

definition FinalEventRef :: "Reference \<Rightarrow> nat \<Rightarrow> string" where
  "FinalEventRef r index = reference_String r @ ''@'' @ FormatUint index"

definition ParseFinalEventRef :: "(string \<Rightarrow> URL option) \<Rightarrow> string \<Rightarrow> sdk_error + Reference \<times> nat" where
  "ParseFinalEventRef urlParse s =
     map_err (\<lambda>e. ParseError ''dnsid: parsing c2sp-tlog final event reference'' (Some e))
     (case LastIndexByte s (CHR ''@'') of
        None \<Rightarrow> Inl (PlainError ''dnsid: malformed c2sp-tlog final event reference'' None)
      | Some at \<Rightarrow>
          if at = 0 \<or> at = length s - 1
          then Inl (PlainError ''dnsid: malformed c2sp-tlog final event reference'' None)
          else rbind (ParseReference urlParse (take at s)) (\<lambda>r.
            let indexText = drop (Suc at) s
            in if (length indexText > 1 \<and> hd indexText = CHR ''0'') \<or> \<not> decimalDigits indexText
               then Inl (PlainError ''dnsid: invalid c2sp-tlog event index'' None)
               else (case ParseUint indexText 64 of
                       None \<Rightarrow> Inl (PlainError ''dnsid: invalid c2sp-tlog event index'' None)
                     | Some index \<Rightarrow> Inr (r, index))))"

section \<open>Tile numbers and entry bundles\<close>

text \<open>The loop over groups of three digits; every group but the last is marked with an x.\<close>

fun tileGroups :: "string \<Rightarrow> string list" where
  "tileGroups (a # b # c # rest) =
     (if rest \<noteq> [] then (CHR ''x'' # [a, b, c]) # tileGroups rest else [[a, b, c]])"
| "tileGroups _ = []"

definition tileNumber :: "nat \<Rightarrow> string" where
  "tileNumber number =
     (let digits = FormatUint number;
          remainder = length digits mod 3;
          padded = (if remainder \<noteq> 0 then replicate (3 - remainder) (CHR ''0'') @ digits else digits)
      in Join (tileGroups padded) ''/'')"

text \<open>The loop of \<open>parseEntryBundle\<close> on the bytes from \<open>offset\<close> on.\<close>

function parseEntryBundle :: "bytes \<Rightarrow> sdk_error + bytes list" where
  "parseEntryBundle data =
     (case data of
        [] \<Rightarrow> Inr []
      | [_] \<Rightarrow> Inl (PlainError ''dnsid: truncated c2sp-tlog entry bundle length'' None)
      | hi # lo # rest \<Rightarrow>
          (let len = of_char hi * 256 + of_char lo
           in if len > length rest
              then Inl (PlainError ''dnsid: truncated c2sp-tlog entry bundle entry'' None)
              else rbind (parseEntryBundle (drop len rest)) (\<lambda>entries. Inr (take len rest # entries))))"
  by pat_completeness auto
termination
  by (relation "measure length") auto

declare parseEntryBundle.simps [simp del]

text \<open>The bundle format: each entry after its length in two bytes, high byte first.\<close>

definition bundleBytes :: "bytes list \<Rightarrow> bytes" where
  "bundleBytes entries =
     concat (map (\<lambda>e. char_of (length e div 256) # char_of (length e mod 256) # e) entries)"

definition bundleEntries :: "bytes list \<Rightarrow> bool" where
  "bundleEntries entries = list_all (\<lambda>e. length e < 65536) entries"

definition stripX :: "string \<Rightarrow> string" where
  "stripX g = (if length g = 4 then tl g else g)"

definition paddedDigits :: "nat \<Rightarrow> string" where
  "paddedDigits n = (let d = FormatUint n; r = length d mod 3
     in if r \<noteq> 0 then replicate (3 - r) (CHR ''0'') @ d else d)"

section \<open>Lemmas\<close>

lemma unreserved_chars: "isUnreserved c \<Longrightarrow> c \<noteq> CHR ''#'' \<and> c \<noteq> CHR ''@''"
  by (auto simp: isUnreserved_def isASCIIAlpha_def isASCIIDigit_def less_eq_char_def)

lemma hex_chars: "isHex c \<Longrightarrow> c \<noteq> CHR ''#'' \<and> c \<noteq> CHR ''@''"
  by (auto simp: isHex_def)

lemma validStreamID_chars: "validStreamID s \<Longrightarrow> CHR ''#'' \<notin> set s"
  by (induction s rule: validStreamID.induct)
    (auto dest: unreserved_chars hex_chars split: if_splits list.splits)

lemma private_scope_chars:
  assumes "HasPrefix s ''private-''" and "validPrivateScope s"
  shows "CHR '':'' \<notin> set s"
  using assms by (auto simp: HasPrefix_iff validPrivateScope_def TrimPrefix_def list_all_iff
      isASCIIAlpha_def isASCIIDigit_def less_eq_char_def split: if_splits)

lemma reference_Validate_facts:
  assumes "reference_Validate urlParse r = Inr ()"
  shows "refScope r \<noteq> ''''" "CHR '':'' \<notin> set (refScope r)" "refLogPrefix r \<noteq> ''''"
    "refStreamID r \<noteq> ''''" "CHR ''#'' \<notin> set (refStreamID r)"
proof -
  from assms obtain u where u: "urlParse (refLogPrefix r) = Some u"
    and sc: "refScope r = ''public'' \<or> refScope r = ''testnet'' \<or> HasPrefix (refScope r) ''private-'' \<and> validPrivateScope (refScope r)"
    and p: "HasPrefix (refLogPrefix r) (urlScheme u @ ''://'')"
    and s: "refStreamID r \<noteq> ''''" "validStreamID (refStreamID r)"
    unfolding reference_Validate_def
    by (auto simp: ok_iffs Let_def split: option.splits if_splits simp del: ContainsAny_iff)
  show "refScope r \<noteq> ''''" using sc by auto
  show "CHR '':'' \<notin> set (refScope r)" using sc private_scope_chars by auto
  show "refLogPrefix r \<noteq> ''''" using p by (auto simp: HasPrefix_iff)
  show "refStreamID r \<noteq> ''''" by (rule s)
  show "CHR ''#'' \<notin> set (refStreamID r)" using s(2) by (rule validStreamID_chars)
qed

lemma Cut_iff: "Cut s c = Some (a, b) \<longleftrightarrow> s = a @ c # b \<and> c \<notin> set a"
proof
  assume "Cut s c = Some (a, b)"
  then obtain i where "IndexByte s c = Some i" "a = take i s" "b = drop (Suc i) s" by (auto simp: Cut_def)
  then show "s = a @ c # b \<and> c \<notin> set a" using IndexByte_Some [of s c i] by simp
next
  assume "s = a @ c # b \<and> c \<notin> set a"
  then show "Cut s c = Some (a, b)" by (simp add: Cut_def IndexByte_append)
qed

lemma LastIndexByte_iff: "LastIndexByte s c = Some i \<longleftrightarrow> (\<exists>a b. s = a @ c # b \<and> c \<notin> set b \<and> i = length a)"
proof
  assume "LastIndexByte s c = Some i"
  then have "s = take i s @ c # drop (Suc i) s \<and> c \<notin> set (drop (Suc i) s) \<and> i < length s" by (rule LastIndexByte_Some)
  then show "\<exists>a b. s = a @ c # b \<and> c \<notin> set b \<and> i = length a"
    by (intro exI [of _ "take i s"] exI [of _ "drop (Suc i) s"]) simp
qed (auto simp: LastIndexByte_append)

lemma logMethodRE_Method: "logMethodRE Method"
  by (simp add: Method_def logMethodRE_def isASCIIDigit_def less_eq_char_def)

lemma ParseReference_iff:
  "ParseReference urlParse lr = Inr r \<longleftrightarrow> lr = reference_String r \<and> reference_Validate urlParse r = Inr ()"
proof
  assume "ParseReference urlParse lr = Inr r"
  note ok = this
  then obtain m e where p: "ParseLogRef lr = Inr (m, e)"
    by (cases "ParseLogRef lr") (auto simp: ParseReference_def)
  with ok have m: "m = Method" by (auto simp: ParseReference_def split: if_splits)
  with ok p obtain scope rest where c: "Cut e (CHR '':'') = Some (scope, rest)"
    by (cases "Cut e (CHR '':'')") (auto simp: ParseReference_def)
  with ok p m obtain hash where h: "LastIndexByte rest (CHR ''#'') = Some hash"
    by (cases "LastIndexByte rest (CHR ''#'')")
      (auto simp: ParseReference_def split: if_splits simp del: LastIndexByte_None)
  with ok p m c have r: "r = \<lparr>refScope = scope, refLogPrefix = take hash rest, refStreamID = drop (Suc hash) rest\<rparr>"
    and v: "reference_Validate urlParse r = Inr ()"
    by (auto simp: ParseReference_def Let_def rbind_Inr_iff map_err_Inr_iff split: if_splits)
  have l: "lr = Method @ CHR '':'' # scope @ CHR '':'' # rest" using p c m by (simp add: ParseLogRef_iff Cut_iff)
  from h obtain a b where "rest = a @ CHR ''#'' # b" "hash = length a" by (auto simp: LastIndexByte_iff)
  then show "lr = reference_String r \<and> reference_Validate urlParse r = Inr ()"
    using l r v by (simp add: reference_String_def)
next
  assume *: "lr = reference_String r \<and> reference_Validate urlParse r = Inr ()"
  note f = reference_Validate_facts [OF conjunct2 [OF *]]
  let ?e = "refScope r @ CHR '':'' # refLogPrefix r @ CHR ''#'' # refStreamID r"
  have p: "ParseLogRef lr = Inr (Method, ?e)"
    using * logMethodRE_Method by (simp add: ParseLogRef_iff reference_String_def)
  have c: "Cut ?e (CHR '':'') = Some (refScope r, refLogPrefix r @ CHR ''#'' # refStreamID r)"
    using f by (simp add: Cut_iff)
  have h: "LastIndexByte (refLogPrefix r @ CHR ''#'' # refStreamID r) (CHR ''#'') = Some (length (refLogPrefix r))"
    using f by (simp add: LastIndexByte_append)
  have eta: "\<lparr>refScope = refScope r, refLogPrefix = refLogPrefix r, refStreamID = refStreamID r\<rparr> = r" by simp
  show "ParseReference urlParse lr = Inr r"
    using conjunct2 [OF *] f unfolding ParseReference_def p by (simp add: c h Let_def eta)
qed

lemma FormatUint_no_at: "CHR ''@'' \<notin> set (FormatUint n)"
  using FormatUint_digits [of n] by (auto simp: list_all_iff isASCIIDigit_def less_eq_char_def)

lemma reference_String_neq_Nil [simp]: "reference_String r \<noteq> []"
  by (simp add: reference_String_def Method_def)

lemma ParseFinalEventRef_iff:
  "ParseFinalEventRef urlParse s = Inr (r, i) \<longleftrightarrow>
     s = FinalEventRef r i \<and> reference_Validate urlParse r = Inr () \<and> i < 2 ^ 64"
proof
  assume "ParseFinalEventRef urlParse s = Inr (r, i)"
  note ok = this
  then obtain at where h: "LastIndexByte s (CHR ''@'') = Some at"
    by (cases "LastIndexByte s (CHR ''@'')") (auto simp: ParseFinalEventRef_def simp del: LastIndexByte_None)
  let ?t = "drop (Suc at) s"
  from ok h obtain r' where r': "ParseReference urlParse (take at s) = Inr r'"
    by (cases "ParseReference urlParse (take at s)") (auto simp: ParseFinalEventRef_def split: if_splits)
  from ok h r' have d: "\<not> (length ?t > 1 \<and> hd ?t = CHR ''0'')" "decimalDigits ?t"
    and r: "ParseReference urlParse (take at s) = Inr r" and i: "ParseUint ?t 64 = Some i"
    by (simp_all add: ParseFinalEventRef_def Let_def split: if_splits option.splits)
  from h obtain a b where ab: "s = a @ CHR ''@'' # b" "at = length a" by (auto simp: LastIndexByte_iff)
  have b: "decimalDigits b" "length b = 1 \<or> hd b \<noteq> CHR ''0''" "ParseUint b 64 = Some i"
  proof -
    have bb: "drop (Suc at) s = b" by (simp add: ab)
    show "decimalDigits b" "ParseUint b 64 = Some i" using d i unfolding bb by simp_all
    show "length b = 1 \<or> hd b \<noteq> CHR ''0''"
      using d unfolding bb decimalDigits_def by (cases b; cases "tl b") auto
  qed
  then have "b = FormatUint i" "i < 2 ^ 64"
    using FormatUint_digitsValue [of b] by (auto simp: ParseUint_def split: if_splits)
  then show "s = FinalEventRef r i \<and> reference_Validate urlParse r = Inr () \<and> i < 2 ^ 64"
    using r ab by (simp add: ParseReference_iff FinalEventRef_def)
next
  assume *: "s = FinalEventRef r i \<and> reference_Validate urlParse r = Inr () \<and> i < 2 ^ 64"
  then have s: "s = reference_String r @ CHR ''@'' # FormatUint i" by (simp add: FinalEventRef_def)
  then have h: "LastIndexByte s (CHR ''@'') = Some (length (reference_String r))"
    by (simp add: LastIndexByte_append FormatUint_no_at)
  have p: "ParseReference urlParse (reference_String r) = Inr r" using * by (simp add: ParseReference_iff)
  show "ParseFinalEventRef urlParse s = Inr (r, i)"
    using conjunct2 [OF *] FormatUint_no_leading_zero [of i] p unfolding ParseFinalEventRef_def h unfolding s
    by (auto simp: Let_def)
qed

interpretation lr: codec reference_String "ParseReference urlParse" "\<lambda>r. reference_Validate urlParse r = Inr ()"
  for urlParse
  by unfold_locales (rule ParseReference_iff)

interpretation fer: codec "\<lambda>(r, i). FinalEventRef r i" "ParseFinalEventRef urlParse"
    "\<lambda>(r, i). reference_Validate urlParse r = Inr () \<and> i < 2 ^ 64"
  for urlParse
  by unfold_locales (auto simp: ParseFinalEventRef_iff)

lemma bundleBytes_Cons:
  "bundleBytes (e # es) = char_of (length e div 256) # char_of (length e mod 256) # e @ bundleBytes es"
  by (simp add: bundleBytes_def)

lemma parseEntryBundle_Cons2:
  "parseEntryBundle (hi # lo # rest) =
     (let len = of_char hi * 256 + of_char lo
      in if len > length rest
         then Inl (PlainError ''dnsid: truncated c2sp-tlog entry bundle entry'' None)
         else rbind (parseEntryBundle (drop len rest)) (\<lambda>entries. Inr (take len rest # entries)))"
  by (simp add: parseEntryBundle.simps)

lemma parseEntryBundle_bundleBytes: "bundleEntries es \<Longrightarrow> parseEntryBundle (bundleBytes es) = Inr es"
proof (induction es)
  case Nil
  then show ?case by (simp add: bundleBytes_def parseEntryBundle.simps)
next
  case (Cons e es)
  then have l: "length e div 256 < 256" by (auto simp: bundleEntries_def)
  have "of_char (char_of (length e div 256) :: char) * 256 + of_char (char_of (length e mod 256) :: char) = length e"
    using l by simp
  with Cons show ?case by (simp add: bundleBytes_Cons parseEntryBundle_Cons2 bundleEntries_def)
qed

lemma parseEntryBundle_complete:
  "parseEntryBundle data = Inr es \<Longrightarrow> data = bundleBytes es \<and> bundleEntries es"
proof (induction data arbitrary: es rule: parseEntryBundle.induct)
  case (1 data)
  show ?case
  proof (cases data)
    case Nil
    then show ?thesis using 1(2) by (simp add: parseEntryBundle.simps bundleBytes_def bundleEntries_def)
  next
    case (Cons hi t)
    show ?thesis
    proof (cases t)
      case Nil
      then show ?thesis using 1(2) Cons by (simp add: parseEntryBundle.simps)
    next
      case t: (Cons lo rest)
      define len where "len = of_char hi * 256 + (of_char lo :: nat)"
      from 1(2) obtain es' where le: "len \<le> length rest" and rc: "parseEntryBundle (drop len rest) = Inr es'"
        and es: "es = take len rest # es'"
        by (auto simp: Cons t parseEntryBundle_Cons2 len_def [symmetric] Let_def ok_iffs split: if_splits)
      have ih: "drop len rest = bundleBytes es' \<and> bundleEntries es'"
        using 1(1) [OF Cons t len_def _ rc] le by simp
      have n: "len div 256 = of_char hi" "len mod 256 = of_char lo"
        by (simp_all add: len_def)
      have "len < 65536" using nat_of_char_less_256 [of hi] nat_of_char_less_256 [of lo] unfolding len_def by linarith
      then show ?thesis
        using ih le by (simp add: es Cons t bundleBytes_Cons n bundleEntries_def min_absorb2)
          (metis append_take_drop_id)
    qed
  qed
qed

interpretation eb: codec bundleBytes parseEntryBundle bundleEntries
  by unfold_locales (auto intro: parseEntryBundle_bundleBytes dest: parseEntryBundle_complete)

subsection \<open>Tile numbers\<close>

lemma tileGroups_no_slash:
  "list_all isASCIIDigit s \<Longrightarrow> g \<in> set (tileGroups s) \<Longrightarrow> CHR ''/'' \<notin> set g"
  by (induction s rule: tileGroups.induct) (auto simp: isASCIIDigit_def less_eq_char_def split: if_splits)

lemma tileGroups_Nil [simp]: "tileGroups s = [] \<longleftrightarrow> length s < 3"
  by (induction s rule: tileGroups.induct) auto

lemma tileGroups_concat:
  "length s mod 3 = 0 \<Longrightarrow> concat (map stripX (tileGroups s)) = s"
proof (induction s rule: tileGroups.induct)
  case (1 a b c rest)
  then have "length rest mod 3 = 0" by simp
  with 1 show ?case by (auto simp: stripX_def)
qed auto

lemma digitsValue_zeros: "digitsValue 0 (replicate k (CHR ''0'') @ s) = digitsValue 0 s"
  by (induction k) auto

lemma paddedDigits_facts:
  "length (paddedDigits n) mod 3 = 0" "3 \<le> length (paddedDigits n)" "list_all isASCIIDigit (paddedDigits n)"
  "digitsValue 0 (paddedDigits n) = n"
proof -
  define d where "d = FormatUint n"
  have "d \<noteq> []" "list_all isASCIIDigit d" "digitsValue 0 d = n" by (simp_all add: d_def FormatUint_digits)
  moreover have "isASCIIDigit (CHR ''0'')" by (simp add: isASCIIDigit_def)
  ultimately show "list_all isASCIIDigit (paddedDigits n)" "digitsValue 0 (paddedDigits n) = n"
    by (auto simp: paddedDigits_def Let_def d_def [symmetric] digitsValue_zeros list_all_iff)
  have m: "(3 - l mod 3 + l) mod 3 = 0" if "l mod 3 \<noteq> 0" for l :: nat using that by presburger
  show "length (paddedDigits n) mod 3 = 0"
    using m [of "length d"] by (auto simp: paddedDigits_def Let_def d_def [symmetric])
  moreover have "0 < length (paddedDigits n)" by (auto simp: paddedDigits_def Let_def)
  ultimately show "3 \<le> length (paddedDigits n)" by presburger
qed

lemma tileNumber_Split: "Split (tileNumber n) (CHR ''/'') = tileGroups (paddedDigits n)"
proof -
  have "tileNumber n = Join (tileGroups (paddedDigits n)) ''/''"
    by (simp add: tileNumber_def paddedDigits_def Let_def)
  then show ?thesis
    using paddedDigits_facts [of n] tileGroups_no_slash [of "paddedDigits n"] by (simp add: Split_Join)
qed

section \<open>Properties\<close>

text \<open>
  C29. References are canonical: \<open>ParseReference\<close> accepts a text exactly when it is the printed
  form of a reference that passes \<open>Validate\<close>, and returns that reference. So printing and
  parsing are inverse to each other and no two texts name the same stream.
\<close>

theorem reference_parse_iff_printed:
  "(ParseReference urlParse lr = Inr r) =
     (lr = reference_String r \<and> reference_Validate urlParse r = Inr ())"
  by (rule lr.dec_iff)

text \<open>
  Event references: \<open>ParseFinalEventRef\<close> accepts exactly the texts \<open>FinalEventRef\<close> prints
  for a valid reference and an index of 64 bits, whatever characters the log prefix and the
  stream id contain, and returns that pair.
\<close>

theorem final_event_ref_parse_iff_printed:
  "(ParseFinalEventRef urlParse s = Inr (r, i)) =
     (s = FinalEventRef r i \<and> reference_Validate urlParse r = Inr () \<and> i < 2 ^ 64)"
  by (simp add: fer.dec_iff)

text \<open>
  C31. Entry bundles: \<open>parseEntryBundle\<close> accepts a byte string exactly when it is the
  concatenation of entries of at most 65535 bytes, each after its two-byte length, and
  returns those entries; a truncated length or entry is rejected, and it always ends.
\<close>

theorem entry_bundle_exact:
  "(parseEntryBundle data = Inr entries) = (data = bundleBytes entries \<and> bundleEntries entries)"
  by (rule eb.dec_iff)

text \<open>Different tiles have different paths: \<open>tileNumber\<close> is injective.\<close>

theorem tileNumber_injective: "(tileNumber n = tileNumber m) = (n = m)"
proof
  assume "tileNumber n = tileNumber m"
  then have "tileGroups (paddedDigits n) = tileGroups (paddedDigits m)"
    by (metis tileNumber_Split)
  then have "paddedDigits n = paddedDigits m"
    using paddedDigits_facts(1) tileGroups_concat by metis
  then show "n = m" by (metis paddedDigits_facts(4))
qed simp

end
