(* ===== verification/Record_Signature.thy ===== *)
theory Record_Signature
  imports Jwk_Keys Identity_Record Domain_Names Log_Reference Lifecycle_Log
begin

text \<open>
  The trust decisions on one \<open>_dnsid\<close> record: its owner signature under the entity's key set
  (\<open>record_signature.go\<close>) and its validation for the identity's domain (\<open>txt_record.go\<close>).

  URL parsing (\<open>net/url\<close>) is the parameter \<open>urlParse\<close>; \<open>strings.EqualFold\<close> and \<open>strings.ToLower\<close>,
  which follow the Unicode tables, are \<open>eqFold\<close> and \<open>toLower\<close>.
\<close>

section \<open>Owner signatures\<close>

definition ErrOwnerSignatureMalformed :: sdk_error where
  "ErrOwnerSignatureMalformed = PlainError ''dnsid: signature verification failed (malformed)'' None"

definition ErrOwnerSignatureInvalidJWKS :: sdk_error where
  "ErrOwnerSignatureInvalidJWKS = PlainError ''dnsid: signature verification failed (JWKS)'' None"

definition ErrOwnerSignatureNoMatchingKey :: sdk_error where
  "ErrOwnerSignatureNoMatchingKey = PlainError ''dnsid: signature verification failed (key)'' None"

record parsedRecordSignature =
  psAlg :: JoseAlg
  psSignature :: bytes

definition ownerSignatureError :: "sdk_error \<Rightarrow> sdk_error" where
  "ownerSignatureError reason =
     NewVerificationError SignatureInvalid False ''dnsid: _dnsid owner signature verification failed'' (Some reason)"

definition encodeRecordSignatureForProfile :: "string \<Rightarrow> JoseAlg \<Rightarrow> bytes \<Rightarrow> sdk_error + string" where
  "encodeRecordSignatureForProfile version alg sig =
     (case profileForVersion version of
        None \<Rightarrow> Inl (PlainError ''dnsid: unsupported signature profile'' None)
      | Some profile \<Rightarrow>
          (case signatureFormat profile of
             SignatureFormatDraft01 \<Rightarrow>
               if \<not> joseAlg_Valid alg then Inl (PlainError ''dnsid: unsupported JOSE alg'' None)
               else Inr (RawURLEncode sig)))"

definition singleCurrentSigningKey :: "('k, 'p, 'q) jwkLib \<Rightarrow> 'k list option \<Rightarrow> sdk_error + 'k" where
  "singleCurrentSigningKey K keys =
     (case keys of
        None \<Rightarrow> Inl (PlainError ''dnsid: nil JWKS'' None)
      | Some ks \<Rightarrow>
          (case filter (signingKeyEligible K) ks of
             [key] \<Rightarrow> Inr key
           | _ \<Rightarrow> Inl (PlainError ''JWKS must serve exactly one current signing key'' None)))"

definition singleDraft01SigningKey :: "('k, 'p, 'q) jwkLib \<Rightarrow> 'k list option \<Rightarrow> sdk_error + 'k" where
  "singleDraft01SigningKey K keys =
     rbind (singleCurrentSigningKey K keys) (\<lambda>key.
       if jkKid K key = None \<or> jkKid K key = Some '''' then Inl (PlainError ''draft 01 signing key must include kid'' None)
       else if list_ex (\<lambda>candidate. jkAlg K candidate = None) (case keys of None \<Rightarrow> [] | Some ks \<Rightarrow> ks)
       then Inl (PlainError ''draft 01 JWKS key must include alg'' None)
       else (case jwkAlg K key of
               None \<Rightarrow> Inl (PlainError ''draft 01 signing key must include alg'' None)
             | Some alg \<Rightarrow>
                 if \<not> joseAlg_Valid alg then Inl (PlainError ''draft 01 signing key must include alg'' None)
                 else if algForJWK K (Some key) \<noteq> Some alg
                 then Inl (PlainError ''draft 01 signing key alg is inconsistent with key type'' None)
                 else Inr key))"

definition verifyRecordSignatureWithKey ::
  "('k, 'p, 'q) jwkLib \<Rightarrow> TXTRecord \<Rightarrow> parsedRecordSignature \<Rightarrow> 'k \<Rightarrow> bool" where
  "verifyRecordSignatureWithKey K r parsed key =
     (if psAlg parsed = JoseAlgEdDSA then
        (case exportEd25519PublicKey K key of
           Inl _ \<Rightarrow> False
         | Inr pub \<Rightarrow> VerifyEd25519 (jkEd25519Verify K) pub (CanonicalContent r) (psSignature parsed))
      else if psAlg parsed = JoseAlgES256 then
        (case exportES256PublicKey K key of
           Inl _ \<Rightarrow> False
         | Inr pub \<Rightarrow> VerifyES256 (jkEC K) (Some pub) (CanonicalContent r) (psSignature parsed))
      else False)"

definition verifiedDraft01RecordSigningKey ::
  "('k, 'p, 'q) jwkLib \<Rightarrow> TXTRecord \<Rightarrow> 'k list option \<Rightarrow> sdk_error + 'k" where
  "verifiedDraft01RecordSigningKey K r keys =
     (case singleDraft01SigningKey K keys of
        Inl _ \<Rightarrow> Inl (ownerSignatureError ErrOwnerSignatureInvalidJWKS)
      | Inr key \<Rightarrow>
          let alg = (case jwkAlg K key of None \<Rightarrow> '''' | Some a \<Rightarrow> a) in
          if ContainsAny (Signature r) '':='' then Inl (ownerSignatureError ErrOwnerSignatureMalformed)
          else (case RawURLDecode (Signature r) of
                  None \<Rightarrow> Inl (ownerSignatureError ErrOwnerSignatureMalformed)
                | Some sig \<Rightarrow>
                    if alg = JoseAlgEdDSA \<and> length sig \<noteq> 64 then Inl (ownerSignatureError ErrOwnerSignatureMalformed)
                    else if alg = JoseAlgES256 \<and> \<not> ValidES256Signature sig
                    then Inl (ownerSignatureError ErrOwnerSignatureMalformed)
                    else if alg \<noteq> JoseAlgEdDSA \<and> alg \<noteq> JoseAlgES256
                    then Inl (ownerSignatureError ErrOwnerSignatureInvalidJWKS)
                    else if \<not> verifyRecordSignatureWithKey K r \<lparr>psAlg = alg, psSignature = sig\<rparr> key
                    then Inl (ownerSignatureError ErrOwnerSignatureNoMatchingKey)
                    else Inr key))"

definition verifiedRecordSigningKey ::
  "('k, 'p, 'q) jwkLib \<Rightarrow> TXTRecord option \<Rightarrow> 'k list option \<Rightarrow> sdk_error + 'k" where
  "verifiedRecordSigningKey K rec keys =
     (case rec of
        None \<Rightarrow> Inl (ownerSignatureError ErrOwnerSignatureMalformed)
      | Some r \<Rightarrow>
          if Signature r = '''' then Inl (ownerSignatureError ErrOwnerSignatureMalformed)
          else if \<not> is_ok (validateJWKSet K keys) then Inl (ownerSignatureError ErrOwnerSignatureInvalidJWKS)
          else (case profileForVersion (Version r) of
                  None \<Rightarrow> Inl (ownerSignatureError ErrOwnerSignatureMalformed)
                | Some profile \<Rightarrow>
                    (case signatureFormat profile of
                       SignatureFormatDraft01 \<Rightarrow> verifiedDraft01RecordSigningKey K r keys)))"

definition verifyRecordSignatureWithJWKS ::
  "('k, 'p, 'q) jwkLib \<Rightarrow> TXTRecord option \<Rightarrow> 'k list option \<Rightarrow> sdk_error + unit" where
  "verifyRecordSignatureWithJWKS K rec keys = rbind (verifiedRecordSigningKey K rec keys) (\<lambda>_. Inr ())"

section \<open>Validation\<close>

definition validateRecordHTTPSURL :: "(string \<Rightarrow> URL option) \<Rightarrow> string \<Rightarrow> string \<Rightarrow> sdk_error + unit" where
  "validateRecordHTTPSURL urlParse raw tag =
     (case urlParse raw of
        None \<Rightarrow> Inl (ValidationError (''dnsid: '' @ tag @ '' must be an HTTPS URL'') None)
      | Some u \<Rightarrow>
          if urlScheme u \<noteq> ''https'' \<or> urlHostname u = ''''
          then Inl (ValidationError (''dnsid: '' @ tag @ '' must be an HTTPS URL'') None)
          else if urlHasUser u then Inl (ValidationError (''dnsid: '' @ tag @ '' must not include userinfo'') None)
          else Inr ())"

text \<open>The host name of a URL that has been validated.\<close>

definition hostOf :: "(string \<Rightarrow> URL option) \<Rightarrow> string \<Rightarrow> string" where
  "hostOf urlParse raw = (case urlParse raw of None \<Rightarrow> '''' | Some u \<Rightarrow> urlHostname u)"

record nameLib =
  nlParse :: "string \<Rightarrow> URL option"
  nlToASCII :: "string \<Rightarrow> string option"
  nlEqFold :: "string \<Rightarrow> string \<Rightarrow> bool"
  nlToLower :: "string \<Rightarrow> string"

definition validateWithSignatureRequirement ::
  "nameLib \<Rightarrow> TXTRecord option \<Rightarrow> string \<Rightarrow> bool \<Rightarrow> sdk_error + unit" where
  "validateWithSignatureRequirement N rec identityFQDN includeSignature =
     (case rec of
        None \<Rightarrow> Inl (ValidationError ''dnsid: nil TXTRecord'' None)
      | Some r \<Rightarrow>
     rbind (validateRequiredTags (Some r) includeSignature) (\<lambda>_.
     rbind (map_err (\<lambda>e. ValidationError '''' (Some e)) (NormalizeFQDN (nlToASCII N) identityFQDN)) (\<lambda>fqdn.
     rbind (validateRecordHTTPSURL (nlParse N) (KeyURI r) ''ku'') (\<lambda>_.
     rbind (validateRecordHTTPSURL (nlParse N) (StatusURI r) ''su'') (\<lambda>_.
     rbind (map_err (\<lambda>e. ValidationError ''dnsid: malformed log reference'' None) (ParseLogRef (LogRef r))) (\<lambda>_.
     rbind (if Capabilities r \<noteq> '''' then validateRecordHTTPSURL (nlParse N) (Capabilities r) ''cu'' else Inr ()) (\<lambda>_.
     rbind (check (nlEqFold N (hostOf (nlParse N) (KeyURI r)) fqdn)
              (ValidationError ''dnsid: ku host must equal identity FQDN'' None)) (\<lambda>_.
     rbind (validateRecordHTTPSURL (nlParse N) (EntityKeyURI r) ''ek'') (\<lambda>_.
     let gi = TrimSpace (GovernanceID r) in
     rbind (check (isDomainName gi) (ValidationError ''dnsid: gi must be a domain name'' None)) (\<lambda>_.
     rbind (map_err (\<lambda>e. ValidationError '''' (Some e)) (NormalizeFQDN (nlToASCII N) gi)) (\<lambda>giDomain.
     rbind (check (gi = giDomain) (ValidationError ''dnsid: gi must be lowercase ASCII in A-label form'' None)) (\<lambda>_.
     rbind (check (isDomainOrSubdomain (nlToLower N (hostOf (nlParse N) (EntityKeyURI r))) giDomain)
              (ValidationError ''dnsid: ek host must be at or under gi domain'' None)) (\<lambda>_.
     check (KeyAge r = '''' \<or> KeyAge r \<in> set ValidKeyAgeValues) (ValidationError ''dnsid: invalid ka value'' None))))))))))))))"

definition record_Validate :: "nameLib \<Rightarrow> TXTRecord option \<Rightarrow> string \<Rightarrow> sdk_error + unit" where
  "record_Validate N r identityFQDN = validateWithSignatureRequirement N r identityFQDN True"

definition validateUnsigned :: "nameLib \<Rightarrow> TXTRecord option \<Rightarrow> string \<Rightarrow> sdk_error + unit" where
  "validateUnsigned N r identityFQDN = validateWithSignatureRequirement N r identityFQDN False"

definition sample_keys :: "(nat, nat, nat) jwkLib" where
  "sample_keys = \<lparr>jkThumb = (\<lambda>k. Some (replicate 32 (char_of k))), jkKid = (\<lambda>k. Some (''k'' @ [char_of (48 + k)])),
     jkUse = (\<lambda>_. None), jkAlg = (\<lambda>_. Some ''EdDSA''), jkOps = (\<lambda>_. None), jkType = (\<lambda>_. keyTypeOKP),
     jkCrv = (\<lambda>_. Some ''Ed25519''), jkPrivate = (\<lambda>_. Some False), jkMarshal = (\<lambda>_. None), jkParse = (\<lambda>_. None),
     jkEd25519 = (\<lambda>k. Some (replicate 32 (char_of (7 + k)))), jkECDSA = (\<lambda>_. None),
     jkEd25519Verify = (\<lambda>pub msg sig. hd sig = hd pub), jkEC = sample_ecdsa\<rparr>"

definition sample_sig :: bytes where
  "sample_sig = replicate 64 (char_of (9::nat))"

definition sample_signed :: TXTRecord where
  "sample_signed = sample_record\<lparr>Signature := RawURLEncode sample_sig\<rparr>"

definition sample_urls :: nameLib where
  "sample_urls = \<lparr>nlParse = (\<lambda>raw. Some \<lparr>urlScheme = ''https'', urlHost = '''', urlHasUser = False, urlEscapedPath = '''',
       urlHostname = takeWhile (\<lambda>c. c \<noteq> CHR ''/'') (drop 8 raw), urlPort = ''''\<rparr>),
     nlToASCII = sample_toASCII, nlEqFold = (=), nlToLower = ascii_lower\<rparr>"

section \<open>Lemmas\<close>

text \<open>
  C2. An owner signature is accepted only from the one key that may make it. The key returned is in
  the entity's key set and is the set's only key eligible to sign; it has a key id, no two keys of
  the set share one, its algorithm is EdDSA or ES256 and fits its type; and the signature it
  verifies is over the canonical content of the record: for EdDSA under a canonical public key
  that is not of small order, for ES256 under a point of the curve with both numbers in range.
\<close>
theorem owner_signature_sound:
  assumes "verifiedRecordSigningKey K (Some r) keys = Inr key"
  shows "\<exists>ks sig. keys = Some ks \<and> filter (signingKeyEligible K) ks = [key] \<and> distinct (keyKids K ks)
    \<and> (\<exists>kid. jkKid K key = Some kid \<and> kid \<noteq> '''') \<and> RawURLDecode (Signature r) = Some sig
    \<and> (jkAlg K key = Some JoseAlgEdDSA \<and> jkType K key = keyTypeOKP \<and> length sig = 64
         \<and> (\<exists>pub. jkEd25519 K key = Some pub \<and> ValidEd25519PublicKey pub
               \<and> jkEd25519Verify K pub (CanonicalContent r) sig)
       \<or> jkAlg K key = Some JoseAlgES256 \<and> jkType K key = keyTypeEC \<and> ValidES256Signature sig
         \<and> (\<exists>pub. jkECDSA K key = Some pub \<and> ecOnP256 (jkEC K) pub
               \<and> ecVerify (jkEC K) pub (ecSha256 (jkEC K) (CanonicalContent r)) (fst (ES256RawRS sig)) (snd (ES256RawRS sig))))"
proof -
  from assms have v: "is_ok (validateJWKSet K keys)" "verifiedDraft01RecordSigningKey K r keys = Inr key"
    by (auto simp: verifiedRecordSigningKey_def split: if_splits option.splits identityRecordSignatureFormat.splits)
  from v(1) obtain ks where ks: "keys = Some ks" by (auto simp: validateJWKSet_def split: option.splits)
  with v(1) have d: "distinct (keyKids K ks)" using validateJWKSet_ok(1) by (auto simp: is_ok_iff)
  from v(2) have s: "singleDraft01SigningKey K keys = Inr key"
    by (auto simp: verifiedDraft01RecordSigningKey_def Let_def split: sum.splits option.splits if_splits)
  then have f: "filter (signingKeyEligible K) ks = [key]"
    unfolding ks by (auto simp: singleDraft01SigningKey_def singleCurrentSigningKey_def rbind_Inr_iff
        split: list.splits if_splits option.splits)
  from s obtain alg where alg: "jkAlg K key = Some alg" "joseAlg_Valid alg" "algForJWK K (Some key) = Some alg"
    and kid: "jkKid K key \<noteq> None" "jkKid K key \<noteq> Some ''''"
    by (auto simp: singleDraft01SigningKey_def rbind_Inr_iff jwkAlg_def split: if_splits option.splits)
  from v(2) s alg obtain sig where sig: "RawURLDecode (Signature r) = Some sig"
    and len: "alg = JoseAlgEdDSA \<Longrightarrow> length sig = 64" "alg = JoseAlgES256 \<Longrightarrow> ValidES256Signature sig"
    and ver: "verifyRecordSignatureWithKey K r \<lparr>psAlg = alg, psSignature = sig\<rparr> key"
    by (auto simp: verifiedDraft01RecordSigningKey_def Let_def jwkAlg_def split: option.splits if_splits)
  show ?thesis
  proof (cases "alg = JoseAlgEdDSA")
    case True
    with ver obtain pub where "jkEd25519 K key = Some pub" "VerifyEd25519 (jkEd25519Verify K) pub (CanonicalContent r) sig"
      by (auto simp: verifyRecordSignatureWithKey_def exportEd25519PublicKey_def split: sum.splits option.splits if_splits)
    moreover have "jkType K key = keyTypeOKP" using alg(3) True by (auto simp: algForJWK_def split: if_splits)
    ultimately show ?thesis using ks d f kid sig len alg True by (auto simp: VerifyEd25519_def)
  next
    case False
    with alg(2) have es: "alg = JoseAlgES256" by (simp add: joseAlg_Valid_def)
    with ver obtain pub where p: "jkECDSA K key = Some pub" "VerifyES256 (jkEC K) (Some pub) (CanonicalContent r) sig"
      by (auto simp: verifyRecordSignatureWithKey_def exportES256PublicKey_def rbind_Inr_iff split: sum.splits option.splits)
    then have "ecOnP256 (jkEC K) pub" "ecVerify (jkEC K) pub (ecSha256 (jkEC K) (CanonicalContent r)) (fst (ES256RawRS sig)) (snd (ES256RawRS sig))"
      by (auto simp: VerifyES256_def ValidateP256PublicKey_def split: sum.splits if_splits option.splits)
    moreover have "jkType K key = keyTypeEC" using alg(3) es by (auto simp: algForJWK_def split: if_splits)
    ultimately show ?thesis using ks d f kid sig len alg es p(1) by auto
  qed
qed


theorem owner_signature_sound_witness:
  "\<exists>sig. RawURLDecode (Signature sample_signed) = Some sig \<and> length sig = 64"
proof -
  have "profileForVersion (Version sample_signed) = Some draft01Profile" "\<not> ContainsAny (Signature sample_signed) '':=''"
    "Signature sample_signed \<noteq> ''''" "length sample_sig = 64" "ValidEd25519PublicKey (replicate 32 (char_of (9::nat)))"
    "hd sample_sig = char_of (9::nat)"
    by code_simp+
  moreover from this have "validateJWKSet sample_keys (Some [2]) = Inr ()" "singleDraft01SigningKey sample_keys (Some [2]) = Inr 2"
    "jkAlg sample_keys 2 = Some JoseAlgEdDSA"
    "verifyRecordSignatureWithKey sample_keys sample_signed \<lparr>psAlg = JoseAlgEdDSA, psSignature = sample_sig\<rparr> 2"
    by (simp_all add: sample_keys_def validateJWKSet_def validateJWKUse_def validateJWKAlgConsistency_def keyUse_def algForJWK_def
        jwkAlg_def jwkCurve_def joseAlg_Valid_def singleDraft01SigningKey_def singleCurrentSigningKey_def signingKeyEligible_def
        verifyRecordSignatureWithKey_def exportEd25519PublicKey_def VerifyEd25519_def)
  moreover have "RawURLDecode (Signature sample_signed) = Some sample_sig" by (simp add: sample_signed_def)
  ultimately have "verifiedRecordSigningKey sample_keys (Some sample_signed) (Some [2]) = Inr 2"
    by (simp add: verifiedRecordSigningKey_def draft01Profile_def verifiedDraft01RecordSigningKey_def jwkAlg_def
        del: ContainsAny_iff)
  from owner_signature_sound [OF this] show ?thesis by (auto simp: sample_keys_def)
qed


end
