(* ===== verification/Canonical_Json.thy ===== *)
theory Canonical_Json
  imports Sdk_Errors Go_Strconv Go_Unicode
begin

text \<open>
  Canonical JSON of lifecycle events (\<open>log/c2sptlog/json.go\<close>): the bytes that signatures and
  hashes of the log binding are computed over.

  A value is what \<open>any\<close> holds there: a \<open>json.Number\<close> is its text and the Go integers are one
  constructor. The conversion of a number's text to a \<open>float64\<close> and the text \<open>encoding/json\<close>
  prints for it are parameters. An object is an association list with distinct keys.

  The lemmas show that canonical bytes determine the value, up to the order of members and the
  spelling of numbers.
\<close>

section \<open>Strings\<close>

definition hexDigit :: "nat \<Rightarrow> char" where
  "hexDigit n = ''0123456789abcdef'' ! n"

text \<open>
  \<open>writeCanonicalString\<close>. The runes that are escaped are ASCII, and a valid rune from 0x80 is
  written back as the bytes it was read from, so that the loop is a map over the bytes.
\<close>

definition escapeByte :: "char \<Rightarrow> string" where
  "escapeByte c =
     (if c = CHR 0x22 \<or> c = CHR 0x5C then [CHR 0x5C, c]
      else if c = CHR 0x08 then [CHR 0x5C, CHR ''b'']
      else if c = CHR 0x09 then [CHR 0x5C, CHR ''t'']
      else if c = CHR 0x0A then [CHR 0x5C, CHR ''n'']
      else if c = CHR 0x0C then [CHR 0x5C, CHR ''f'']
      else if c = CHR 0x0D then [CHR 0x5C, CHR ''r'']
      else if c < CHR 0x20 then CHR 0x5C # ''u00'' @ [hexDigit (of_char c div 16), hexDigit (of_char c mod 16)]
      else [c])"

definition writeCanonicalString :: "string \<Rightarrow> sdk_error + string" where
  "writeCanonicalString value =
     (if \<not> ValidString value then Inl (PlainError ''dnsid: invalid UTF-8 string in c2sp-tlog event'' None)
      else Inr (CHR 0x22 # concat (map escapeByte value) @ [CHR 0x22]))"

section \<open>Values\<close>

datatype json =
    JNull
  | JBool bool
  | JString string
  | JNumber string
  | JInt int
  | JArray "json list"
  | JObject "(string \<times> json) list"

text \<open>\<open>float64\<close>: parsing, finiteness, zero and the text \<open>encoding/json\<close> prints.\<close>

record 'f floatLib =
  flParse :: "string \<Rightarrow> 'f option"
  flFinite :: "'f \<Rightarrow> bool"
  flZero :: "'f \<Rightarrow> bool"
  flMarshal :: "'f \<Rightarrow> string"

text \<open>The results of the elements in order, up to the first error.\<close>

fun seqr :: "('a \<Rightarrow> 'e + 'b) \<Rightarrow> 'a list \<Rightarrow> 'e + 'b list" where
  "seqr f [] = Inr []"
| "seqr f (x # xs) = rbind (f x) (\<lambda>y. rbind (seqr f xs) (\<lambda>ys. Inr (y # ys)))"

lemma seqr_cong [fundef_cong]:
  "\<lbrakk>xs = ys; \<And>x. x \<in> set ys \<Longrightarrow> f x = g x\<rbrakk> \<Longrightarrow> seqr f xs = seqr g ys"
  by (induction ys arbitrary: xs) auto

abbreviation "maxJSONInteger \<equiv> (9007199254740991::int)"

fun rejectUnsupportedJSON :: "'f floatLib \<Rightarrow> json \<Rightarrow> sdk_error + unit" where
  "rejectUnsupportedJSON L JNull = Inr ()"
| "rejectUnsupportedJSON L (JBool b) = Inr ()"
| "rejectUnsupportedJSON L (JString s) = Inr ()"
| "rejectUnsupportedJSON L (JNumber t) =
     (case flParse L t of
        None \<Rightarrow> Inl (PlainError ''dnsid: invalid JSON number in c2sp-tlog event'' None)
      | Some x \<Rightarrow> if \<not> flFinite L x then Inl (PlainError ''dnsid: non-finite JSON number in c2sp-tlog event'' None)
                  else Inr ())"
| "rejectUnsupportedJSON L (JInt i) =
     (if i < - maxJSONInteger \<or> i > maxJSONInteger
      then Inl (PlainError ''dnsid: JSON integer outside safe range in c2sp-tlog event'' None) else Inr ())"
| "rejectUnsupportedJSON L (JArray vs) = rbind (seqr (\<lambda>v. rejectUnsupportedJSON L v) vs) (\<lambda>_. Inr ())"
| "rejectUnsupportedJSON L (JObject m) = rbind (seqr (\<lambda>kv. rejectUnsupportedJSON L (snd kv)) m) (\<lambda>_. Inr ())"

definition FormatInt :: "int \<Rightarrow> string" where
  "FormatInt i = (if i < 0 then CHR ''-'' # FormatUint (nat (- i)) else FormatUint (nat i))"

text \<open>\<open>sortedKeys\<close>, with the values: the members in the order of the UTF-16 code units of the keys.\<close>

definition sortedKeys :: "(string \<times> 'v) list \<Rightarrow> (string \<times> 'v) list" where
  "sortedKeys m = sort_key (\<lambda>kv. utf16 (fst kv)) m"

lemma sortedKeys_set [simp]: "set (sortedKeys m) = set m"
  by (simp add: sortedKeys_def)

lemma json_member_size: "kv \<in> set m \<Longrightarrow> size (snd kv) < size (JObject m)"
  by (induction m) auto

lemma json_item_size: "v \<in> set vs \<Longrightarrow> size v < size (JArray vs)"
  by (induction vs) auto

function writeCanonicalJSON :: "'f floatLib \<Rightarrow> json \<Rightarrow> sdk_error + string" where
  "writeCanonicalJSON L JNull = Inr ''null''"
| "writeCanonicalJSON L (JBool b) = Inr (if b then ''true'' else ''false'')"
| "writeCanonicalJSON L (JString s) = writeCanonicalString s"
| "writeCanonicalJSON L (JNumber t) =
     (case flParse L t of
        None \<Rightarrow> Inl (PlainError ''json: invalid number'' None)
      | Some x \<Rightarrow> Inr (if flZero L x then ''0'' else flMarshal L x))"
| "writeCanonicalJSON L (JInt i) = Inr (FormatInt i)"
| "writeCanonicalJSON L (JArray vs) =
     rbind (seqr (\<lambda>v. writeCanonicalJSON L v) vs) (\<lambda>parts. Inr (''['' @ Join parts '','' @ '']''))"
| "writeCanonicalJSON L (JObject m) =
     rbind (seqr (\<lambda>kv. rbind (writeCanonicalString (fst kv)) (\<lambda>key.
                   rbind (writeCanonicalJSON L (snd kv)) (\<lambda>val. Inr (key @ '':'' @ val)))) (sortedKeys m))
       (\<lambda>parts. Inr (''{'' @ Join parts '','' @ ''}''))"
  by pat_completeness auto
termination
  by (relation "measure (\<lambda>(L, v). size v)") (auto simp: json_item_size json_member_size simp del: json.size)

definition canonicalJSON :: "'f floatLib \<Rightarrow> json \<Rightarrow> sdk_error + bytes" where
  "canonicalJSON L v = rbind (rejectUnsupportedJSON L v) (\<lambda>_. writeCanonicalJSON L v)"

section \<open>Reference definitions\<close>

text \<open>
  What canonical bytes determine: the value with the members of its objects in canonical order
  and its numbers as they are printed. \<open>numChar\<close>: the characters of a number.
\<close>

definition numberText :: "'f floatLib \<Rightarrow> string \<Rightarrow> string" where
  "numberText L t = (case flParse L t of None \<Rightarrow> t | Some x \<Rightarrow> if flZero L x then ''0'' else flMarshal L x)"

function jnorm :: "'f floatLib \<Rightarrow> json \<Rightarrow> json" where
  "jnorm L JNull = JNull"
| "jnorm L (JBool b) = JBool b"
| "jnorm L (JString s) = JString s"
| "jnorm L (JNumber t) = JNumber (numberText L t)"
| "jnorm L (JInt i) = JNumber (FormatInt i)"
| "jnorm L (JArray vs) = JArray (map (\<lambda>v. jnorm L v) vs)"
| "jnorm L (JObject m) = JObject (map (\<lambda>kv. (fst kv, jnorm L (snd kv))) (sortedKeys m))"
  by pat_completeness auto
termination
  by (relation "measure (\<lambda>(L, v). size v)") (auto simp: json_item_size json_member_size simp del: json.size)

definition numChar :: "char \<Rightarrow> bool" where
  "numChar c = (isASCIIDigit c \<or> c \<in> set ''+-.eE'')"

definition floatTexts :: "'f floatLib \<Rightarrow> bool" where
  "floatTexts L = (\<forall>x. flMarshal L x \<noteq> [] \<and> list_all numChar (flMarshal L x))"

definition stop :: "string \<Rightarrow> bool" where
  "stop r = (r = [] \<or> \<not> numChar (hd r))"

text \<open>No text of \<open>f\<close> but that of a related value is a prefix of the text of \<open>x\<close> up to a stop.\<close>

definition pfree :: "('a \<Rightarrow> sdk_error + string) \<Rightarrow> ('a \<Rightarrow> 'a \<Rightarrow> bool) \<Rightarrow> 'a \<Rightarrow> bool" where
  "pfree f R x =
     (\<forall>y a b r r'. f x = Inr a \<and> f y = Inr b \<and> a @ r = b @ r' \<and> stop r \<and> stop r' \<longrightarrow> R x y \<and> r = r')"

text \<open>The kind of a value and of the first character of its text.\<close>

fun kindOf :: "json \<Rightarrow> nat" where
  "kindOf JNull = 2" | "kindOf (JBool b) = 3" | "kindOf (JString s) = 1" | "kindOf (JNumber t) = 0"
| "kindOf (JInt i) = 0" | "kindOf (JArray vs) = 4" | "kindOf (JObject m) = 5"

definition firstKind :: "char \<Rightarrow> nat" where
  "firstKind c = (if c = CHR 0x22 then 1 else if c = CHR ''n'' then 2 else if c = CHR ''t'' \<or> c = CHR ''f'' then 3
     else if c = CHR ''['' then 4 else if c = CHR ''{'' then 5 else if numChar c then 0 else 6)"

fun hexValue :: "char \<Rightarrow> nat" where
  "hexValue c = (if c \<le> CHR ''9'' then of_char c - 48 else of_char c - 87)"

fun unescape :: "string \<Rightarrow> (char \<times> string) option" where
  "unescape [] = None"
| "unescape (c # s) =
     (if c \<noteq> CHR 0x5C then Some (c, s)
      else (case s of
              [] \<Rightarrow> None
            | d # s' \<Rightarrow>
                if d = CHR ''u'' then Some (char_of (16 * hexValue (s' ! 2) + hexValue (s' ! 3)), drop 4 s')
                else Some (if d = CHR ''b'' then CHR 0x08 else if d = CHR ''t'' then CHR 0x09
                           else if d = CHR ''n'' then CHR 0x0A else if d = CHR ''f'' then CHR 0x0C
                           else if d = CHR ''r'' then CHR 0x0D else d, s')))"

definition sample_float :: "int floatLib" where
  "sample_float = \<lparr>flParse = (\<lambda>t. map_option int (ParseUint t 16)), flFinite = (\<lambda>_. True), flZero = (\<lambda>x. x = 0), flMarshal = FormatInt\<rparr>"

section \<open>Lemmas\<close>

subsection \<open>Escapes\<close>

lemma hexValue_digit: "n < 16 \<Longrightarrow> hexValue (hexDigit n) = n"
proof -
  have "list_all (\<lambda>d. hexValue (hexDigit d) = d) [0..<16]" by code_simp
  then show "n < 16 \<Longrightarrow> ?thesis" by (simp add: list_all_iff)
qed

lemma unescape_control:
  assumes "c < CHR 0x20"
  shows "unescape (CHR 0x5C # ''u00'' @ [hexDigit (of_char c div 16), hexDigit (of_char c mod 16)] @ u) = Some (c, u)"
proof -
  have "of_char c < (32::nat)" using assms by (simp add: less_char_def)
  then have "of_char c div 16 < (16::nat)" by simp
  moreover have "char_of (16 * (of_char c div 16) + of_char c mod (16::nat)) = c" by simp
  ultimately show ?thesis by (simp add: hexValue_digit del: hexValue.simps)
qed

lemma unescape_escape: "unescape (escapeByte c @ u) = Some (c, u)"
proof (cases "c \<in> {CHR 0x22, CHR 0x5C, CHR 0x08, CHR 0x09, CHR 0x0A, CHR 0x0C, CHR 0x0D}")
  case True
  then show ?thesis by (elim insertE emptyE) (simp_all add: escapeByte_def)
next
  case False
  then have n: "c \<noteq> CHR 0x22" "c \<noteq> CHR 0x5C" "c \<noteq> CHR 0x08" "c \<noteq> CHR 0x09" "c \<noteq> CHR 0x0A" "c \<noteq> CHR 0x0C" "c \<noteq> CHR 0x0D"
    by blast+
  show ?thesis
  proof (cases "c < CHR 0x20")
    case True
    then have "escapeByte c = CHR 0x5C # ''u00'' @ [hexDigit (of_char c div 16), hexDigit (of_char c mod 16)]"
      unfolding escapeByte_def by (simp only: n simp_thms if_True if_False)
    with unescape_control [OF True, of u] show ?thesis by simp
  next
    case False
    then have "escapeByte c = [c]"
      unfolding escapeByte_def by (simp only: n simp_thms if_True if_False)
    with n(2) show ?thesis by simp
  qed
qed

lemma escape_prefix: "escapeByte c @ u = escapeByte d @ v \<Longrightarrow> c = d \<and> u = v"
  by (metis option.inject prod.inject unescape_escape)

lemma escape_first: "escapeByte c @ u \<noteq> CHR 0x22 # v"
proof
  assume "escapeByte c @ u = CHR 0x22 # v"
  then have "Some (c, u) = unescape (CHR 0x22 # v)" by (metis unescape_escape)
  then have "c = CHR 0x22" by simp
  with \<open>escapeByte c @ u = CHR 0x22 # v\<close> show False by (simp add: escapeByte_def)
qed

lemma string_prefix:
  "concat (map escapeByte x) @ CHR 0x22 # u = concat (map escapeByte y) @ CHR 0x22 # v \<Longrightarrow> x = y \<and> u = v"
proof (induction x arbitrary: y)
  case Nil
  then show ?case by (cases y) (simp_all, metis escape_first)
next
  case (Cons c x)
  show ?case
  proof (cases y)
    case Nil
    with Cons.prems show ?thesis by (simp, metis escape_first)
  next
    case (Cons d y')
    with Cons.prems have "escapeByte c @ concat (map escapeByte x) @ CHR 0x22 # u
        = escapeByte d @ concat (map escapeByte y') @ CHR 0x22 # v" by simp
    from escape_prefix [OF this] Cons.IH [of y'] Cons show ?thesis by simp
  qed
qed

lemma writeCanonicalString_prefix:
  assumes "writeCanonicalString x = Inr a" "writeCanonicalString y = Inr b" "a @ u = b @ v"
  shows "x = y \<and> u = v"
  using assms string_prefix [of x u y v] by (auto simp: writeCanonicalString_def split: if_splits)

subsection \<open>Numbers\<close>

lemma FormatUint_numChar: "list_all numChar (FormatUint n)"
  using FormatUint_digits [of n] by (simp add: list_all_iff numChar_def)

lemma FormatInt_numChar: "FormatInt i \<noteq> [] \<and> list_all numChar (FormatInt i)"
  using FormatUint_numChar by (simp add: FormatInt_def numChar_def)

lemma number_prefix:
  assumes "list_all numChar a" "list_all numChar b" "a @ r = b @ r'" "stop r" "stop r'"
  shows "a = b \<and> r = r'"
proof -
  have tw: "takeWhile numChar (x @ y) = x" if "list_all numChar x" "stop y" for x y
    using that by (cases y) (auto simp: takeWhile_append list_all_iff stop_def)
  have "a = b" using tw [OF assms(1,4)] tw [OF assms(2,5)] assms(3) by simp
  with assms(3) show ?thesis by simp
qed

text \<open>The text of a number, and the first character of any text.\<close>

lemma numChar_0: "list_all numChar ''0''"
  by (simp add: numChar_def isASCIIDigit_def)

lemma number_text:
  assumes "floatTexts L" "kindOf v = 0" "writeCanonicalJSON L v = Inr a"
  shows "jnorm L v = JNumber a \<and> a \<noteq> [] \<and> list_all numChar a"
proof (cases v)
  case (JNumber t)
  with assms numChar_0 show ?thesis
    by (cases "flParse L t") (auto simp: numberText_def floatTexts_def split: if_splits)
qed (use assms FormatInt_numChar in auto)

lemma numChar_kind:
  assumes "numChar c"
  shows "firstKind c = 0"
proof -
  have "\<not> numChar d" if "d \<in> {CHR 0x22, CHR ''n'', CHR ''t'', CHR ''f'', CHR ''['', CHR ''{''}" for d
    using that by (elim insertE emptyE) (simp_all add: numChar_def isASCIIDigit_def)
  with assms have "c \<notin> {CHR 0x22, CHR ''n'', CHR ''t'', CHR ''f'', CHR ''['', CHR ''{''}" by blast
  with assms show ?thesis by (simp add: firstKind_def)
qed

lemma firstKind_simps [simp]:
  "firstKind CHR 0x22 = 1" "firstKind CHR ''n'' = 2" "firstKind CHR ''t'' = 3" "firstKind CHR ''f'' = 3"
  "firstKind CHR ''['' = 4" "firstKind CHR ''{'' = 5"
  by (simp_all add: firstKind_def)

lemma first_kind:
  assumes "floatTexts L" "writeCanonicalJSON L v = Inr a"
  shows "a \<noteq> [] \<and> firstKind (hd a) = kindOf v"
proof (cases "kindOf v = 0")
  case True
  from number_text [OF assms(1) True assms(2)] True show ?thesis
    using numChar_kind by (cases a) auto
next
  case False
  with assms(2) show ?thesis
    by (cases v) (auto simp: writeCanonicalString_def rbind_Inr_iff split: if_splits)
qed

subsection \<open>Lists of texts\<close>

lemma Join_tail: "Join (p # ps) '','' = p @ concat (map (\<lambda>p. CHR '','' # p) ps)"
  by (induction ps arbitrary: p) auto

lemma stop_simps [simp]: "stop (CHR '','' # r)" "stop (CHR '']'' # r)" "stop (CHR ''}'' # r)"
  by (simp_all add: stop_def numChar_def isASCIIDigit_def)

lemma tail_prefix:
  assumes "list_all (pfree f R) xs"
    and "e \<in> {CHR '']'', CHR ''}''}"
    and "seqr f xs = Inr ps" "seqr f ys = Inr qs"
    and "concat (map (\<lambda>p. CHR '','' # p) ps) @ e # r = concat (map (\<lambda>p. CHR '','' # p) qs) @ e # r'"
  shows "list_all2 R xs ys \<and> r = r'"
  using assms
proof (induction xs arbitrary: ys ps qs)
  case Nil
  then show ?case by (cases ys) (auto simp: rbind_Inr_iff)
next
  case (Cons x xs)
  from Cons.prems(3) obtain p ps' where ps: "f x = Inr p" "seqr f xs = Inr ps'" "ps = p # ps'"
    by (auto simp: rbind_Inr_iff)
  show ?case
  proof (cases ys)
    case Nil
    with Cons.prems ps show ?thesis by auto
  next
    case (Cons y ys')
    with Cons.prems(4) obtain q qs' where qs: "f y = Inr q" "seqr f ys' = Inr qs'" "qs = q # qs'"
      by (auto simp: rbind_Inr_iff)
    let ?t = "\<lambda>ps r. concat (map (\<lambda>p. CHR '','' # p) ps) @ e # r"
    have st: "stop (?t l r)" for l r using Cons.prems(2) by (cases l) auto
    have "p @ ?t ps' r = q @ ?t qs' r'" using Cons.prems(5) ps qs by simp
    then have "R x y \<and> ?t ps' r = ?t qs' r'"
      using Cons.prems(1) ps(1) qs(1) st by (simp add: pfree_def) blast
    with Cons.IH [OF _ Cons.prems(2) ps(2) qs(2)] Cons.prems(1) show ?thesis
      by (simp add: \<open>ys = y # ys'\<close>)
  qed
qed

lemma join_prefix:
  assumes pref: "list_all (pfree f R) xs"
    and first: "\<And>x a. f x = Inr a \<Longrightarrow> a \<noteq> [] \<and> hd a \<noteq> e"
    and e: "e \<in> {CHR '']'', CHR ''}''}"
    and "seqr f xs = Inr ps" "seqr f ys = Inr qs"
    and "Join ps '','' @ e # r = Join qs '','' @ e # r'"
  shows "list_all2 R xs ys \<and> r = r'"
proof (cases xs)
  case Nil
  show ?thesis
  proof (cases ys)
    case (Cons y ys')
    with assms(5) obtain q qs' where "f y = Inr q" "qs = q # qs'" by (auto simp: rbind_Inr_iff)
    with first [of y q] assms(4,6) Nil show ?thesis by (cases q) (auto simp: Join_tail)
  qed (use Nil assms in auto)
next
  case (Cons x xs')
  with assms(4) obtain p ps' where ps: "f x = Inr p" "seqr f xs' = Inr ps'" "ps = p # ps'"
    by (auto simp: rbind_Inr_iff)
  show ?thesis
  proof (cases ys)
    case Nil
    with first [of x p] assms(5,6) ps show ?thesis by (cases p) (auto simp: Join_tail)
  next
    case (Cons y ys')
    with assms(5) obtain q qs' where qs: "f y = Inr q" "seqr f ys' = Inr qs'" "qs = q # qs'"
      by (auto simp: rbind_Inr_iff)
    let ?t = "\<lambda>ps r. concat (map (\<lambda>p. CHR '','' # p) ps) @ e # r"
    have st: "stop (?t l r)" for l r using e by (cases l) auto
    have "p @ ?t ps' r = q @ ?t qs' r'" using assms(6) ps qs by (simp add: Join_tail)
    then have 1: "R x y \<and> ?t ps' r = ?t qs' r'"
      using pref ps(1) qs(1) st \<open>xs = x # xs'\<close> by (simp add: pfree_def) blast
    have "list_all2 R xs' ys' \<and> r = r'"
      by (rule tail_prefix [OF _ e ps(2) qs(2)]) (use pref \<open>xs = x # xs'\<close> 1 in auto)
    with 1 show ?thesis by (simp add: \<open>xs = x # xs'\<close> \<open>ys = y # ys'\<close>)
  qed
qed

subsection \<open>Canonical bytes determine the value\<close>

lemma write_pfree:
  assumes L: "floatTexts L"
  shows "pfree (writeCanonicalJSON L) (\<lambda>v v'. jnorm L v = jnorm L v') v"
proof (induction v rule: measure_induct_rule [of size])
  case (less v)
  have "jnorm L v = jnorm L v' \<and> r = r'"
    if w: "writeCanonicalJSON L v = Inr a" "writeCanonicalJSON L v' = Inr b" "a @ r = b @ r'" "stop r" "stop r'" for v' a b r r'
  proof -
    have "hd a = hd b"
      using first_kind [OF L w(1)] first_kind [OF L w(2)] w(3) by (metis hd_append2)
    then have k: "kindOf v' = kindOf v"
      using first_kind [OF L w(1)] first_kind [OF L w(2)] by simp
    consider "kindOf v = 0" | s where "v = JString s" | "v = JNull" | c where "v = JBool c"
      | vs where "v = JArray vs" | m where "v = JObject m"
      by (cases v) auto
    then show ?thesis
    proof cases
      case 1
      with number_text [OF L _ w(1)] number_text [OF L _ w(2)] k number_prefix w show ?thesis by metis
    next
      case (2 s)
      with k obtain s' where "v' = JString s'" by (cases v') auto
      with 2 w writeCanonicalString_prefix [of s a s' b r r'] show ?thesis by simp
    next
      case 3
      with k have "v' = JNull" by (cases v') auto
      with 3 w show ?thesis by simp
    next
      case (4 c)
      with k obtain c' where "v' = JBool c'" by (cases v') auto
      with 4 w show ?thesis by (cases c; cases c') auto
    next
      case (5 vs)
      with k obtain vs' where v': "v' = JArray vs'" by (cases v') auto
      obtain ps qs where ps: "seqr (writeCanonicalJSON L) vs = Inr ps" "seqr (writeCanonicalJSON L) vs' = Inr qs"
        "Join ps '','' @ CHR '']'' # r = Join qs '','' @ CHR '']'' # r'"
        using w(1-3) by (auto simp: 5 v' rbind_Inr_iff)
      have "list_all2 (\<lambda>v v'. jnorm L v = jnorm L v') vs vs' \<and> r = r'"
      proof (rule join_prefix [OF _ _ _ ps])
        show "list_all (pfree (writeCanonicalJSON L) (\<lambda>v v'. jnorm L v = jnorm L v')) vs"
          using less.IH 5 by (auto simp: list_all_iff json_item_size simp del: json.size)
        show "t \<noteq> [] \<and> hd t \<noteq> CHR '']''" if "writeCanonicalJSON L x = Inr t" for x t
          using first_kind [OF L that] by (cases x) (auto simp: firstKind_def numChar_def isASCIIDigit_def)
      qed simp
      then show ?thesis by (simp add: 5 v' list_all2_conv_all_nth list_eq_iff_nth_eq)
    next
      case (6 m)
      with k obtain m' where v': "v' = JObject m'" by (cases v') auto
      let ?f = "\<lambda>kv. rbind (writeCanonicalString (fst kv)) (\<lambda>key.
                   rbind (writeCanonicalJSON L (snd kv)) (\<lambda>val. Inr (key @ '':'' @ val)))"
      let ?R = "\<lambda>kv kv'. fst kv = fst kv' \<and> jnorm L (snd kv) = jnorm L (snd kv')"
      obtain ps qs where ps: "seqr ?f (sortedKeys m) = Inr ps" "seqr ?f (sortedKeys m') = Inr qs"
        "Join ps '','' @ CHR ''}'' # r = Join qs '','' @ CHR ''}'' # r'"
        using w(1-3) by (auto simp: 6 v' rbind_Inr_iff)
      have "list_all2 ?R (sortedKeys m) (sortedKeys m') \<and> r = r'"
      proof (rule join_prefix [OF _ _ _ ps])
        have "?R kv kv' \<and> u = u'" if "kv \<in> set m" "?f kv = Inr x" "?f kv' = Inr y" "x @ u = y @ u'" "stop u" "stop u'"
          for kv kv' x y u u'
        proof -
          from that(2) obtain key val where f: "writeCanonicalString (fst kv) = Inr key" "writeCanonicalJSON L (snd kv) = Inr val"
            "x = key @ CHR '':'' # val" by (auto simp: rbind_Inr_iff)
          from that(3) obtain key' val' where f': "writeCanonicalString (fst kv') = Inr key'" "writeCanonicalJSON L (snd kv') = Inr val'"
            "y = key' @ CHR '':'' # val'" by (auto simp: rbind_Inr_iff)
          have "fst kv = fst kv' \<and> CHR '':'' # val @ u = CHR '':'' # val' @ u'"
            using that(4) f f' by (intro writeCanonicalString_prefix [OF f(1) f'(1)]) simp
          moreover have "pfree (writeCanonicalJSON L) (\<lambda>v v'. jnorm L v = jnorm L v') (snd kv)"
            using less.IH json_member_size [OF that(1)] 6 by simp
          ultimately show ?thesis
            using that(5,6) f(2) f'(2) unfolding pfree_def by (metis list.inject)
        qed
        then show "list_all (pfree ?f ?R) (sortedKeys m)"
          unfolding pfree_def list_all_iff sortedKeys_set by blast
        show "t \<noteq> [] \<and> hd t \<noteq> CHR ''}''" if "?f x = Inr t" for x t
          using that by (auto simp: rbind_Inr_iff writeCanonicalString_def split: if_splits)
      qed simp
      then show ?thesis by (simp add: 6 v' list_all2_conv_all_nth list_eq_iff_nth_eq)
    qed
  qed
  then show ?case unfolding pfree_def by blast
qed

lemma write_binds:
  assumes "floatTexts L" "writeCanonicalJSON L v = Inr bs" "writeCanonicalJSON L v' = Inr bs"
  shows "jnorm L v = jnorm L v'"
  using write_pfree [OF assms(1), of v] assms(2,3) unfolding pfree_def by (metis stop_def)

text \<open>
  C35. Canonical bytes bind the value (\<open>canonicalJSON\<close>): two values with the same canonical bytes
  are the same up to the order of the members of their objects and the spelling of their
  numbers, whatever strings they hold; so a signature or hash over the bytes is one over the
  value. \<open>floatTexts\<close>: \<open>encoding/json\<close> prints a number as digits, signs, point and exponent.
\<close>
theorem canonical_json_binds_value:
  assumes "floatTexts L" and "canonicalJSON L v = Inr bs" and "canonicalJSON L v' = Inr bs"
  shows "jnorm L v = jnorm L v'"
  using assms write_binds by (auto simp: canonicalJSON_def rbind_Inr_iff)

lemma sample_float_texts: "floatTexts sample_float"
  using FormatInt_numChar by (simp add: floatTexts_def sample_float_def)

theorem canonical_json_binds_value_witness:
  "jnorm sample_float (JObject [(''b'', JInt 7), (''a'', JString ''x'')])
   = jnorm sample_float (JObject [(''a'', JString ''x''), (''b'', JNumber ''07'')])"
  by (rule canonical_json_binds_value [OF sample_float_texts,
        of _ "CHR ''{'' # CHR 0x22 # ''a'' @ CHR 0x22 # CHR '':'' # CHR 0x22 # ''x'' @ CHR 0x22 # CHR '','' # CHR 0x22 # ''b'' @ CHR 0x22 # '':7}''"])
    code_simp+

end
