(* ===== verification/Json_Decode.thy ===== *)
theory Json_Decode
  imports Canonical_Json
begin

text \<open>
  Decoding of JSON objects (\<open>internal/jsonutil\<close>): the token stream of \<open>encoding/json\<close>'s
  \<open>Decoder\<close> with \<open>UseNumber\<close>, and the recursive decoder over it that rejects duplicate members
  and nesting beyond 64 levels.

  A decoder is its unread input, its token state and the stack of enclosing states. The
  recursion is given fuel in proportion to the unread input, of which every level reads a byte,
  and the lemmas show that this fuel is never exhausted. They show further that decoding
  inverts the canonical encoding.
\<close>

section \<open>Scanning\<close>

definition isSpace :: "char \<Rightarrow> bool" where
  "isSpace c = (c \<in> {CHR 0x20, CHR 0x09, CHR 0x0D, CHR 0x0A})"

text \<open>Four hexadecimal digits (\<open>getu4\<close>).\<close>

definition hexVal :: "char \<Rightarrow> nat option" where
  "hexVal c =
     (if isASCIIDigit c then Some (of_char c - 48)
      else if CHR ''a'' \<le> c \<and> c \<le> CHR ''f'' then Some (of_char c - 87)
      else if CHR ''A'' \<le> c \<and> c \<le> CHR ''F'' then Some (of_char c - 55)
      else None)"

fun hex4 :: "string \<Rightarrow> (nat \<times> string) option" where
  "hex4 (a # b # c # d # s) =
     (case (hexVal a, hexVal b, hexVal c, hexVal d) of
        (Some p, Some q, Some u, Some v) \<Rightarrow> Some (((p * 16 + q) * 16 + u) * 16 + v, s)
      | _ \<Rightarrow> None)"
| "hex4 s = None"

text \<open>
  The rune of a \<open>\u\<close> escape and the input after it: a pair of surrogates is one rune, a
  surrogate that is not part of a pair is U+FFFD.
\<close>

definition unicodeEscape :: "string \<Rightarrow> (nat \<times> string) option" where
  "unicodeEscape s =
     (case hex4 s of
        None \<Rightarrow> None
      | Some (hi, s1) \<Rightarrow>
          if \<not> (0xD800 \<le> hi \<and> hi < 0xE000) then Some (hi, s1)
          else if hi < 0xDC00 \<and> HasPrefix s1 [CHR 0x5C, CHR ''u''] then
            (case hex4 (drop 2 s1) of
               None \<Rightarrow> Some (0xFFFD, s1)
             | Some (lo, s2) \<Rightarrow>
                 if 0xDC00 \<le> lo \<and> lo < 0xE000
                 then Some (0x10000 + (hi - 0xD800) * 1024 + (lo - 0xDC00), s2)
                 else Some (0xFFFD, s1))
          else Some (0xFFFD, s1))"

definition simpleEscape :: "char \<Rightarrow> char option" where
  "simpleEscape d =
     (if d = CHR 0x22 \<or> d = CHR 0x5C \<or> d = CHR ''/'' then Some d
      else if d = CHR ''b'' then Some (CHR 0x08)
      else if d = CHR ''f'' then Some (CHR 0x0C)
      else if d = CHR ''n'' then Some (CHR 0x0A)
      else if d = CHR ''r'' then Some (CHR 0x0D)
      else if d = CHR ''t'' then Some (CHR 0x09)
      else None)"

text \<open>The next piece of a string: its bytes and the input after it.\<close>

definition stringPiece :: "char \<Rightarrow> string \<Rightarrow> (string \<times> string) option" where
  "stringPiece c s =
     (if c \<noteq> CHR 0x5C then (if c < CHR 0x20 then None else Some ([c], s))
      else (case s of
              [] \<Rightarrow> None
            | d # s' \<Rightarrow>
                if d = CHR ''u'' then map_option (\<lambda>(r, t). (encodeRune r, t)) (unicodeEscape s')
                else map_option (\<lambda>x. ([x], s')) (simpleEscape d)))"

lemma hex4_shorter: "hex4 s = Some (r, t) \<Longrightarrow> length t < length s"
  by (induction s rule: hex4.induct) (auto split: option.splits)

lemma unicodeEscape_shorter: "unicodeEscape s = Some (r, t) \<Longrightarrow> length t < length s"
  by (auto simp: unicodeEscape_def dest!: hex4_shorter split: option.splits if_splits)

lemma stringPiece_shorter: "stringPiece c s = Some (p, t) \<Longrightarrow> length t \<le> length s"
  by (auto simp: stringPiece_def dest: unicodeEscape_shorter split: if_splits list.splits)

text \<open>The rest of a string literal after its opening quote.\<close>

function stringBody :: "string \<Rightarrow> (string \<times> string) option" where
  "stringBody s =
     (case s of
        [] \<Rightarrow> None
      | c # s' \<Rightarrow>
          if c = CHR 0x22 then Some ([], s')
          else (case stringPiece c s' of
                  None \<Rightarrow> None
                | Some (p, t) \<Rightarrow> map_option (\<lambda>(q, u). (p @ q, u)) (stringBody t)))"
  by pat_completeness auto
termination
  by (relation "measure length") (auto dest: stringPiece_shorter)

declare stringBody.simps [simp del]

text \<open>The longest number at the start of the input.\<close>

definition numSign :: "string \<Rightarrow> string \<times> string" where
  "numSign s = (case s of [] \<Rightarrow> ([], []) | c # r \<Rightarrow> if c = CHR ''-'' then ([c], r) else ([], s))"

definition numInt :: "string \<Rightarrow> (string \<times> string) option" where
  "numInt s =
     (case s of
        [] \<Rightarrow> None
      | c # r \<Rightarrow>
          if c = CHR ''0'' then Some ([c], r)
          else if isASCIIDigit c then Some (takeWhile isASCIIDigit s, dropWhile isASCIIDigit s)
          else None)"

definition numFrac :: "string \<Rightarrow> (string \<times> string) option" where
  "numFrac s =
     (case s of
        [] \<Rightarrow> Some ([], [])
      | c # r \<Rightarrow>
          if c \<noteq> CHR ''.'' then Some ([], s)
          else if takeWhile isASCIIDigit r = [] then None
          else Some (c # takeWhile isASCIIDigit r, dropWhile isASCIIDigit r))"

definition numExp :: "string \<Rightarrow> (string \<times> string) option" where
  "numExp s =
     (case s of
        [] \<Rightarrow> Some ([], [])
      | c # r \<Rightarrow>
          if c \<noteq> CHR ''e'' \<and> c \<noteq> CHR ''E'' then Some ([], s)
          else
            (case r of
               [] \<Rightarrow> None
             | d # r' \<Rightarrow>
                 if d = CHR ''+'' \<or> d = CHR ''-'' then
                   (if takeWhile isASCIIDigit r' = [] then None
                    else Some (c # d # takeWhile isASCIIDigit r', dropWhile isASCIIDigit r'))
                 else if takeWhile isASCIIDigit r = [] then None
                 else Some (c # takeWhile isASCIIDigit r, dropWhile isASCIIDigit r)))"

definition scanNumber :: "string \<Rightarrow> (string \<times> string) option" where
  "scanNumber s =
     (case numInt (snd (numSign s)) of
        None \<Rightarrow> None
      | Some (a, s1) \<Rightarrow>
          (case numFrac s1 of
             None \<Rightarrow> None
           | Some (b, s2) \<Rightarrow>
               (case numExp s2 of
                  None \<Rightarrow> None
                | Some (c, s3) \<Rightarrow> Some (fst (numSign s) @ a @ b @ c, s3))))"

section \<open>Tokens\<close>

datatype token = TDelim char | TValue json

datatype tokenState =
    TokenTopValue | TokenArrayStart | TokenArrayValue | TokenArrayComma
  | TokenObjectStart | TokenObjectKey | TokenObjectColon | TokenObjectValue | TokenObjectComma

record decoder =
  dInput :: string
  dState :: tokenState
  dStack :: "tokenState list"

definition syntaxError :: sdk_error where
  "syntaxError = PlainError ''invalid character'' None"

definition tokenValueAllowed :: "tokenState \<Rightarrow> bool" where
  "tokenValueAllowed st = (st \<in> {TokenTopValue, TokenArrayStart, TokenArrayValue, TokenObjectValue})"

definition tokenValueEnd :: "tokenState \<Rightarrow> tokenState" where
  "tokenValueEnd st =
     (if st = TokenArrayStart \<or> st = TokenArrayValue then TokenArrayComma
      else if st = TokenObjectValue then TokenObjectComma else st)"

text \<open>\<open>Decode\<close> of a value that is neither an object nor an array.\<close>

definition scalar :: "string \<Rightarrow> (json \<times> string) option" where
  "scalar s =
     (if HasPrefix s [CHR 0x22] then map_option (\<lambda>(v, r). (JString v, r)) (stringBody (tl s))
      else if HasPrefix s ''true'' then Some (JBool True, drop 4 s)
      else if HasPrefix s ''false'' then Some (JBool False, drop 5 s)
      else if HasPrefix s ''null'' then Some (JNull, drop 4 s)
      else map_option (\<lambda>(t, r). (JNumber t, r)) (scanNumber s))"

definition openDelim :: "decoder \<Rightarrow> char \<Rightarrow> tokenState \<Rightarrow> string \<Rightarrow> sdk_error + token \<times> decoder" where
  "openDelim d c st r =
     (if \<not> tokenValueAllowed (dState d) then Inl syntaxError
      else Inr (TDelim c, \<lparr>dInput = r, dState = st, dStack = dState d # dStack d\<rparr>))"

definition closeDelim :: "decoder \<Rightarrow> char \<Rightarrow> tokenState list \<Rightarrow> string \<Rightarrow> sdk_error + token \<times> decoder" where
  "closeDelim d c allowed r =
     (if dState d \<notin> set allowed then Inl syntaxError
      else (case dStack d of
              [] \<Rightarrow> Inl syntaxError
            | st # stk \<Rightarrow> Inr (TDelim c, \<lparr>dInput = r, dState = tokenValueEnd st, dStack = stk\<rparr>)))"

lemma dropWhile_shorter: "dropWhile P s = c # r \<Longrightarrow> length r < length s"
  by (metis Suc_le_lessD length_Cons length_dropWhile_le)

function Token :: "decoder \<Rightarrow> sdk_error + token \<times> decoder" where
  "Token d =
     (case dropWhile isSpace (dInput d) of
        [] \<Rightarrow> Inl (PlainError ''EOF'' None)
      | c # r \<Rightarrow>
          if c = CHR ''['' then openDelim d c TokenArrayStart r
          else if c = CHR '']'' then closeDelim d c [TokenArrayStart, TokenArrayComma] r
          else if c = CHR ''{'' then openDelim d c TokenObjectStart r
          else if c = CHR ''}'' then closeDelim d c [TokenObjectStart, TokenObjectComma] r
          else if c = CHR '':'' then
            (if dState d \<noteq> TokenObjectColon then Inl syntaxError
             else Token (d\<lparr>dInput := r, dState := TokenObjectValue\<rparr>))
          else if c = CHR '','' then
            (if dState d = TokenArrayComma then Token (d\<lparr>dInput := r, dState := TokenArrayValue\<rparr>)
             else if dState d = TokenObjectComma then Token (d\<lparr>dInput := r, dState := TokenObjectKey\<rparr>)
             else Inl syntaxError)
          else if c = CHR 0x22 \<and> (dState d = TokenObjectStart \<or> dState d = TokenObjectKey) then
            (case stringBody r of
               None \<Rightarrow> Inl syntaxError
             | Some (key, r') \<Rightarrow> Inr (TValue (JString key), d\<lparr>dInput := r', dState := TokenObjectColon\<rparr>))
          else if \<not> tokenValueAllowed (dState d) then Inl syntaxError
          else
            (case scalar (c # r) of
               None \<Rightarrow> Inl syntaxError
             | Some (v, r') \<Rightarrow> Inr (TValue v, d\<lparr>dInput := r', dState := tokenValueEnd (dState d)\<rparr>)))"
  by pat_completeness auto
termination
  by (relation "measure (\<lambda>d. length (dInput d))") (auto dest: dropWhile_shorter)

declare Token.simps [simp del]

definition More :: "decoder \<Rightarrow> bool" where
  "More d = (case dropWhile isSpace (dInput d) of [] \<Rightarrow> False | c # r \<Rightarrow> c \<noteq> CHR '']'' \<and> c \<noteq> CHR ''}'')"

section \<open>Decoding\<close>

definition ErrNestingLimit :: sdk_error where
  "ErrNestingLimit = PlainError ''JSON nesting limit exceeded'' None"

definition errFuel :: sdk_error where
  "errFuel = PlainError ''fuel'' None"

text \<open>
  \<open>decodeValue\<close> with its two loops. A token that is a closing delimiter is never returned where
  a value may stand.
\<close>

fun decodeValue :: "nat \<Rightarrow> decoder \<Rightarrow> nat \<Rightarrow> sdk_error + json \<times> decoder"
  and decodeMembers :: "nat \<Rightarrow> decoder \<Rightarrow> nat \<Rightarrow> (string \<times> json) list \<Rightarrow> sdk_error + json \<times> decoder"
  and decodeItems :: "nat \<Rightarrow> decoder \<Rightarrow> nat \<Rightarrow> json list \<Rightarrow> sdk_error + json \<times> decoder" where
  "decodeValue 0 d depth = Inl errFuel"
| "decodeValue (Suc fuel) d depth =
     (if depth > 64 then Inl ErrNestingLimit
      else rbind (Token d) (\<lambda>(tok, d1).
        case tok of
          TDelim c \<Rightarrow>
            if c = CHR ''{'' then decodeMembers fuel d1 depth []
            else if c = CHR ''['' then decodeItems fuel d1 depth []
            else Inl syntaxError
        | TValue v \<Rightarrow> Inr (v, d1)))"
| "decodeMembers 0 d depth obj = Inl errFuel"
| "decodeMembers (Suc fuel) d depth obj =
     (if \<not> More d then rbind (Token d) (\<lambda>(_, d1). Inr (JObject obj, d1))
      else rbind (Token d) (\<lambda>(key, d1).
        case key of
          TValue (JString name) \<Rightarrow>
            (if map_of obj name \<noteq> None then Inl (PlainError ''duplicate JSON member'' None)
             else rbind (decodeValue fuel d1 (depth + 1)) (\<lambda>(v, d2).
               decodeMembers fuel d2 depth (AList.update name v obj)))
        | _ \<Rightarrow> Inl (PlainError ''invalid member name'' None)))"
| "decodeItems 0 d depth vs = Inl errFuel"
| "decodeItems (Suc fuel) d depth vs =
     (if \<not> More d then rbind (Token d) (\<lambda>(_, d1). Inr (JArray vs, d1))
      else rbind (decodeValue fuel d (depth + 1)) (\<lambda>(v, d1). decodeItems fuel d1 depth (vs @ [v])))"

definition DecodeObject :: "bytes \<Rightarrow> sdk_error + (string \<times> json) list" where
  "DecodeObject data =
     (if \<not> ValidString data then Inl (PlainError ''invalid or oversized JSON'' None)
      else rbind (decodeValue (2 * length data + 1) \<lparr>dInput = data, dState = TokenTopValue, dStack = []\<rparr> 0) (\<lambda>(v, d).
        if Token d \<noteq> Inl (PlainError ''EOF'' None) then Inl (PlainError ''trailing JSON'' None)
        else (case v of JObject obj \<Rightarrow> Inr obj | _ \<Rightarrow> Inl (PlainError ''JSON object required'' None))))"

abbreviation "decodeJSONObject \<equiv> DecodeObject"

section \<open>Reference definitions\<close>

text \<open>
  The values the encoder is given: maps have distinct keys. \<open>nesting\<close> counts the levels of
  values inside a value.
\<close>

fun distinctKeys :: "json \<Rightarrow> bool" where
  "distinctKeys (JArray vs) = (\<forall>v \<in> set vs. distinctKeys v)"
| "distinctKeys (JObject m) = (distinct (map fst m) \<and> (\<forall>kv \<in> set m. distinctKeys (snd kv)))"
| "distinctKeys v = True"

fun nesting :: "json \<Rightarrow> nat" where
  "nesting (JArray vs) = Max (insert 0 ((\<lambda>v. Suc (nesting v)) ` set vs))"
| "nesting (JObject m) = Max (insert 0 ((\<lambda>kv. Suc (nesting (snd kv))) ` set m))"
| "nesting v = 0"

definition numberTexts :: "'f floatLib \<Rightarrow> bool" where
  "numberTexts L = (\<forall>x. scanNumber (flMarshal L x) = Some (flMarshal L x, []))"

text \<open>Decoding the text \<open>a\<close> of \<open>v\<close> wherever a value may stand and nothing follows that continues a number.\<close>

definition decodes :: "'f floatLib \<Rightarrow> json \<Rightarrow> string \<Rightarrow> bool" where
  "decodes L v a =
     (\<forall>fuel st stk r depth. depth + nesting v \<le> 64 \<and> tokenValueAllowed st \<and> stop r \<and> 2 * length (a @ r) < fuel \<longrightarrow>
        decodeValue fuel \<lparr>dInput = a @ r, dState = st, dStack = stk\<rparr> depth
        = Inr (jnorm L v, \<lparr>dInput = r, dState = tokenValueEnd st, dStack = stk\<rparr>))"

text \<open>A member: its key, a colon and its value.\<close>

definition memberText :: "string \<Rightarrow> string \<Rightarrow> string" where
  "memberText k a = CHR 0x22 # concat (map escapeByte k) @ CHR 0x22 # CHR '':'' # a"

abbreviation dec :: "string \<Rightarrow> tokenState \<Rightarrow> tokenState list \<Rightarrow> decoder" where
  "dec s st stk \<equiv> \<lparr>dInput = s, dState = st, dStack = stk\<rparr>"

section \<open>Lemmas\<close>

subsection \<open>Progress\<close>

lemma stringBody_shorter: "stringBody s = Some (v, t) \<Longrightarrow> length t < length s"
proof (induction s arbitrary: v t rule: stringBody.induct)
  case (1 s)
  from 1(2) show ?case
    by (subst (asm) stringBody.simps)
      (fastforce dest: stringPiece_shorter 1(1) split: list.splits if_splits option.splits prod.splits)
qed

lemma numSign_le: "length (snd (numSign s)) \<le> length s"
  by (auto simp: numSign_def split: list.splits)

lemma numInt_shorter: "numInt s = Some (a, t) \<Longrightarrow> length t < length s"
  by (auto simp: numInt_def split: list.splits if_splits) (metis le_imp_less_Suc length_dropWhile_le)+

lemma numFrac_le: "numFrac s = Some (a, t) \<Longrightarrow> length t \<le> length s"
  by (auto simp: numFrac_def le_SucI length_dropWhile_le split: list.splits if_splits)

lemma numExp_le: "numExp s = Some (a, t) \<Longrightarrow> length t \<le> length s"
  by (auto simp: numExp_def le_SucI length_dropWhile_le split: list.splits if_splits)

lemma scanNumber_shorter: "scanNumber s = Some (a, t) \<Longrightarrow> length t < length s"
  using numSign_le [of s]
  by (fastforce simp: scanNumber_def dest!: numInt_shorter numFrac_le numExp_le split: option.splits)

lemma scalar_shorter: "scalar s = Some (v, t) \<Longrightarrow> length t < length s"
  by (cases s) (auto simp: scalar_def dest!: stringBody_shorter scanNumber_shorter split: if_splits)

lemma Token_shorter: "Token d = Inr (tok, d') \<Longrightarrow> length (dInput d') < length (dInput d)"
proof (induction "length (dInput d)" arbitrary: d rule: less_induct)
  case less
  show ?case
  proof (cases "dropWhile isSpace (dInput d)")
    case Nil
    with less(2) show ?thesis by (simp add: Token.simps [of d])
  next
    case (Cons c r)
    note le = dropWhile_shorter [OF Cons]
    have IH: "length (dInput d') < length (dInput d)"
      if "Token (d\<lparr>dInput := r, dState := st\<rparr>) = Inr (tok, d')" for st
      using less(1) [OF _ that] le by simp
    from less(2) le show ?thesis
      unfolding Token.simps [of d] Cons list.case
      by (auto simp: openDelim_def closeDelim_def split: if_splits list.splits option.splits
          dest!: stringBody_shorter scalar_shorter intro: IH)
  qed
qed

lemma Token_not_fuel: "Token d \<noteq> Inl errFuel"
proof (induction d rule: Token.induct)
  case (1 d)
  then show ?case
    unfolding Token.simps [of d]
    by (auto simp: openDelim_def closeDelim_def syntaxError_def errFuel_def split: list.splits option.splits)
qed

lemma decodeValue_Inr:
  assumes "decodeValue (Suc fuel) d depth = Inr (v, d')"
  shows "depth \<le> 64 \<and> (\<exists>tok d1. Token d = Inr (tok, d1) \<and>
    ((tok = TDelim (CHR ''{'') \<and> decodeMembers fuel d1 depth [] = Inr (v, d'))
     \<or> (tok = TDelim (CHR ''['') \<and> decodeItems fuel d1 depth [] = Inr (v, d'))
     \<or> (tok = TValue v \<and> d' = d1)))"
proof -
  from assms obtain tok d1 where t: "Token d = Inr (tok, d1)"
    by (cases "Token d") (auto split: if_splits)
  with assms show ?thesis by (cases tok) (auto split: if_splits)
qed

lemma decodeMembers_Inr:
  assumes "decodeMembers (Suc fuel) d depth obj = Inr (v, d')"
  shows "(\<exists>tok. \<not> More d \<and> Token d = Inr (tok, d') \<and> v = JObject obj)
    \<or> (\<exists>name d1 x d2. More d \<and> Token d = Inr (TValue (JString name), d1) \<and> map_of obj name = None
        \<and> decodeValue fuel d1 (depth + 1) = Inr (x, d2)
        \<and> decodeMembers fuel d2 depth (AList.update name x obj) = Inr (v, d'))"
proof -
  from assms obtain tok d1 where t: "Token d = Inr (tok, d1)"
    by (cases "Token d") (auto split: if_splits)
  show ?thesis
  proof (cases "More d")
    case False
    with assms t show ?thesis by simp
  next
    case True
    with assms t obtain name where n: "tok = TValue (JString name)" "map_of obj name = None"
      by (auto split: token.splits json.splits if_splits)
    with assms t True obtain x d2 where "decodeValue fuel d1 (depth + 1) = Inr (x, d2)"
      by (cases "decodeValue fuel d1 (depth + 1)") auto
    with assms t n True show ?thesis by auto
  qed
qed

lemma decodeItems_Inr:
  assumes "decodeItems (Suc fuel) d depth vs = Inr (v, d')"
  shows "(\<exists>tok. \<not> More d \<and> Token d = Inr (tok, d') \<and> v = JArray vs)
    \<or> (\<exists>x d1. More d \<and> decodeValue fuel d (depth + 1) = Inr (x, d1)
        \<and> decodeItems fuel d1 depth (vs @ [x]) = Inr (v, d'))"
  using assms by (auto simp: rbind_Inr_iff split: if_splits)

lemma decode_shorter:
  "(decodeValue fuel d depth = Inr (v, d') \<longrightarrow> length (dInput d') < length (dInput d))
   \<and> (decodeMembers fuel d depth obj = Inr (v, d') \<longrightarrow> length (dInput d') < length (dInput d))
   \<and> (decodeItems fuel d depth vs = Inr (v, d') \<longrightarrow> length (dInput d') < length (dInput d))"
proof (induction fuel arbitrary: d depth obj vs v d')
  case (Suc fuel)
  show ?case
  proof (intro conjI impI)
    assume "decodeValue (Suc fuel) d depth = Inr (v, d')"
    then show "length (dInput d') < length (dInput d)"
      using decodeValue_Inr [of fuel d depth v d'] by (metis Suc.IH Token_shorter order.strict_trans)
  next
    assume "decodeMembers (Suc fuel) d depth obj = Inr (v, d')"
    then show "length (dInput d') < length (dInput d)"
      using decodeMembers_Inr [of fuel d depth obj v d'] by (metis Suc.IH Token_shorter order.strict_trans)
  next
    assume "decodeItems (Suc fuel) d depth vs = Inr (v, d')"
    then show "length (dInput d') < length (dInput d)"
      using decodeItems_Inr [of fuel d depth vs v d'] by (metis Suc.IH Token_shorter order.strict_trans)
  qed
qed simp

lemmas decodeValue_shorter = decode_shorter [THEN conjunct1, rule_format]
lemmas not_errFuel = ErrNestingLimit_def syntaxError_def errFuel_def

lemma decode_fuel:
  "(2 * length (dInput d) < fuel \<longrightarrow> decodeValue fuel d depth \<noteq> Inl errFuel)
   \<and> (2 * length (dInput d) < fuel \<longrightarrow> decodeMembers fuel d depth obj \<noteq> Inl errFuel)
   \<and> (2 * length (dInput d) + 1 < fuel \<longrightarrow> decodeItems fuel d depth vs \<noteq> Inl errFuel)"
proof (induction fuel arbitrary: d depth obj vs)
  case (Suc fuel)
  show ?case
  proof (intro conjI impI)
    assume f: "2 * length (dInput d) < Suc fuel"
    have "decodeMembers fuel d1 depth [] \<noteq> Inl errFuel" "decodeItems fuel d1 depth [] \<noteq> Inl errFuel"
      if "Token d = Inr (tok, d1)" for tok d1
      using Suc.IH Token_shorter [OF that] f by (simp_all add: Suc_le_eq)
    with Token_not_fuel [of d] show "decodeValue (Suc fuel) d depth \<noteq> Inl errFuel"
      by (cases "Token d") (auto simp: not_errFuel split: token.splits if_splits)
  next
    assume f: "2 * length (dInput d) < Suc fuel"
    have "decodeValue fuel d1 (depth + 1) \<noteq> Inl errFuel" if "Token d = Inr (tok, d1)" for tok d1
      using Suc.IH Token_shorter [OF that] f by simp
    moreover have "decodeMembers fuel d2 depth obj' \<noteq> Inl errFuel"
      if "Token d = Inr (tok, d1)" "decodeValue fuel d1 (depth + 1) = Inr (x, d2)" for tok d1 x d2 obj'
      using Suc.IH Token_shorter [OF that(1)] decodeValue_shorter [OF that(2)] f by simp
    ultimately show "decodeMembers (Suc fuel) d depth obj \<noteq> Inl errFuel"
      using Token_not_fuel [of d]
      by (cases "Token d") (auto simp: errFuel_def rbind_Inl_iff split: token.splits json.splits if_splits)
  next
    assume f: "2 * length (dInput d) + 1 < Suc fuel"
    have "decodeValue fuel d (depth + 1) \<noteq> Inl errFuel" using Suc.IH f by simp
    moreover have "decodeItems fuel d1 depth vs' \<noteq> Inl errFuel"
      if "decodeValue fuel d (depth + 1) = Inr (x, d1)" for x d1 vs'
      using Suc.IH decodeValue_shorter [OF that] f by simp
    ultimately show "decodeItems (Suc fuel) d depth vs \<noteq> Inl errFuel"
      using Token_not_fuel [of d] by (auto simp: rbind_Inl_iff)
  qed
qed simp

subsection \<open>Numbers\<close>

lemma stop_digits:
  assumes "stop r"
  shows "takeWhile isASCIIDigit (s @ r) = takeWhile isASCIIDigit s"
    and "dropWhile isASCIIDigit (s @ r) = dropWhile isASCIIDigit s @ r"
proof -
  have "takeWhile isASCIIDigit r = []" "dropWhile isASCIIDigit r = r"
    using assms by (cases r; simp add: stop_def numChar_def)+
  then show "takeWhile isASCIIDigit (s @ r) = takeWhile isASCIIDigit s"
    and "dropWhile isASCIIDigit (s @ r) = dropWhile isASCIIDigit s @ r"
    by (induction s) auto
qed

lemma stop_hd: "stop (c # r) \<Longrightarrow> c \<noteq> CHR ''.'' \<and> c \<noteq> CHR ''e'' \<and> c \<noteq> CHR ''E'' \<and> c \<noteq> CHR ''-''"
  by (auto simp: stop_def numChar_def)

lemma numInt_stop: "\<lbrakk>numInt s = Some (a, t); stop r\<rbrakk> \<Longrightarrow> numInt (s @ r) = Some (a, t @ r)"
  by (cases s) (auto simp: numInt_def stop_digits split: if_splits)

lemma numFrac_stop: "\<lbrakk>numFrac s = Some (a, t); stop r\<rbrakk> \<Longrightarrow> numFrac (s @ r) = Some (a, t @ r)"
  by (cases s; cases r) (auto simp: numFrac_def stop_digits dest: stop_hd split: if_splits)

lemma numExp_stop: "\<lbrakk>numExp s = Some (a, t); stop r\<rbrakk> \<Longrightarrow> numExp (s @ r) = Some (a, t @ r)"
  by (cases s; cases r)
    (auto simp: numExp_def stop_digits stop_digits [of r "_ # _", simplified] dest: stop_hd split: if_splits list.splits)

lemma scanNumber_stop:
  assumes "scanNumber s = Some (a, t)" "stop r"
  shows "scanNumber (s @ r) = Some (a, t @ r)"
proof -
  from assms(1) have "s \<noteq> []" by (auto simp: scanNumber_def numSign_def numInt_def)
  then have "numSign (s @ r) = (fst (numSign s), snd (numSign s) @ r)"
    by (cases s) (auto simp: numSign_def)
  with assms show ?thesis
    by (auto simp: scanNumber_def numInt_stop numFrac_stop numExp_stop split: option.splits)
qed

lemma numInt_FormatUint: "numInt (FormatUint n) = Some (FormatUint n, [])"
proof -
  have d: "list_all isASCIIDigit (FormatUint n)" by (rule FormatUint_digits)
  obtain c r where c: "FormatUint n = c # r" by (meson FormatUint_not_Nil list.exhaust)
  show ?thesis
  proof (cases "c = CHR ''0''")
    case True
    with FormatUint_no_leading_zero [of n] c show ?thesis by (simp add: numInt_def)
  next
    case False
    with d c show ?thesis by (auto simp: numInt_def list_all_iff)
  qed
qed

lemma scanNumber_FormatInt: "scanNumber (FormatInt i) = Some (FormatInt i, [])"
proof (cases "i < 0")
  case True
  then have "numSign (FormatInt i) = (''-'', FormatUint (nat (- i)))" by (simp add: FormatInt_def numSign_def)
  with True show ?thesis by (simp add: scanNumber_def numInt_FormatUint numFrac_def numExp_def FormatInt_def)
next
  case False
  obtain c r where c: "FormatUint (nat i) = c # r" by (meson FormatUint_not_Nil list.exhaust)
  with FormatUint_digits [of "nat i"] have "c \<noteq> CHR ''-''" by (auto simp: isASCIIDigit_def)
  with False c have "numSign (FormatInt i) = ('''', FormatUint (nat i))" by (simp add: FormatInt_def numSign_def)
  with False show ?thesis by (simp add: scanNumber_def numInt_FormatUint numFrac_def numExp_def FormatInt_def)
qed

lemma scanNumber_first:
  assumes "scanNumber s = Some (a, t)"
  obtains c r where "s = c # r" "isASCIIDigit c \<or> c = CHR ''-''"
proof -
  have "isASCIIDigit (CHR ''0'')" by (simp add: isASCIIDigit_def)
  with assms that show ?thesis
    by (cases s) (auto simp: scanNumber_def numSign_def numInt_def split: if_splits option.splits)
qed

subsection \<open>Strings\<close>

lemma hexVal_digit: "n < 16 \<Longrightarrow> hexVal (hexDigit n) = Some n"
proof -
  have "list_all (\<lambda>d. hexVal (hexDigit d) = Some d) [0..<16]" by code_simp
  then show "n < 16 \<Longrightarrow> ?thesis" by (simp add: list_all_iff)
qed

lemma hexDigit_ascii: "n < 16 \<Longrightarrow> of_char (hexDigit n) < (128::nat)"
  using hexVal_digit [of n] by (auto simp: hexVal_def isASCIIDigit_def less_eq_char_def split: if_splits)

lemma escapeByte_piece:
  "\<exists>e es. escapeByte c = e # es \<and> e \<noteq> CHR 0x22 \<and> (\<forall>u. stringPiece e (es @ u) = Some ([c], u))"
proof (cases "c \<in> {CHR 0x22, CHR 0x5C, CHR 0x08, CHR 0x09, CHR 0x0A, CHR 0x0C, CHR 0x0D}")
  case True
  then show ?thesis
    by (elim insertE emptyE) (simp_all add: escapeByte_def stringPiece_def simpleEscape_def)
next
  case False
  then have n: "c \<noteq> CHR 0x22" "c \<noteq> CHR 0x5C" "c \<noteq> CHR 0x08" "c \<noteq> CHR 0x09" "c \<noteq> CHR 0x0A" "c \<noteq> CHR 0x0C" "c \<noteq> CHR 0x0D"
    by blast+
  show ?thesis
  proof (cases "c < CHR 0x20")
    case True
    then have e: "escapeByte c = CHR 0x5C # ''u00'' @ [hexDigit (of_char c div 16), hexDigit (of_char c mod 16)]"
      unfolding escapeByte_def by (simp only: n simp_thms if_True if_False)
    have "of_char c < (32::nat)" using True by (simp add: less_char_def)
    then have h: "hex4 (CHR ''0'' # CHR ''0'' # hexDigit (of_char c div 16) # hexDigit (of_char c mod 16) # u) = Some (of_char c, u)" for u
      by (simp add: hexVal_digit) (simp add: hexVal_def isASCIIDigit_def)
    have "unicodeEscape (CHR ''0'' # CHR ''0'' # hexDigit (of_char c div 16) # hexDigit (of_char c mod 16) # u) = Some (of_char c, u)" for u
      using \<open>of_char c < 32\<close> by (simp add: unicodeEscape_def h del: hex4.simps)
    with \<open>of_char c < 32\<close> show ?thesis by (simp add: e stringPiece_def encodeRune_def)
  next
    case False
    then have "escapeByte c = [c]"
      unfolding escapeByte_def by (simp only: n simp_thms if_True if_False)
    with n False show ?thesis by (simp add: stringPiece_def)
  qed
qed

lemma stringBody_escaped: "stringBody (concat (map escapeByte v) @ CHR 0x22 # r) = Some (v, r)"
proof (induction v)
  case Nil
  then show ?case by (simp add: stringBody.simps)
next
  case (Cons c v)
  show ?case
    using escapeByte_piece [of c] Cons.IH by (auto simp: stringBody.simps [of "_ # _"])
qed

lemma escapeByte_wide:
  assumes "0x80 \<le> (of_char c :: nat)"
  shows "escapeByte c = [c]"
proof -
  have "\<not> c < CHR 0x20" using assms by (simp add: less_char_def)
  moreover have "c \<notin> {CHR 0x22, CHR 0x5C, CHR 0x08, CHR 0x09, CHR 0x0A, CHR 0x0C, CHR 0x0D}"
    using assms by (intro notI) (elim insertE emptyE; simp)
  ultimately show ?thesis unfolding escapeByte_def by simp
qed

lemma ValidString_escaped: "ValidString v \<Longrightarrow> ValidString (concat (map escapeByte v))"
proof (induction v rule: ValidString_induct)
  case (ascii c t)
  have "ascii (escapeByte c)"
    using ascii(1) by (auto simp: ascii_def escapeByte_def less_char_def intro!: hexDigit_ascii)
  then show ?case using ascii by (simp add: ValidString_append ValidString_ascii_list)
next
  case (wide s r w)
  have "escapeByte c = [c]" if "c \<in> set (take w s)" for c
  proof -
    from that obtain i where "i < w" "i < length s" "c = s ! i" by (auto simp: in_set_conv_nth)
    with wide(4) have "0x80 \<le> (of_char c :: nat)" by (auto simp: byteAt_def)
    then show ?thesis by (rule escapeByte_wide)
  qed
  then have "map escapeByte (take w s) = map (\<lambda>c. [c]) (take w s)" by simp
  then have "concat (map escapeByte (take w s)) = take w s" by (simp only: concat_map_singleton list.map_ident)
  then have "concat (map escapeByte s) = take w s @ concat (map escapeByte (drop w s))"
    by (metis append_take_drop_id concat_append map_append)
  with ValidString_wide [OF wide(1,2,3)] wide(6) show ?case by simp
qed simp

subsection \<open>Tokens\<close>

lemma Token_open:
  assumes "tokenValueAllowed st"
  shows "Token (dec (CHR ''{'' # r) st stk) = Inr (TDelim (CHR ''{''), dec r TokenObjectStart (st # stk))"
    and "Token (dec (CHR ''['' # r) st stk) = Inr (TDelim (CHR ''[''), dec r TokenArrayStart (st # stk))"
  using assms by (simp_all add: Token.simps isSpace_def openDelim_def)

lemma Token_close:
  "st \<in> {TokenObjectStart, TokenObjectComma} \<Longrightarrow>
     Token (dec (CHR ''}'' # r) st (st' # stk)) = Inr (TDelim (CHR ''}''), dec r (tokenValueEnd st') stk)"
  "st \<in> {TokenArrayStart, TokenArrayComma} \<Longrightarrow>
     Token (dec (CHR '']'' # r) st (st' # stk)) = Inr (TDelim (CHR '']''), dec r (tokenValueEnd st') stk)"
  by (auto simp: Token.simps isSpace_def closeDelim_def)

lemma Token_separator:
  "Token (dec (CHR '':'' # r) TokenObjectColon stk) = Token (dec r TokenObjectValue stk)"
  "Token (dec (CHR '','' # r) TokenObjectComma stk) = Token (dec r TokenObjectKey stk)"
  "Token (dec (CHR '','' # r) TokenArrayComma stk) = Token (dec r TokenArrayValue stk)"
  by (subst Token.simps; simp add: isSpace_def)+

lemma Token_key:
  assumes "st = TokenObjectStart \<or> st = TokenObjectKey"
  shows "Token (dec (CHR 0x22 # concat (map escapeByte k) @ CHR 0x22 # r) st stk)
    = Inr (TValue (JString k), dec r TokenObjectColon stk)"
  using assms by (subst Token.simps) (auto simp: isSpace_def stringBody_escaped)

lemma Token_scalar:
  assumes "scalar (c # s) = Some (v, r)" "firstKind c < 4" "tokenValueAllowed st"
  shows "Token (dec (c # s) st stk) = Inr (TValue v, dec r (tokenValueEnd st) stk)"
proof -
  have "c \<notin> {CHR 0x20, CHR 0x09, CHR 0x0D, CHR 0x0A, CHR ''['', CHR '']'', CHR ''{'', CHR ''}'', CHR '':'', CHR '',''}"
    using assms(2) by (intro notI) (elim insertE emptyE; simp add: firstKind_def numChar_def isASCIIDigit_def)
  moreover have "st \<noteq> TokenObjectStart" "st \<noteq> TokenObjectKey" using assms(3) by (auto simp: tokenValueAllowed_def)
  ultimately show ?thesis using assms by (subst Token.simps) (simp add: isSpace_def)
qed

lemma More_simps:
  "More (dec (CHR ''}'' # r) st stk) = False" "More (dec (CHR '']'' # r) st stk) = False"
  "More (dec (CHR '','' # r) st stk) = True" "More (dec (CHR 0x22 # r) st stk) = True"
  by (simp_all add: More_def isSpace_def)

lemma More_value: "firstKind c < 6 \<Longrightarrow> More (dec (c # s) st stk)"
proof -
  assume a: "firstKind c < 6"
  then have "c \<notin> {CHR 0x20, CHR 0x09, CHR 0x0D, CHR 0x0A, CHR '']'', CHR ''}''}"
    by (intro notI) (elim insertE emptyE; simp add: firstKind_def numChar_def isASCIIDigit_def)
  then show ?thesis by (simp add: More_def isSpace_def)
qed

subsection \<open>Scalars\<close>

lemma scalar_literals:
  "scalar (''true'' @ r) = Some (JBool True, r)" "scalar (''false'' @ r) = Some (JBool False, r)"
  "scalar (''null'' @ r) = Some (JNull, r)"
  by (simp_all add: scalar_def)

lemma scalar_string: "scalar (CHR 0x22 # concat (map escapeByte v) @ CHR 0x22 # r) = Some (JString v, r)"
  by (simp add: scalar_def stringBody_escaped)

lemma scalar_number:
  assumes "scanNumber t = Some (t, [])" "stop r"
  shows "scalar (t @ r) = Some (JNumber t, r)"
proof -
  obtain c u where t: "t = c # u" "isASCIIDigit c \<or> c = CHR ''-''" by (rule scanNumber_first [OF assms(1)])
  then have "c \<notin> {CHR 0x22, CHR ''t'', CHR ''f'', CHR ''n''}" by (auto simp: isASCIIDigit_def)
  with t scanNumber_stop [OF assms] show ?thesis by (simp add: scalar_def)
qed

lemma numberTexts_floatTexts:
  assumes "numberTexts L"
  shows "floatTexts L"
  unfolding floatTexts_def
proof
  fix x
  have s: "scanNumber (flMarshal L x) = Some (flMarshal L x, [])" using assms by (simp add: numberTexts_def)
  have d: "list_all numChar (takeWhile isASCIIDigit u)" for u
    by (auto simp: list_all_iff numChar_def dest: set_takeWhileD)
  have 1: "list_all numChar (fst (numSign u))" for u by (auto simp: numSign_def numChar_def split: list.splits)
  have 2: "list_all numChar a" if "numInt u = Some (a, t)" for u a t
    using that d numChar_0 by (auto simp: numInt_def numChar_def split: list.splits if_splits)
  have 3: "list_all numChar a" if "numFrac u = Some (a, t)" for u a t
    using that d by (auto simp: numFrac_def numChar_def split: list.splits if_splits)
  have 4: "list_all numChar a" if "numExp u = Some (a, t)" for u a t
    using that d by (auto simp: numExp_def numChar_def split: list.splits if_splits)
  from s obtain a t1 b t2 c where o: "numInt (snd (numSign (flMarshal L x))) = Some (a, t1)" "numFrac t1 = Some (b, t2)"
    "numExp t2 = Some (c, [])" and e: "flMarshal L x = fst (numSign (flMarshal L x)) @ a @ b @ c"
    by (auto simp: scanNumber_def split: option.splits)
  have "list_all numChar (fst (numSign (flMarshal L x)) @ a @ b @ c)"
    unfolding list_all_append by (intro conjI 1 2 [OF o(1)] 3 [OF o(2)] 4 [OF o(3)])
  then have "list_all numChar (flMarshal L x)" by (rule ssubst [OF e])
  moreover have "flMarshal L x \<noteq> []" by (rule scanNumber_first [OF s]) simp
  ultimately show "flMarshal L x \<noteq> [] \<and> list_all numChar (flMarshal L x)" by blast
qed

lemma decodeValue_token:
  assumes "Token d = Inr (TValue v, d')" "depth \<le> 64" "0 < fuel"
  shows "decodeValue fuel d depth = Inr (v, d')"
  using assms by (cases fuel) auto

lemma decodes_scalar:
  assumes "numberTexts L" "writeCanonicalJSON L v = Inr a" "kindOf v < 4"
  shows "decodes L v a"
proof -
  have k: "a \<noteq> [] \<and> firstKind (hd a) = kindOf v"
    by (rule first_kind [OF numberTexts_floatTexts [OF assms(1)] assms(2)])
  have "scalar (a @ r) = Some (jnorm L v, r)" if "stop r" for r
  proof (cases v)
    case (JString s)
    with assms(2) have "a = CHR 0x22 # concat (map escapeByte s) @ [CHR 0x22]"
      by (auto simp: writeCanonicalString_def split: if_splits)
    with JString scalar_string [of s r] show ?thesis by simp
  next
    case (JNumber t)
    have "scanNumber ''0'' = Some (''0'', [])" by (simp add: scanNumber_def numSign_def numInt_def numFrac_def numExp_def)
    with JNumber assms(1,2) have "scanNumber a = Some (a, [])" "jnorm L v = JNumber a"
      by (auto simp: numberTexts_def numberText_def split: option.splits if_splits)
    with scalar_number that show ?thesis by simp
  next
    case (JInt i)
    with assms(2) have "a = FormatInt i" by simp
    with JInt scalar_number [OF scanNumber_FormatInt that] show ?thesis by simp
  qed (use assms(2,3) scalar_literals in auto)
  then show ?thesis
    unfolding decodes_def
    using k assms(3) by (cases a) (auto intro!: decodeValue_token Token_scalar)
qed

subsection \<open>Arrays and objects\<close>

lemma decodesD:
  "\<lbrakk>decodes L v a; depth + nesting v \<le> 64; tokenValueAllowed st; stop r; 2 * length (a @ r) < fuel\<rbrakk>
     \<Longrightarrow> decodeValue fuel (dec (a @ r) st stk) depth = Inr (jnorm L v, dec r (tokenValueEnd st) stk)"
  by (auto simp: decodes_def)

lemma decodeValue_cong: "Token d = Token d' \<Longrightarrow> decodeValue fuel d depth = decodeValue fuel d' depth"
  by (cases fuel) simp_all

text \<open>The elements after the first, each after its comma.\<close>

lemma items_tail:
  assumes "list_all2 (\<lambda>v a. decodes L v a \<and> depth + 1 + nesting v \<le> 64) vs as"
    and "2 * length (concat (map (\<lambda>a. CHR '','' # a) as) @ CHR '']'' # r) + 1 < fuel"
  shows "decodeItems fuel (dec (concat (map (\<lambda>a. CHR '','' # a) as) @ CHR '']'' # r) TokenArrayComma (st # stk)) depth acc
    = Inr (JArray (acc @ map (\<lambda>v. jnorm L v) vs), dec r (tokenValueEnd st) stk)"
  using assms
proof (induction vs as arbitrary: acc fuel rule: list_all2_induct)
  case Nil
  then show ?case by (cases fuel) (simp_all add: More_simps Token_close)
next
  case (Cons v vs a as)
  let ?rest = "concat (map (\<lambda>a. CHR '','' # a) as) @ CHR '']'' # r"
  from Cons.prems obtain f where f: "fuel = Suc f" by (cases fuel) auto
  have "stop ?rest" by (cases as) simp_all
  with Cons f have "decodeValue f (dec (CHR '','' # a @ ?rest) TokenArrayComma (st # stk)) (depth + 1)
      = Inr (jnorm L v, dec ?rest TokenArrayComma (st # stk))"
    by (subst decodeValue_cong [OF Token_separator(3)], subst decodesD [of L v a])
      (auto simp: tokenValueAllowed_def tokenValueEnd_def)
  moreover have "decodeItems f (dec ?rest TokenArrayComma (st # stk)) depth (acc @ [jnorm L v])
      = Inr (JArray ((acc @ [jnorm L v]) @ map (\<lambda>v. jnorm L v) vs), dec r (tokenValueEnd st) stk)"
    using Cons.prems f by (intro Cons.IH) simp
  ultimately show ?case by (simp add: f More_simps)
qed

lemma decodes_array:
  assumes "list_all2 (\<lambda>v a. decodes L v a \<and> a \<noteq> [] \<and> firstKind (hd a) < 6) vs as"
  shows "decodes L (JArray vs) (''['' @ Join as '','' @ '']'')"
  unfolding decodes_def
proof (intro allI impI, elim conjE)
  fix fuel st stk r depth
  assume d: "depth + nesting (JArray vs) \<le> 64" and st: "tokenValueAllowed st"
    and f0: "2 * length ((''['' @ Join as '','' @ '']'') @ r) < fuel"
  then obtain f where f: "fuel = Suc f" by (cases fuel) auto
  have d': "depth + 1 + nesting v \<le> 64" if "v \<in> set vs" for v
  proof -
    have "Suc (nesting v) \<le> Max (insert 0 ((\<lambda>v. Suc (nesting v)) ` set vs))" using that by (intro Max_ge) auto
    with d show ?thesis by simp
  qed
  have "decodeItems f (dec (Join as '','' @ CHR '']'' # r) TokenArrayStart (st # stk)) depth []
      = Inr (JArray (map (\<lambda>v. jnorm L v) vs), dec r (tokenValueEnd st) stk)"
  proof (cases as)
    case Nil
    with assms f f0 show ?thesis by (cases f) (simp_all add: More_simps Token_close)
  next
    case (Cons a as')
    with assms obtain v vs' where vs: "vs = v # vs'" and v: "decodes L v a" "a \<noteq> []" "firstKind (hd a) < 6"
      and vs': "list_all2 (\<lambda>v a. decodes L v a \<and> a \<noteq> [] \<and> firstKind (hd a) < 6) vs' as'"
      by (auto simp: list_all2_Cons2)
    let ?rest = "concat (map (\<lambda>a. CHR '','' # a) as') @ CHR '']'' # r"
    have in': "Join as '','' @ CHR '']'' # r = a @ ?rest" using Cons by (simp add: Join_tail)
    have len: "2 * length (a @ ?rest) + 1 < f" using f0 f unfolding in' [symmetric] by simp
    then obtain g where g: "f = Suc g" by (cases f) auto
    have "stop ?rest" by (cases as') simp_all
    then have "decodeValue g (dec (a @ ?rest) TokenArrayStart (st # stk)) (depth + 1)
        = Inr (jnorm L v, dec ?rest TokenArrayComma (st # stk))"
      using len g d' [of v] v vs by (subst decodesD [of L v a]) (auto simp: tokenValueAllowed_def tokenValueEnd_def)
    moreover have "decodeItems g (dec ?rest TokenArrayComma (st # stk)) depth [jnorm L v]
        = Inr (JArray ([jnorm L v] @ map (\<lambda>v. jnorm L v) vs'), dec r (tokenValueEnd st) stk)"
    proof (rule items_tail)
      show "list_all2 (\<lambda>v a. decodes L v a \<and> depth + 1 + nesting v \<le> 64) vs' as'"
        by (rule list.rel_mono_strong [OF vs']) (use d' vs in auto)
      obtain n where "length a = Suc n" using v(2) by (cases a) auto
      with len g show "2 * length ?rest + 1 < g" by simp
    qed
    moreover have "More (dec (a @ ?rest) TokenArrayStart (st # stk))" using v More_value by (cases a) auto
    ultimately show ?thesis unfolding in' by (simp add: g vs)
  qed
  with d st show "decodeValue fuel (dec ((''['' @ Join as '','' @ '']'') @ r) st stk) depth
      = Inr (jnorm L (JArray vs), dec r (tokenValueEnd st) stk)"
    by (simp add: f Token_open)
qed

lemma member_step:
  assumes "decodes L v a" "depth + 1 + nesting v \<le> 64" "stop r" "2 * length (memberText k a @ r) < Suc f"
    and "st = TokenObjectStart \<or> st = TokenObjectKey" "Token d = Token (dec (memberText k a @ r) st stk)" "More d"
    and "k \<notin> fst ` set obj"
  shows "decodeMembers (Suc f) d depth obj = decodeMembers f (dec r TokenObjectComma stk) depth (obj @ [(k, jnorm L v)])"
proof -
  have "Token d = Inr (TValue (JString k), dec (CHR '':'' # a @ r) TokenObjectColon stk)"
    unfolding assms(6) memberText_def using Token_key [OF assms(5), of k "CHR '':'' # a @ r" stk] by simp
  moreover have "decodeValue f (dec (CHR '':'' # a @ r) TokenObjectColon stk) (depth + 1)
      = Inr (jnorm L v, dec r TokenObjectComma stk)"
    using assms by (subst decodeValue_cong [OF Token_separator(1)], subst decodesD [of L v a])
      (auto simp: tokenValueAllowed_def tokenValueEnd_def memberText_def)
  moreover have "map_of obj k = None" "AList.update k x obj = obj @ [(k, x)]" for x
    using assms(8) by (simp_all add: map_of_eq_None_iff update_new)
  ultimately show ?thesis using assms(7) by simp
qed

lemma members_tail:
  assumes "list_all2 (\<lambda>kv p. \<exists>a. p = memberText (fst kv) a \<and> decodes L (snd kv) a \<and> depth + 1 + nesting (snd kv) \<le> 64) m ps"
    and "2 * length (concat (map (\<lambda>p. CHR '','' # p) ps) @ CHR ''}'' # r) < fuel"
    and "distinct (map fst m)" "fst ` set obj \<inter> fst ` set m = {}"
  shows "decodeMembers fuel (dec (concat (map (\<lambda>p. CHR '','' # p) ps) @ CHR ''}'' # r) TokenObjectComma (st # stk)) depth obj
    = Inr (JObject (obj @ map (\<lambda>kv. (fst kv, jnorm L (snd kv))) m), dec r (tokenValueEnd st) stk)"
  using assms
proof (induction m ps arbitrary: obj fuel rule: list_all2_induct)
  case Nil
  then show ?case by (cases fuel) (simp_all add: More_simps Token_close)
next
  case (Cons kv m p ps)
  let ?rest = "concat (map (\<lambda>p. CHR '','' # p) ps) @ CHR ''}'' # r"
  from Cons.hyps obtain a where a: "p = memberText (fst kv) a" "decodes L (snd kv) a" "depth + 1 + nesting (snd kv) \<le> 64"
    by blast
  from Cons.prems obtain f where f: "fuel = Suc f" by (cases fuel) auto
  have "stop ?rest" by (cases ps) simp_all
  then have "decodeMembers fuel (dec (CHR '','' # p @ ?rest) TokenObjectComma (st # stk)) depth obj
      = decodeMembers f (dec ?rest TokenObjectComma (st # stk)) depth (obj @ [(fst kv, jnorm L (snd kv))])"
    unfolding f a(1) using Cons.prems a f
    by (intro member_step [where st = TokenObjectKey]) (auto simp: Token_separator More_simps)
  also have "\<dots> = Inr (JObject ((obj @ [(fst kv, jnorm L (snd kv))]) @ map (\<lambda>kv. (fst kv, jnorm L (snd kv))) m), dec r (tokenValueEnd st) stk)"
    using Cons.prems f by (intro Cons.IH) auto
  finally show ?case by simp
qed

lemma decodes_object:
  assumes "list_all2 (\<lambda>kv p. \<exists>a. p = memberText (fst kv) a \<and> decodes L (snd kv) a) m ps"
    and "distinct (map fst m)" and "sortedKeys m' = m"
  shows "decodes L (JObject m') (''{'' @ Join ps '','' @ ''}'')"
  unfolding decodes_def
proof (intro allI impI, elim conjE)
  fix fuel st stk r depth
  assume d: "depth + nesting (JObject m') \<le> 64" and st: "tokenValueAllowed st"
    and f0: "2 * length ((''{'' @ Join ps '','' @ ''}'') @ r) < fuel"
  then obtain f where f: "fuel = Suc f" by (cases fuel) auto
  have n: "depth + 1 + nesting (snd kv) \<le> 64" if "kv \<in> set m" for kv
  proof -
    have "Suc (nesting (snd kv)) \<le> Max (insert 0 ((\<lambda>kv. Suc (nesting (snd kv))) ` set m'))"
      using that assms(3) by (intro Max_ge) auto
    with d show ?thesis by simp
  qed
  have all: "list_all2 (\<lambda>kv p. \<exists>a. p = memberText (fst kv) a \<and> decodes L (snd kv) a
      \<and> depth + 1 + nesting (snd kv) \<le> 64) m ps"
    by (rule list.rel_mono_strong [OF assms(1)]) (use n in blast)
  have "decodeMembers f (dec (Join ps '','' @ CHR ''}'' # r) TokenObjectStart (st # stk)) depth []
      = Inr (JObject (map (\<lambda>kv. (fst kv, jnorm L (snd kv))) m), dec r (tokenValueEnd st) stk)"
  proof (cases ps)
    case Nil
    with assms(1) f f0 show ?thesis by (cases f) (simp_all add: More_simps Token_close)
  next
    case (Cons p ps')
    with all obtain kv m1 a where m: "m = kv # m1" and p: "p = memberText (fst kv) a" "decodes L (snd kv) a"
      "depth + 1 + nesting (snd kv) \<le> 64"
      and m1: "list_all2 (\<lambda>kv p. \<exists>a. p = memberText (fst kv) a \<and> decodes L (snd kv) a
        \<and> depth + 1 + nesting (snd kv) \<le> 64) m1 ps'"
      by (auto simp: list_all2_Cons2)
    let ?rest = "concat (map (\<lambda>p. CHR '','' # p) ps') @ CHR ''}'' # r"
    have in': "Join ps '','' @ CHR ''}'' # r = p @ ?rest" using Cons by (simp add: Join_tail)
    have len: "2 * length (p @ ?rest) < f" using f0 f unfolding in' [symmetric] by simp
    then obtain g where g: "f = Suc g" by (cases f) auto
    have "stop ?rest" by (cases ps') simp_all
    then have "decodeMembers f (dec (p @ ?rest) TokenObjectStart (st # stk)) depth []
        = decodeMembers g (dec ?rest TokenObjectComma (st # stk)) depth [(fst kv, jnorm L (snd kv))]"
      unfolding g p(1) using p len g
      by (subst member_step [where st = TokenObjectStart]) (auto simp: memberText_def More_simps)
    also have "\<dots> = Inr (JObject ([(fst kv, jnorm L (snd kv))] @ map (\<lambda>kv. (fst kv, jnorm L (snd kv))) m1), dec r (tokenValueEnd st) stk)"
      using m m1 assms(2) len g p(1) by (intro members_tail) (auto simp: memberText_def)
    finally show ?thesis unfolding in' by (simp add: m)
  qed
  with d st show "decodeValue fuel (dec ((''{'' @ Join ps '','' @ ''}'') @ r) st stk) depth
      = Inr (jnorm L (JObject m'), dec r (tokenValueEnd st) stk)"
    by (simp add: f Token_open assms(3))
qed

subsection \<open>The round trip\<close>

lemma seqr_Inr_iff: "seqr f xs = Inr ys \<longleftrightarrow> list_all2 (\<lambda>x y. f x = Inr y) xs ys"
  by (induction xs arbitrary: ys) (auto simp: rbind_Inr_iff list_all2_Cons1)

lemma seqr_mem: "\<lbrakk>seqr f xs = Inr ys; y \<in> set ys\<rbrakk> \<Longrightarrow> \<exists>x \<in> set xs. f x = Inr y"
  by (induction xs arbitrary: ys) (auto simp: rbind_Inr_iff)

lemma write_decodes:
  assumes "numberTexts L" "distinctKeys v" "writeCanonicalJSON L v = Inr a"
  shows "decodes L v a"
  using assms(2,3)
proof (induction v arbitrary: a rule: measure_induct_rule [of size])
  case (less v)
  show ?case
  proof (cases v)
    case (JArray vs)
    with less(3) obtain as where as: "seqr (\<lambda>v. writeCanonicalJSON L v) vs = Inr as" "a = ''['' @ Join as '','' @ '']''"
      by (auto simp: rbind_Inr_iff)
    have "list_all2 (\<lambda>v a. decodes L v a \<and> a \<noteq> [] \<and> firstKind (hd a) < 6) vs as"
    proof (rule list.rel_mono_strong [OF as(1) [unfolded seqr_Inr_iff]])
      fix v' a' assume "v' \<in> set vs" "writeCanonicalJSON L v' = Inr a'"
      moreover have "kindOf v' < 6" by (cases v') simp_all
      ultimately show "decodes L v' a' \<and> a' \<noteq> [] \<and> firstKind (hd a') < 6"
        using less JArray first_kind [OF numberTexts_floatTexts [OF assms(1)]] by (auto simp: json_item_size simp del: json.size)
    qed
    then show ?thesis unfolding JArray as(2) by (rule decodes_array)
  next
    case (JObject m)
    let ?f = "\<lambda>kv. rbind (writeCanonicalString (fst kv)) (\<lambda>key. rbind (writeCanonicalJSON L (snd kv)) (\<lambda>val. Inr (key @ '':'' @ val)))"
    from less(3) JObject obtain ps where ps: "seqr ?f (sortedKeys m) = Inr ps" "a = ''{'' @ Join ps '','' @ ''}''"
      by (auto simp: rbind_Inr_iff)
    have "list_all2 (\<lambda>kv p. \<exists>a. p = memberText (fst kv) a \<and> decodes L (snd kv) a) (sortedKeys m) ps"
    proof (rule list.rel_mono_strong [OF ps(1) [unfolded seqr_Inr_iff]])
      fix kv p assume kv: "kv \<in> set (sortedKeys m)" "?f kv = Inr p"
      then obtain key val where "writeCanonicalString (fst kv) = Inr key" "writeCanonicalJSON L (snd kv) = Inr val" "p = key @ '':'' @ val"
        by (auto simp: rbind_Inr_iff)
      moreover have "size (snd kv) < size v" "distinctKeys (snd kv)"
        using kv(1) JObject less(2) by (auto simp: json_member_size simp del: json.size)
      ultimately show "\<exists>a. p = memberText (fst kv) a \<and> decodes L (snd kv) a"
        using less(1) by (auto simp: writeCanonicalString_def memberText_def split: if_splits)
    qed
    moreover have "distinct (map fst (sortedKeys m))"
      using less(2) JObject by (simp add: sortedKeys_def distinct_map inj_on_def)
    ultimately show ?thesis unfolding JObject ps(2) by (rule decodes_object) simp
  qed (use decodes_scalar [OF assms(1) less(3)] in simp_all)
qed

lemma numChars_ascii: "list_all numChar s \<Longrightarrow> ascii s"
  by (auto simp: ascii_def list_all_iff numChar_def isASCIIDigit_def less_eq_char_def)

lemma ValidString_Join: "\<lbrakk>\<forall>p \<in> set ps. ValidString p; ValidString sep\<rbrakk> \<Longrightarrow> ValidString (Join ps sep)"
  by (induction ps sep rule: Join.induct) (simp_all add: ValidString_append)

lemma write_valid:
  assumes "numberTexts L" "writeCanonicalJSON L v = Inr a"
  shows "ValidString a"
  using assms(2)
proof (induction v arbitrary: a rule: measure_induct_rule [of size])
  case (less v)
  have str: "ValidString a'" if "writeCanonicalString s = Inr a'" for s a'
    using that ValidString_escaped [of s] by (auto simp: writeCanonicalString_def ValidString_append split: if_splits)
  show ?case
  proof (cases v)
    case (JArray vs)
    with less(2) obtain as where as: "seqr (\<lambda>v. writeCanonicalJSON L v) vs = Inr as" "a = ''['' @ Join as '','' @ '']''"
      by (auto simp: rbind_Inr_iff)
    have "ValidString p" if p: "p \<in> set as" for p
    proof -
      from p as(1) obtain v' where "v' \<in> set vs" "writeCanonicalJSON L v' = Inr p"
        by (metis seqr_mem)
      with less(1) json_item_size show ?thesis unfolding JArray by blast
    qed
    then show ?thesis by (simp add: as(2) ValidString_append ValidString_Join)
  next
    case (JObject m)
    let ?f = "\<lambda>kv. rbind (writeCanonicalString (fst kv)) (\<lambda>key. rbind (writeCanonicalJSON L (snd kv)) (\<lambda>val. Inr (key @ '':'' @ val)))"
    from less(2) JObject obtain ps where ps: "seqr ?f (sortedKeys m) = Inr ps" "a = ''{'' @ Join ps '','' @ ''}''"
      by (auto simp: rbind_Inr_iff)
    have "ValidString p" if p: "p \<in> set ps" for p
    proof -
      obtain kv where "kv \<in> set (sortedKeys m)" "?f kv = Inr p"
        using seqr_mem [OF ps(1) p] by blast
      then obtain key val where p': "writeCanonicalString (fst kv) = Inr key" "writeCanonicalJSON L (snd kv) = Inr val" "p = key @ '':'' @ val"
        and kv: "kv \<in> set m" by (auto simp: rbind_Inr_iff)
      have "size (snd kv) < size v" unfolding JObject by (rule json_member_size [OF kv])
      then have "ValidString val" using less(1) p'(2) by blast
      with str [OF p'(1)] show ?thesis by (simp add: p'(3) ValidString_append)
    qed
    then show ?thesis by (simp add: ps(2) ValidString_append ValidString_Join)
  next
    case (JNumber t)
    then have "list_all numChar a" using number_text [OF numberTexts_floatTexts [OF assms(1)] _ less(2)] by simp
    then show ?thesis by (intro ValidString_ascii_list numChars_ascii)
  next
    case (JInt i)
    then have "list_all numChar a" using number_text [OF numberTexts_floatTexts [OF assms(1)] _ less(2)] by simp
    then show ?thesis by (intro ValidString_ascii_list numChars_ascii)
  qed (use less(2) str in auto)
qed

lemma nesting_le:
  "d + nesting (JObject m) \<le> n \<longleftrightarrow> d \<le> n \<and> (\<forall>kv \<in> set m. d + 1 + nesting (snd kv) \<le> n)"
  "d + nesting (JArray vs) \<le> n \<longleftrightarrow> d \<le> n \<and> (\<forall>v \<in> set vs. d + 1 + nesting v \<le> n)"
proof -
  have "d + Max (insert 0 S) \<le> n \<longleftrightarrow> d \<le> n \<and> (\<forall>s \<in> S. d + s \<le> n)" if "finite S" for S :: "nat set"
  proof (cases "d \<le> n")
    case True
    then have "d + Max (insert 0 S) \<le> n \<longleftrightarrow> Max (insert 0 S) \<le> n - d" by linarith
    also have "\<dots> \<longleftrightarrow> (\<forall>s \<in> S. s \<le> n - d)" using that by (subst Max_le_iff) auto
    finally show ?thesis using True by (auto simp: le_diff_conv2 add.commute)
  qed simp
  then show "d + nesting (JObject m) \<le> n \<longleftrightarrow> d \<le> n \<and> (\<forall>kv \<in> set m. d + 1 + nesting (snd kv) \<le> n)"
    "d + nesting (JArray vs) \<le> n \<longleftrightarrow> d \<le> n \<and> (\<forall>v \<in> set vs. d + 1 + nesting v \<le> n)"
    by simp_all
qed

lemma scalar_kind: "scalar s = Some (v, r) \<Longrightarrow> distinctKeys v \<and> nesting v = 0"
  by (auto simp: scalar_def split: if_splits)

lemma Token_scalar_kind: "Token d = Inr (TValue v, d1) \<Longrightarrow> distinctKeys v \<and> nesting v = 0"
proof (induction "length (dInput d)" arbitrary: d rule: less_induct)
  case less
  show ?case
  proof (cases "dropWhile isSpace (dInput d)")
    case Nil
    with less(2) show ?thesis by (simp add: Token.simps [of d])
  next
    case (Cons c r)
    have IH: "distinctKeys v \<and> nesting v = 0" if "Token (d\<lparr>dInput := r, dState := st\<rparr>) = Inr (TValue v, d1)" for st
      using less(1) [OF _ that] dropWhile_shorter [OF Cons] by simp
    from less(2) show ?thesis
      unfolding Token.simps [of d] Cons list.case
      by (auto simp: openDelim_def closeDelim_def split: if_splits list.splits option.splits dest!: scalar_kind IH)
  qed
qed

text \<open>What the decoder returns has distinct keys and respects the limit.\<close>

lemma decode_value_wf:
  "(decodeValue fuel d depth = Inr (v, d') \<longrightarrow> distinctKeys v \<and> depth + nesting v \<le> 64)
   \<and> (decodeMembers fuel d depth obj = Inr (v, d') \<longrightarrow> depth + nesting (JObject obj) \<le> 64 \<longrightarrow> distinctKeys (JObject obj)
        \<longrightarrow> distinctKeys v \<and> depth + nesting v \<le> 64)
   \<and> (decodeItems fuel d depth vs = Inr (v, d') \<longrightarrow> depth + nesting (JArray vs) \<le> 64 \<longrightarrow> distinctKeys (JArray vs)
        \<longrightarrow> distinctKeys v \<and> depth + nesting v \<le> 64)"
proof (induction fuel arbitrary: d depth obj vs v d')
  case (Suc fuel)
  show ?case
  proof (intro conjI impI)
    assume a: "decodeValue (Suc fuel) d depth = Inr (v, d')"
    note scalar = Token_scalar_kind [of d v]
    from decodeValue_Inr [OF a] scalar Suc.IH show "distinctKeys v" "depth + nesting v \<le> 64" by fastforce+
  next
    assume a: "decodeMembers (Suc fuel) d depth obj = Inr (v, d')" and n: "depth + nesting (JObject obj) \<le> 64" and k: "distinctKeys (JObject obj)"
    have "distinctKeys v \<and> depth + nesting v \<le> 64"
      using decodeMembers_Inr [OF a]
    proof (elim disjE exE conjE)
      fix name d1 x d2
      assume h: "map_of obj name = None" "decodeValue fuel d1 (depth + 1) = Inr (x, d2)"
        "decodeMembers fuel d2 depth (AList.update name x obj) = Inr (v, d')"
      from h(2) Suc.IH have x: "distinctKeys x" "depth + 1 + nesting x \<le> 64" by blast+
      have u: "AList.update name x obj = obj @ [(name, x)]" using h(1) by (simp add: update_new map_of_eq_None_iff)
      with x n k h(1) have "depth + nesting (JObject (AList.update name x obj)) \<le> 64" "distinctKeys (JObject (AList.update name x obj))"
        by (auto simp: map_of_eq_None_iff nesting_le simp del: nesting.simps)
      with h(3) Suc.IH show ?thesis by blast
    qed (use n k in simp)
    then show "distinctKeys v" "depth + nesting v \<le> 64" by auto
  next
    assume a: "decodeItems (Suc fuel) d depth vs = Inr (v, d')" and n: "depth + nesting (JArray vs) \<le> 64" and k: "distinctKeys (JArray vs)"
    have "distinctKeys v \<and> depth + nesting v \<le> 64"
      using decodeItems_Inr [OF a]
    proof (elim disjE exE conjE)
      fix x d1
      assume h: "decodeValue fuel d (depth + 1) = Inr (x, d1)" "decodeItems fuel d1 depth (vs @ [x]) = Inr (v, d')"
      from h(1) Suc.IH have x: "distinctKeys x" "depth + 1 + nesting x \<le> 64" by blast+
      with n k have "depth + nesting (JArray (vs @ [x])) \<le> 64" "distinctKeys (JArray (vs @ [x]))"
        by (auto simp: nesting_le simp del: nesting.simps)
      with h(2) Suc.IH show ?thesis by blast
    qed (use n k in simp)
    then show "distinctKeys v" "depth + nesting v \<le> 64" by auto
  qed
qed simp

lemma decoded_wf:
  assumes "DecodeObject data = Inr m"
  shows "distinctKeys (JObject m) \<and> nesting (JObject m) \<le> 64"
proof -
  from assms obtain fuel d d' where "decodeValue fuel d 0 = Inr (JObject m, d')"
    by (auto simp: DecodeObject_def rbind_Inr_iff simp del: decodeValue.simps split: if_splits json.splits)
  from decode_value_wf [THEN conjunct1, rule_format, OF this] show ?thesis by simp
qed

lemma decode_written:
  assumes "numberTexts L" "distinctKeys (JObject m)" "nesting (JObject m) \<le> 64" and w: "writeCanonicalJSON L (JObject m) = Inr bs"
  shows "\<exists>m'. DecodeObject bs = Inr m' \<and> JObject m' = jnorm L (JObject m)"
proof -
  have "decodeValue (2 * length bs + 1) (dec (bs @ []) TokenTopValue []) 0
      = Inr (jnorm L (JObject m), dec [] (tokenValueEnd TokenTopValue) [])"
    using assms(3) by (intro decodesD [OF write_decodes [OF assms(1,2) w]]) (simp_all add: tokenValueAllowed_def stop_def)
  moreover have "Token (dec [] (tokenValueEnd TokenTopValue) []) = Inl (PlainError ''EOF'' None)"
    by (simp add: Token.simps)
  ultimately show ?thesis using write_valid [OF assms(1) w] by (simp add: DecodeObject_def)
qed

text \<open>
  C36. Decoding inverts the canonical encoding: the bytes of any object that encodes, nested at
  most 64 levels deep, decode to that object with its members in canonical order and its numbers
  as they were printed.
\<close>
theorem decode_canonical:
  assumes "numberTexts L" and "distinctKeys (JObject m)" and "nesting (JObject m) \<le> 64"
    and "canonicalJSON L (JObject m) = Inr bs"
  shows "\<exists>m'. DecodeObject bs = Inr m' \<and> JObject m' = jnorm L (JObject m)"
  using assms(4) by (intro decode_written [OF assms(1-3)]) (simp add: canonicalJSON_def rbind_Inr_iff)

text \<open>
  C37. Decoding always ends with a value or one of the errors of the code: the fuel of the model's
  recursion is never exhausted, whatever the input.
\<close>
theorem decode_terminates: "DecodeObject data \<noteq> Inl errFuel"
proof -
  let ?d = "dec data TokenTopValue []"
  have "decodeValue (2 * length data + 1) ?d 0 \<noteq> Inl errFuel"
    by (rule decode_fuel [THEN conjunct1, rule_format]) simp
  then show ?thesis
    by (auto simp: DecodeObject_def rbind_Inl_iff errFuel_def split: json.splits)
qed

lemma sample_number_texts: "numberTexts sample_float"
  by (simp add: numberTexts_def sample_float_def scanNumber_FormatInt)

theorem decode_canonical_witness:
  "\<exists>m'. DecodeObject (CHR ''{'' # [CHR 0x22, CHR ''a'', CHR 0x22] @ '':7,'' @ [CHR 0x22, CHR ''b'', CHR 0x22] @ '':[]}'') = Inr m'
     \<and> JObject m' = jnorm sample_float (JObject [(''b'', JArray []), (''a'', JInt 7)])"
proof (rule decode_canonical [OF sample_number_texts])
  show "canonicalJSON sample_float (JObject [(''b'', JArray []), (''a'', JInt 7)])
    = Inr (CHR ''{'' # [CHR 0x22, CHR ''a'', CHR 0x22] @ '':7,'' @ [CHR 0x22, CHR ''b'', CHR 0x22] @ '':[]}'')"
    by code_simp
qed simp_all

end
