(* ===== verification/Lifecycle_Event.thy ===== *)
theory Lifecycle_Event
  imports Jwk_Keys Json_Decode Domain_Names Log_Reference Lifecycle_Log
begin

text \<open>
  Lifecycle events of the \<open>c2sp-tlog\<close> binding (\<open>log/c2sptlog/event.go\<close>, the payload checks of
  \<open>json.go\<close> and the signature roles of \<open>prepared.go\<close>): an event as a JSON payload, its canonical
  signing bytes and entry bytes, the way back, and the validation of its fields.

  The packages outside the repository are collected in \<open>eventLib\<close>: the key library, \<open>float64\<close>
  conversion, the IDNA profile, URL parsing and SHA-256.
\<close>

section \<open>Parameters and times\<close>

record ('k, 'p, 'q, 'f) eventLib =
  elKeys :: "('k, 'p, 'q) jwkLib"
  elFloat :: "'f floatLib"
  elToASCII :: "string \<Rightarrow> string option"
  elParse :: "string \<Rightarrow> URL option"
  elSha256 :: "bytes \<Rightarrow> bytes"
  elEqualFold :: "string \<Rightarrow> string \<Rightarrow> bool"

text \<open>
  \<open>time.Unix(s, 0)\<close> and \<open>t.Unix()\<close>: seconds are counted in an \<open>int64\<close> that wraps around. \<open>unixToInternal\<close> is
  the number of seconds from year 1 to 1970.
\<close>

definition wrap64 :: "int \<Rightarrow> int" where
  "wrap64 i = (i + 2 ^ 63) mod 2 ^ 64 - 2 ^ 63"

abbreviation "unixToInternal \<equiv> (62135596800::int)"
abbreviation "nanos \<equiv> (1000000000::int)"

definition timeUnix :: "int \<Rightarrow> gotime" where
  "timeUnix s = wrap64 (s + unixToInternal) * nanos"

definition unixTime :: "gotime \<Rightarrow> int" where
  "unixTime t = wrap64 (t div nanos - unixToInternal)"

text \<open>\<open>strconv.ParseInt(s, 10, 64)\<close>.\<close>

definition ParseInt :: "string \<Rightarrow> int option" where
  "ParseInt s =
     (case s of
        [] \<Rightarrow> None
      | c # r \<Rightarrow>
          if c = CHR ''-'' then
            (if decimalDigits r \<and> digitsValue 0 r \<le> 2 ^ 63 then Some (- int (digitsValue 0 r)) else None)
          else if c = CHR ''+'' then
            (if decimalDigits r \<and> digitsValue 0 r < 2 ^ 63 then Some (int (digitsValue 0 r)) else None)
          else if decimalDigits s \<and> digitsValue 0 s < 2 ^ 63 then Some (int (digitsValue 0 s)) else None)"

text \<open>
  \<open>errors.Join\<close>: \<open>nil\<close> when both are; the errors joined here are plain ones, and the chain of the
  result follows the first.
\<close>

definition errorsJoin :: "sdk_error option \<Rightarrow> sdk_error option \<Rightarrow> sdk_error option" where
  "errorsJoin a b =
     (case a of
        Some e \<Rightarrow> Some (PlainError ''errors.Join'' (Some e))
      | None \<Rightarrow> (case b of Some e \<Rightarrow> Some (PlainError ''errors.Join'' (Some e)) | None \<Rightarrow> None))"

definition errOf :: "'e + 'a \<Rightarrow> 'e option" where
  "errOf m = (case m of Inl e \<Rightarrow> Some e | Inr _ \<Rightarrow> None)"

section \<open>Payload fields\<close>

type_synonym payload = "(string \<times> json) list"

abbreviation "Kind \<equiv> ''dnsid.lifecycle''"
abbreviation "maxEntrySize \<equiv> (65535::nat)"

definition optionalString :: "payload \<Rightarrow> string \<Rightarrow> string option" where
  "optionalString payload key = (case map_of payload key of Some (JString s) \<Rightarrow> Some s | _ \<Rightarrow> None)"

text \<open>The value of \<open>optionalString\<close> when its second result is ignored.\<close>

definition stringOr :: "payload \<Rightarrow> string \<Rightarrow> string" where
  "stringOr payload key = (case optionalString payload key of Some s \<Rightarrow> s | None \<Rightarrow> '''')"

definition stringField :: "payload \<Rightarrow> string \<Rightarrow> sdk_error + string" where
  "stringField payload key =
     (case map_of payload key of
        Some (JString s) \<Rightarrow> if s = '''' then Inl (PlainError ''dnsid: c2sp-tlog event missing string field'' None) else Inr s
      | _ \<Rightarrow> Inl (PlainError ''dnsid: c2sp-tlog event missing string field'' None))"

text \<open>A decoded payload holds \<open>json.Number\<close>; the Go integers of an encoded one are not among the cases.\<close>

definition optionalInt64 :: "payload \<Rightarrow> string \<Rightarrow> sdk_error + int option" where
  "optionalInt64 payload key =
     (case map_of payload key of
        None \<Rightarrow> Inr None
      | Some JNull \<Rightarrow> Inr None
      | Some (JNumber t) \<Rightarrow>
          (case ParseInt t of
             None \<Rightarrow> Inl (PlainError ''dnsid: c2sp-tlog field is not an integer'' None)
           | Some i \<Rightarrow> Inr (Some i))
      | Some _ \<Rightarrow> Inl (PlainError ''dnsid: c2sp-tlog field is not an integer'' None))"

definition int64Field :: "payload \<Rightarrow> string \<Rightarrow> sdk_error + int" where
  "int64Field payload key =
     rbind (optionalInt64 payload key) (\<lambda>v.
       case v of
         None \<Rightarrow> Inl (PlainError ''dnsid: c2sp-tlog event missing integer field'' None)
       | Some i \<Rightarrow> Inr i)"

definition intField :: "payload \<Rightarrow> string \<Rightarrow> sdk_error + int" where
  "intField payload key = int64Field payload key"

definition optionalUint64 :: "payload \<Rightarrow> string \<Rightarrow> sdk_error + nat option" where
  "optionalUint64 payload key =
     rbind (optionalInt64 payload key) (\<lambda>v.
       case v of
         None \<Rightarrow> Inr None
       | Some i \<Rightarrow>
           if i < 0 then Inl (PlainError ''dnsid: c2sp-tlog field is negative'' None)
           else if i > maxJSONInteger then Inl (PlainError ''dnsid: c2sp-tlog field exceeds maximum JSON integer'' None)
           else Inr (Some (nat i)))"

definition optionalJWK ::
  "('k, 'p, 'q, 'f) eventLib \<Rightarrow> payload \<Rightarrow> string \<Rightarrow> sdk_error + 'k option" where
  "optionalJWK E payload key =
     (case map_of payload key of
        None \<Rightarrow> Inr None
      | Some value \<Rightarrow>
          rbind (canonicalJSON (elFloat E) value) (\<lambda>data.
            case jkParse (elKeys E) data of
              None \<Rightarrow> Inl (PlainError ''dnsid: parsing JWK'' None)
            | Some parsed \<Rightarrow> Inr (Some parsed)))"

definition parseSig :: "json option \<Rightarrow> (string \<times> string) option" where
  "parseSig v =
     (case v of
        Some (JObject obj) \<Rightarrow>
          (case (map_of obj ''kid'', map_of obj ''sig'') of
             (Some (JString kid), Some (JString sig)) \<Rightarrow> Some (kid, sig)
           | _ \<Rightarrow> None)
      | _ \<Rightarrow> None)"

text \<open>The strict decoder and the length and re-encoding tests accept exactly the encodings of 32 bytes.\<close>

definition validHash :: "string \<Rightarrow> bool" where
  "validHash value =
     (case RawURLDecode value of
        None \<Rightarrow> False
      | Some decoded \<Rightarrow> length decoded = 32 \<and> RawURLEncode decoded = value)"

definition EventID :: "('k, 'p, 'q, 'f) eventLib \<Rightarrow> bytes \<Rightarrow> string" where
  "EventID E signedBytes = RawURLEncode (elSha256 E (''dnsid-c2sp-event-v1'' @ [CHR 0x00] @ signedBytes))"

section \<open>Validation\<close>

definition validateSigningJWK :: "('k, 'p, 'q) jwkLib \<Rightarrow> 'k option \<Rightarrow> string \<Rightarrow> sdk_error + unit" where
  "validateSigningJWK K key field =
     (case key of
        None \<Rightarrow> Inl (PlainError ''dnsid: missing public JWK'' None)
      | Some k \<Rightarrow>
          if jkPrivate K k \<noteq> Some False then Inl (PlainError ''dnsid: JWK must be public'' None)
          else if jkUse K k \<noteq> None \<and> jkUse K k \<noteq> Some ''sig'' then Inl (PlainError ''dnsid: JWK must be for signatures'' None)
          else if jkKid K k = None \<or> jkKid K k = Some '''' then Inl (PlainError ''dnsid: c2sp-tlog JWK is missing kid'' None)
          else if jkAlg K k = None \<or> jkAlg K k = Some '''' then Inl (PlainError ''dnsid: c2sp-tlog JWK is missing alg'' None)
          else if jkType K k = keyTypeOKP then
            (if jkAlg K k \<noteq> Some ''EdDSA'' \<or> jkCrv K k \<noteq> Some ''Ed25519''
             then Inl (PlainError ''dnsid: c2sp-tlog JWK must use EdDSA with Ed25519'' None) else Inr ())
          else if jkType K k = keyTypeEC then
            (if jkAlg K k \<noteq> Some ''ES256'' \<or> jkCrv K k \<noteq> Some ''P-256''
             then Inl (PlainError ''dnsid: c2sp-tlog JWK must use ES256 with P-256'' None) else Inr ())
          else Inl (PlainError ''dnsid: c2sp-tlog JWK uses unsupported key type'' None))"

definition validateIssuance :: "('k, 'p, 'q) jwkLib \<Rightarrow> 'k LogEvent \<Rightarrow> sdk_error + unit" where
  "validateIssuance K event =
     (case (evInitialOperationalPublicKey event, evInitialEntityPublicKey event) of
        (Some ku, Some ek) \<Rightarrow>
          if evGovernanceID event = '''' then Inl (PlainError ''dnsid: c2sp-tlog ISSUANCE requires gi, ek, and ku'' None)
          else
            rbind (validateSigningJWK K (Some ek) ''ek'') (\<lambda>_.
            rbind (validateSigningJWK K (Some ku) ''ku'') (\<lambda>_.
            case thumbprint K ek of
              None \<Rightarrow> Inl (PlainError ''dnsid: c2sp-tlog ek thumbprint'' None)
            | Some entityThumb \<Rightarrow>
                (case thumbprint K ku of
                   None \<Rightarrow> Inl (PlainError ''dnsid: c2sp-tlog ku thumbprint'' None)
                 | Some operationalThumb \<Rightarrow>
                     check (entityThumb \<noteq> operationalThumb) (PlainError ''dnsid: c2sp-tlog ek and ku must be distinct'' None))))
      | _ \<Rightarrow> Inl (PlainError ''dnsid: c2sp-tlog ISSUANCE requires gi, ek, and ku'' None))"

definition validateRotation :: "('k, 'p, 'q) jwkLib \<Rightarrow> 'k LogEvent \<Rightarrow> sdk_error + unit" where
  "validateRotation K event =
     (case evNewOperationalPublicKey event of
        None \<Rightarrow> Inl (PlainError ''dnsid: c2sp-tlog KEY_ROTATION requires prev_thumb, new_thumb, and new_ku'' None)
      | Some newKU \<Rightarrow>
          if evPreviousOperationalThumbprint event = '''' \<or> evNewOperationalThumbprint event = ''''
          then Inl (PlainError ''dnsid: c2sp-tlog KEY_ROTATION requires prev_thumb, new_thumb, and new_ku'' None)
          else
            rbind (validateSigningJWK K (Some newKU) ''new_ku'') (\<lambda>_.
            check (thumbprint K newKU = Some (evNewOperationalThumbprint event))
              (PlainError ''dnsid: c2sp-tlog new_thumb does not match new_ku'' None)))"

definition validateLifecycleFields ::
  "('k, 'p, 'q, 'f) eventLib \<Rightarrow> 'k LogEvent \<Rightarrow> sdk_error + unit" where
  "validateLifecycleFields E event =
     (if NormalizeFQDN (elToASCII E) (evDomain event) \<noteq> Inr (evDomain event)
      then Inl (PlainError ''dnsid: c2sp-tlog fqdn must be normalized'' None)
      else if evType event = LogEventIssuance then validateIssuance (elKeys E) event
      else if evType event = LogEventKeyRotation then validateRotation (elKeys E) event
      else if evType event = LogEventRevocation then
        check (ValidRevocationReason (evReason event)) (PlainError ''dnsid: invalid c2sp-tlog REVOCATION reason'' None)
      else if evType event = LogEventRetirement then Inr ()
      else if evType event = LogEventMigration then
        (if evPreviousLog event = '''' \<or> evNewLog event = '''' \<or> evFinalEntryRef event = ''''
         then Inl (PlainError ''dnsid: c2sp-tlog MIGRATION requires prev_lr, new_lr, and prev_ref'' None)
         else check (evPreviousLog event \<noteq> evNewLog event) (PlainError ''dnsid: c2sp-tlog MIGRATION must change log reference'' None))
      else if evType event = LogEventDelegation then
        (if evDelegatee event = '''' \<or> evScope event = '''' \<or> evExpiry event = 0
         then Inl (PlainError ''dnsid: c2sp-tlog DELEGATION requires delegatee, scope, and expiry'' None)
         else check (evExpiry event mod nanos = 0)
           (PlainError ''dnsid: c2sp-tlog DELEGATION expiry must have whole-second precision'' None))
      else Inl (PlainError ''dnsid: unsupported c2sp-tlog event type'' None))"

definition kidOf :: "('k, 'p, 'q) jwkLib \<Rightarrow> 'k \<Rightarrow> string" where
  "kidOf K key = (case jkKid K key of None \<Rightarrow> '''' | Some kid \<Rightarrow> kid)"

definition validateEmbeddedSignatureKids :: "('k, 'p, 'q) jwkLib \<Rightarrow> 'k LogEvent \<Rightarrow> sdk_error + unit" where
  "validateEmbeddedSignatureKids K event =
     (if evType event = LogEventIssuance then
        (case (evInitialEntityPublicKey event, evInitialOperationalPublicKey event) of
           (Some ek, Some ku) \<Rightarrow>
             check (evInitialEntityKid event = kidOf K ek \<and> evInitialOperationalKid event = kidOf K ku)
               (PlainError ''dnsid: c2sp-tlog ISSUANCE signature kid does not match recorded key'' None)
         | _ \<Rightarrow> Inl (PlainError ''dnsid: ISSUANCE requires entity and operational keys'' None))
      else if evType event = LogEventKeyRotation then
        (case evNewOperationalPublicKey event of
           None \<Rightarrow> Inl (PlainError ''dnsid: KEY_ROTATION requires new operational key'' None)
         | Some newKU \<Rightarrow>
             check (evNewOperationalKid event = kidOf K newKU)
               (PlainError ''dnsid: c2sp-tlog KEY_ROTATION new_op kid does not match new_ku'' None))
      else Inr ())"

text \<open>\<open>validateResolvedKeyIDs\<close>: \<open>resolved\<close> maps the key ids seen to thumbprints.\<close>

fun resolvedKeyIDs :: "('k, 'p, 'q) jwkLib \<Rightarrow> string gomap \<Rightarrow> 'k option list \<Rightarrow> sdk_error + unit" where
  "resolvedKeyIDs K resolved [] = Inr ()"
| "resolvedKeyIDs K resolved (key # keys) =
     (case key of
        None \<Rightarrow> resolvedKeyIDs K resolved keys
      | Some k \<Rightarrow>
          (case thumbprint K k of
             None \<Rightarrow> Inl (PlainError ''jwk: thumbprint'' None)
           | Some thumb \<Rightarrow>
               if map_of resolved (kidOf K k) \<noteq> None \<and> map_of resolved (kidOf K k) \<noteq> Some thumb
               then Inl (PlainError ''dnsid: duplicate c2sp-tlog kid maps to different keys'' None)
               else resolvedKeyIDs K (AList.update (kidOf K k) thumb resolved) keys))"

definition validateResolvedKeyIDs :: "('k, 'p, 'q) jwkLib \<Rightarrow> 'k option list \<Rightarrow> sdk_error + unit" where
  "validateResolvedKeyIDs K keys = resolvedKeyIDs K [] keys"

section \<open>Signatures of an envelope\<close>

datatype SignerRole =
    SignerEntity | SignerOperationalCountersignature | SignerPreviousOperational | SignerNewOperational

definition requiredSignerRoles :: "string \<Rightarrow> sdk_error + SignerRole list" where
  "requiredSignerRoles eventType =
     (if eventType = LogEventIssuance then Inr [SignerEntity, SignerOperationalCountersignature]
      else if eventType = LogEventKeyRotation then Inr [SignerPreviousOperational, SignerNewOperational]
      else if eventType \<in> {LogEventRevocation, LogEventRetirement, LogEventMigration, LogEventDelegation}
      then Inr [SignerEntity]
      else Inl (PlainError ''dnsid: unsupported c2sp-tlog event type'' None))"

fun signatureName :: "SignerRole \<Rightarrow> string" where
  "signatureName SignerEntity = ''ae''"
| "signatureName SignerOperationalCountersignature = ''op''"
| "signatureName SignerPreviousOperational = ''prev_op''"
| "signatureName SignerNewOperational = ''new_op''"

definition signatureWellFormed :: "string list \<Rightarrow> string \<times> json \<Rightarrow> sdk_error + unit" where
  "signatureWellFormed allowed kv =
     (if fst kv \<notin> set allowed then Inl (PlainError ''dnsid: unexpected c2sp-tlog signature role'' None)
      else (case parseSig (Some (snd kv)) of
              None \<Rightarrow> Inl (PlainError ''dnsid: malformed c2sp-tlog signature role'' None)
            | Some (kid, sig) \<Rightarrow>
                if kid = '''' \<or> sig = '''' then Inl (PlainError ''dnsid: malformed c2sp-tlog signature role'' None)
                else if map_option RawURLEncode (RawURLDecode sig) \<noteq> Some sig
                then Inl (PlainError ''dnsid: c2sp-tlog signature role is not unpadded base64url'' None)
                else Inr ()))"

definition validateSignatureShape :: "payload \<Rightarrow> SignerRole list \<Rightarrow> bool \<Rightarrow> sdk_error + unit" where
  "validateSignatureShape envelope required complete =
     (let allowed = map signatureName required in
      case map_of envelope ''sigs'' of
        None \<Rightarrow> if complete then Inl (PlainError ''dnsid: c2sp-tlog event missing signatures'' None) else Inr ()
      | Some (JObject obj) \<Rightarrow>
          rbind (seqr (signatureWellFormed allowed) obj) (\<lambda>_.
            check (\<not> complete \<or> list_all (\<lambda>name. map_of obj name \<noteq> None) allowed)
              (PlainError ''dnsid: c2sp-tlog event missing signature role'' None))
      | Some _ \<Rightarrow> Inl (PlainError ''dnsid: c2sp-tlog sigs field must be an object'' None))"

fun containsRole :: "SignerRole list \<Rightarrow> SignerRole \<Rightarrow> bool" where
  "containsRole [] role = False"
| "containsRole (candidate # roles) role = (if candidate = role then True else containsRole roles role)"

definition sigMember :: "string \<times> json \<Rightarrow> sdk_error + unit" where
  "sigMember kv =
     (if fst kv \<noteq> ''kid'' \<and> fst kv \<noteq> ''sig'' then Inl (PlainError ''dnsid: unsupported c2sp-tlog signature member'' None)
      else (case snd kv of
              JString _ \<Rightarrow> Inr ()
            | _ \<Rightarrow> Inl (PlainError ''dnsid: c2sp-tlog signature member must be a string'' None)))"

definition rejectUnknownSigFields :: "json \<Rightarrow> sdk_error + unit" where
  "rejectUnknownSigFields value =
     (case value of
        JObject sigs \<Rightarrow>
          rbind (seqr (\<lambda>kv.
            if fst kv \<notin> {''ae'', ''op'', ''prev_op'', ''new_op''}
            then Inl (PlainError ''dnsid: unsupported c2sp-tlog signature field'' None)
            else (case snd kv of
                    JObject sig \<Rightarrow> rbind (seqr sigMember sig) (\<lambda>_. Inr ())
                  | _ \<Rightarrow> Inl (PlainError ''dnsid: c2sp-tlog signature must be an object'' None))) sigs) (\<lambda>_. Inr ())
      | _ \<Rightarrow> Inl (PlainError ''dnsid: c2sp-tlog sigs field must be an object'' None))"

definition validatePayloadJSON :: "'f floatLib \<Rightarrow> payload \<Rightarrow> sdk_error + unit" where
  "validatePayloadJSON L obj =
     rbind (seqr (\<lambda>kv. if fst kv = ''sigs'' then rejectUnknownSigFields (snd kv) else rejectUnsupportedJSON L (snd kv)) obj)
       (\<lambda>_. Inr ())"

section \<open>From an event to its entry\<close>

record Chain =
  chSequence :: nat
  chPreviousEventID :: string
  chPreviousStateHash :: string

record chainFields =
  cfSequence :: "nat option"
  cfPreviousEventID :: string
  cfInvalid :: bool
  cfPreviousStateHash :: string

definition zeroChainFields :: chainFields where
  "zeroChainFields = \<lparr>cfSequence = None, cfPreviousEventID = '''', cfInvalid = False, cfPreviousStateHash = ''''\<rparr>"

definition chainFieldsFromChain :: "'k LogEvent \<Rightarrow> Chain \<Rightarrow> chainFields" where
  "chainFieldsFromChain event chain =
     (let fields = zeroChainFields\<lparr>cfSequence := Some (chSequence chain)\<rparr>
      in if chSequence chain \<noteq> 0 \<or> evType event \<noteq> LogEventIssuance
         then fields\<lparr>cfPreviousEventID := chPreviousEventID chain, cfPreviousStateHash := chPreviousStateHash chain\<rparr>
         else fields)"

definition putString :: "string \<Rightarrow> string \<Rightarrow> payload \<Rightarrow> payload" where
  "putString key value payload = (if value \<noteq> '''' then AList.update key (JString value) payload else payload)"

definition keyAsJSON :: "('k, 'p, 'q, 'f) eventLib \<Rightarrow> 'k \<Rightarrow> sdk_error + json" where
  "keyAsJSON E key =
     (case jkMarshal (elKeys E) key of
        None \<Rightarrow> Inl (PlainError ''dnsid: marshal JWK'' None)
      | Some data \<Rightarrow>
          rbind (map_err (\<lambda>e. PlainError ''dnsid: decode JWK'' (Some e)) (decodeJSONObject data)) (\<lambda>decoded.
            Inr (JObject decoded)))"

definition putKey :: "('k, 'p, 'q, 'f) eventLib \<Rightarrow> string \<Rightarrow> 'k option \<Rightarrow> payload \<Rightarrow> sdk_error + payload" where
  "putKey E name key payload =
     (case key of
        None \<Rightarrow> Inr payload
      | Some k \<Rightarrow> rbind (keyAsJSON E k) (\<lambda>j. Inr (AList.update name j payload)))"

definition basePayload :: "'k LogEvent \<Rightarrow> int \<Rightarrow> payload" where
  "basePayload event ts =
     [(''v'', JInt 1), (''kind'', JString Kind), (''type'', JString (evType event)), (''fqdn'', JString (evDomain event)), (''ts'', JInt ts)]"

definition putReference ::
  "('k, 'p, 'q, 'f) eventLib \<Rightarrow> Reference option \<Rightarrow> payload \<Rightarrow> sdk_error + payload" where
  "putReference E ref payload =
     (case ref of
        None \<Rightarrow> Inr payload
      | Some r \<Rightarrow>
          rbind (Origin (elParse E) r) (\<lambda>origin.
            Inr (AList.update ''lr'' (JString (reference_String r))
                (AList.update ''stream_id'' (JString (refStreamID r))
                (AList.update ''log_origin'' (JString origin)
                (AList.update ''method'' (JString Method) payload))))))"

definition putChain :: "chainFields option \<Rightarrow> payload \<Rightarrow> payload" where
  "putChain chain payload =
     (case chain of
        None \<Rightarrow> payload
      | Some c \<Rightarrow>
          putString ''prev_state_hash'' (cfPreviousStateHash c)
            (putString ''prev_event_id'' (cfPreviousEventID c)
              (case cfSequence c of None \<Rightarrow> payload | Some seq \<Rightarrow> AList.update ''seq'' (JInt (int seq)) payload)))"

definition putTypeFields ::
  "('k, 'p, 'q, 'f) eventLib \<Rightarrow> 'k LogEvent \<Rightarrow> payload \<Rightarrow> sdk_error + payload" where
  "putTypeFields E event payload =
     (if evType event = LogEventIssuance then
        rbind (putKey E ''ku'' (evInitialOperationalPublicKey event) (putString ''gi'' (evGovernanceID event) payload)) (\<lambda>p1.
          putKey E ''ek'' (evInitialEntityPublicKey event) p1)
      else if evType event = LogEventKeyRotation then
        putKey E ''new_ku'' (evNewOperationalPublicKey event)
          (putString ''new_thumb'' (evNewOperationalThumbprint event)
            (putString ''prev_thumb'' (evPreviousOperationalThumbprint event) payload))
      else if evType event = LogEventRevocation then Inr (putString ''reason'' (evReason event) payload)
      else if evType event = LogEventRetirement then Inr payload
      else if evType event = LogEventMigration then
        Inr (putString ''prev_ref'' (evFinalEntryRef event)
              (putString ''new_lr'' (evNewLog event) (putString ''prev_lr'' (evPreviousLog event) payload)))
      else if evType event = LogEventDelegation then
        (let p1 = putString ''scope'' (evScope event) (putString ''delegatee'' (evDelegatee event) payload)
         in Inr (if evExpiry event \<noteq> 0 then AList.update ''expiry'' (JInt (unixTime (evExpiry event))) p1 else p1))
      else Inl (PlainError ''dnsid: unsupported c2sp-tlog event type'' None))"

definition sigObject :: "string \<Rightarrow> string \<Rightarrow> json" where
  "sigObject kid sig = JObject [(''kid'', JString kid), (''sig'', JString sig)]"

definition putSig :: "string \<Rightarrow> string \<Rightarrow> string \<Rightarrow> payload \<Rightarrow> payload" where
  "putSig name kid sig sigs = (if kid \<noteq> '''' \<and> sig \<noteq> '''' then AList.update name (sigObject kid sig) sigs else sigs)"

definition signaturesFromEvent :: "'k LogEvent \<Rightarrow> payload" where
  "signaturesFromEvent event =
     (if evType event = LogEventIssuance then
        putSig ''op'' (evInitialOperationalKid event) (evInitialOperationalSignature event)
          (putSig ''ae'' (evInitialEntityKid event) (evInitialEntitySignature event) [])
      else if evType event = LogEventKeyRotation then
        putSig ''new_op'' (evNewOperationalKid event) (evNewOperationalSignature event)
          (putSig ''prev_op'' (evPreviousOperationalKid event) (evPreviousOperationalSignature event) [])
      else putSig ''ae'' (evInitialEntityKid event) (evInitialEntitySignature event) [])"

definition payloadFromEventWithChain ::
  "('k, 'p, 'q, 'f) eventLib \<Rightarrow> 'k LogEvent \<Rightarrow> bool \<Rightarrow> Reference option \<Rightarrow> chainFields option \<Rightarrow> sdk_error + payload" where
  "payloadFromEventWithChain E event includeSigs ref chain =
     (if evType event = '''' then Inl (PlainError ''dnsid: c2sp-tlog event type is required'' None)
      else if evDomain event = '''' then Inl (PlainError ''dnsid: c2sp-tlog event domain is required'' None)
      else if evTimestamp event = 0 then Inl (PlainError ''dnsid: c2sp-tlog event timestamp is required'' None)
      else
        rbind (validateLifecycleFields E event) (\<lambda>_.
        if unixTime (evTimestamp event) < 0 \<or> unixTime (evTimestamp event) > maxJSONInteger
        then Inl (PlainError ''dnsid: c2sp-tlog event timestamp out of range'' None)
        else
          rbind (putReference E ref (basePayload event (unixTime (evTimestamp event)))) (\<lambda>p1.
          rbind (putTypeFields E event (putChain chain p1)) (\<lambda>p2.
          if \<not> includeSigs then Inr p2
          else if signaturesFromEvent event = [] then Inl (PlainError ''dnsid: c2sp-tlog event has no signatures'' None)
          else Inr (AList.update ''sigs'' (JObject (signaturesFromEvent event)) p2)))))"

definition payloadFromEvent ::
  "('k, 'p, 'q, 'f) eventLib \<Rightarrow> 'k LogEvent \<Rightarrow> bool \<Rightarrow> Reference option \<Rightarrow> sdk_error + payload" where
  "payloadFromEvent E event includeSigs ref = payloadFromEventWithChain E event includeSigs ref None"

definition event_Canonical :: "('k, 'p, 'q, 'f) eventLib \<Rightarrow> 'k LogEvent \<Rightarrow> sdk_error + bytes" where
  "event_Canonical E event =
     rbind (payloadFromEvent E event False None) (\<lambda>payload. canonicalJSON (elFloat E) (JObject payload))"

definition entryBytesWithChain ::
  "('k, 'p, 'q, 'f) eventLib \<Rightarrow> 'k LogEvent \<Rightarrow> Reference option \<Rightarrow> chainFields option \<Rightarrow> sdk_error + bytes" where
  "entryBytesWithChain E event ref chain =
     rbind (payloadFromEventWithChain E event True ref chain) (\<lambda>payload.
     rbind (canonicalJSON (elFloat E) (JObject payload)) (\<lambda>body.
       if length body > maxEntrySize then Inl (PlainError ''dnsid: c2sp-tlog entry is too large'' None) else Inr body))"

definition entryBytes ::
  "('k, 'p, 'q, 'f) eventLib \<Rightarrow> 'k LogEvent \<Rightarrow> Reference option \<Rightarrow> sdk_error + bytes" where
  "entryBytes E event ref = entryBytesWithChain E event ref None"

definition EntryBytes :: "('k, 'p, 'q, 'f) eventLib \<Rightarrow> 'k LogEvent \<Rightarrow> sdk_error + bytes" where
  "EntryBytes E event = entryBytes E event None"

section \<open>From an entry to its event\<close>

record 'k parsedEvent =
  peEvent :: "'k LogEvent"
  peChain :: chainFields
  peValidationError :: "sdk_error option"

definition payloadObjectFromEntry :: "'f floatLib \<Rightarrow> bytes \<Rightarrow> sdk_error + payload" where
  "payloadObjectFromEntry L entry =
     (if entry = [] then Inl (PlainError ''dnsid: c2sp-tlog entry must not be empty'' None)
      else if length entry > maxEntrySize then Inl (PlainError ''dnsid: c2sp-tlog entry is too large'' None)
      else
        rbind (decodeJSONObject entry) (\<lambda>payload.
        rbind (validatePayloadJSON L payload) (\<lambda>_.
        rbind (canonicalJSON L (JObject payload)) (\<lambda>canonical.
          if entry \<noteq> canonical then Inl (PlainError ''dnsid: c2sp-tlog entry has non-canonical JCS encoding'' None)
          else Inr payload))))"

definition CanonicalFromEntry :: "'f floatLib \<Rightarrow> bytes \<Rightarrow> sdk_error + bytes" where
  "CanonicalFromEntry L entry =
     map_err (\<lambda>e. ParseError ''dnsid: parsing c2sp-tlog entry'' (Some e))
       (rbind (payloadObjectFromEntry L entry) (\<lambda>payload. canonicalJSON L (JObject (AList.delete ''sigs'' payload))))"

text \<open>The chain fields of a payload: \<open>invalid\<close> marks prohibited or malformed ones.\<close>

definition badHash :: "payload \<Rightarrow> string \<Rightarrow> bool" where
  "badHash payload name =
     (case map_of payload name of
        None \<Rightarrow> False
      | Some (JString s) \<Rightarrow> \<not> validHash s
      | Some _ \<Rightarrow> True)"

definition chainFromPayload :: "payload \<Rightarrow> chainFields" where
  "chainFromPayload payload =
     \<lparr>cfSequence = (case optionalUint64 payload ''seq'' of Inr (Some seq) \<Rightarrow> Some seq | _ \<Rightarrow> None),
      cfPreviousEventID = stringOr payload ''prev_event_id'',
      cfInvalid = (\<not> is_ok (optionalUint64 payload ''seq'')
        \<or> list_ex (\<lambda>name. map_of payload name \<noteq> None) [''prev_index'', ''prev_leaf_hash'', ''event_id'']
        \<or> list_ex (badHash payload) [''prev_event_id'', ''prev_state_hash'']),
      cfPreviousStateHash = stringOr payload ''prev_state_hash''\<rparr>"

text \<open>The thumbprint of a key read from a payload; an error leaves it empty.\<close>

definition thumbOr :: "('k, 'p, 'q) jwkLib \<Rightarrow> 'k \<Rightarrow> string" where
  "thumbOr K key = (case thumbprint K key of None \<Rightarrow> '''' | Some t \<Rightarrow> t)"

definition setKU :: "('k, 'p, 'q, 'f) eventLib \<Rightarrow> payload \<Rightarrow> 'k LogEvent \<times> sdk_error option \<Rightarrow> 'k LogEvent \<times> sdk_error option" where
  "setKU E payload ef =
     (case optionalJWK E payload ''ku'' of
        Inl e \<Rightarrow> (fst ef, errorsJoin (snd ef) (Some e))
      | Inr None \<Rightarrow> ef
      | Inr (Some key) \<Rightarrow>
          ((fst ef)\<lparr>evInitialOperationalPublicKey := Some key, evInitialOperationalThumbprint := thumbOr (elKeys E) key\<rparr>, snd ef))"

definition setEK :: "('k, 'p, 'q, 'f) eventLib \<Rightarrow> payload \<Rightarrow> 'k LogEvent \<times> sdk_error option \<Rightarrow> 'k LogEvent \<times> sdk_error option" where
  "setEK E payload ef =
     (case optionalJWK E payload ''ek'' of
        Inl e \<Rightarrow> (fst ef, errorsJoin (snd ef) (Some e))
      | Inr None \<Rightarrow> ef
      | Inr (Some key) \<Rightarrow>
          ((fst ef)\<lparr>evInitialEntityPublicKey := Some key, evInitialEntityThumbprint := thumbOr (elKeys E) key\<rparr>, snd ef))"

definition setNewKU :: "('k, 'p, 'q, 'f) eventLib \<Rightarrow> payload \<Rightarrow> 'k LogEvent \<times> sdk_error option \<Rightarrow> 'k LogEvent \<times> sdk_error option" where
  "setNewKU E payload ef =
     (case optionalJWK E payload ''new_ku'' of
        Inl e \<Rightarrow> (fst ef, errorsJoin (snd ef) (Some e))
      | Inr None \<Rightarrow> ef
      | Inr (Some key) \<Rightarrow> ((fst ef)\<lparr>evNewOperationalPublicKey := Some key\<rparr>, snd ef))"

definition setExpiry :: "payload \<Rightarrow> 'k LogEvent \<times> sdk_error option \<Rightarrow> 'k LogEvent \<times> sdk_error option" where
  "setExpiry payload ef =
     (case optionalInt64 payload ''expiry'' of
        Inl e \<Rightarrow> (fst ef, errorsJoin (snd ef) (Some e))
      | Inr None \<Rightarrow> ef
      | Inr (Some i) \<Rightarrow> ((fst ef)\<lparr>evExpiry := timeUnix i\<rparr>, snd ef))"

definition typeFieldsFromPayload ::
  "('k, 'p, 'q, 'f) eventLib \<Rightarrow> payload \<Rightarrow> 'k LogEvent \<Rightarrow> sdk_error option
    \<Rightarrow> sdk_error + 'k LogEvent \<times> sdk_error option" where
  "typeFieldsFromPayload E payload event fieldErr =
     (if evType event = LogEventIssuance then
        Inr (setEK E payload (setKU E payload (event\<lparr>evGovernanceID := stringOr payload ''gi''\<rparr>, fieldErr)))
      else if evType event = LogEventKeyRotation then
        Inr (setNewKU E payload (event\<lparr>evPreviousOperationalThumbprint := stringOr payload ''prev_thumb'',
                                      evNewOperationalThumbprint := stringOr payload ''new_thumb''\<rparr>, fieldErr))
      else if evType event = LogEventRevocation then Inr (event\<lparr>evReason := stringOr payload ''reason''\<rparr>, fieldErr)
      else if evType event = LogEventRetirement then Inr (event, fieldErr)
      else if evType event = LogEventMigration then
        Inr (event\<lparr>evPreviousLog := stringOr payload ''prev_lr'', evNewLog := stringOr payload ''new_lr'',
                   evFinalEntryRef := stringOr payload ''prev_ref''\<rparr>, fieldErr)
      else if evType event = LogEventDelegation then
        Inr (setExpiry payload (event\<lparr>evDelegatee := stringOr payload ''delegatee'', evScope := stringOr payload ''scope''\<rparr>, fieldErr))
      else Inl (PlainError ''dnsid: unsupported c2sp-tlog event type'' None))"

definition applySignatures :: "payload \<Rightarrow> 'k LogEvent \<Rightarrow> 'k LogEvent" where
  "applySignatures payload event =
     (case map_of payload ''sigs'' of
        Some (JObject sigs) \<Rightarrow>
          (let e1 = (case parseSig (map_of sigs ''ae'') of None \<Rightarrow> event
                     | Some (kid, sig) \<Rightarrow> event\<lparr>evInitialEntityKid := kid, evInitialEntitySignature := sig\<rparr>);
               e2 = (case parseSig (map_of sigs ''op'') of None \<Rightarrow> e1
                     | Some (kid, sig) \<Rightarrow> e1\<lparr>evInitialOperationalKid := kid, evInitialOperationalSignature := sig\<rparr>);
               e3 = (case parseSig (map_of sigs ''prev_op'') of None \<Rightarrow> e2
                     | Some (kid, sig) \<Rightarrow> e2\<lparr>evPreviousOperationalKid := kid, evPreviousOperationalSignature := sig\<rparr>)
           in (case parseSig (map_of sigs ''new_op'') of None \<Rightarrow> e3
               | Some (kid, sig) \<Rightarrow> e3\<lparr>evNewOperationalKid := kid, evNewOperationalSignature := sig\<rparr>))
      | _ \<Rightarrow> event)"

text \<open>The timestamp and its error, kept until the signatures have been checked.\<close>

definition timestampFromPayload :: "payload \<Rightarrow> int \<times> sdk_error option" where
  "timestampFromPayload payload =
     (let ts = (case int64Field payload ''ts'' of Inl _ \<Rightarrow> 0 | Inr i \<Rightarrow> i)
      in (ts, if ts < 0 \<or> ts > maxJSONInteger then Some (PlainError ''dnsid: c2sp-tlog event timestamp out of range'' None)
              else errOf (int64Field payload ''ts'')))"

definition eventFromPayload ::
  "('k, 'p, 'q, 'f) eventLib \<Rightarrow> payload \<Rightarrow> sdk_error + 'k parsedEvent" where
  "eventFromPayload E payload =
     rbind (intField payload ''v'') (\<lambda>version.
     if version \<noteq> 1 then Inl (PlainError ''dnsid: unsupported c2sp-tlog event version'' None)
     else
     rbind (stringField payload ''kind'') (\<lambda>kind.
     if kind \<noteq> Kind then Inl (PlainError ''dnsid: unsupported c2sp-tlog event kind'' None)
     else
     rbind (stringField payload ''type'') (\<lambda>typeStr.
     rbind (stringField payload ''fqdn'') (\<lambda>fqdn.
     rbind (typeFieldsFromPayload E payload
              (zeroLogEvent\<lparr>evType := typeStr, evDomain := fqdn, evTimestamp := timeUnix (fst (timestampFromPayload payload))\<rparr>)
              (snd (timestampFromPayload payload))) (\<lambda>(event, fieldErr).
     let signed = applySignatures payload event
     in Inr \<lparr>peEvent = signed, peChain = chainFromPayload payload,
             peValidationError = errorsJoin fieldErr (errOf (validateLifecycleFields E signed))\<rparr>)))))"

definition parseEventFromEntry ::
  "('k, 'p, 'q, 'f) eventLib \<Rightarrow> bytes \<Rightarrow> sdk_error + 'k parsedEvent" where
  "parseEventFromEntry E entry =
     rbind (payloadObjectFromEntry (elFloat E) entry) (\<lambda>payload.
     rbind (eventFromPayload E payload) (\<lambda>parsed.
     rbind (requiredSignerRoles (evType (peEvent parsed))) (\<lambda>required.
     rbind (validateSignatureShape payload required True) (\<lambda>_.
       Inr (parsed\<lparr>peValidationError :=
              errorsJoin (peValidationError parsed) (errOf (validateEmbeddedSignatureKids (elKeys E) (peEvent parsed)))\<rparr>)))))"

definition lifecycleEntryError :: "sdk_error \<Rightarrow> sdk_error" where
  "lifecycleEntryError e = ValidationError ''dnsid: validating c2sp-tlog lifecycle entry'' (Some e)"

definition LogEventFromEntry ::
  "('k, 'p, 'q, 'f) eventLib \<Rightarrow> bytes \<Rightarrow> sdk_error + 'k LogEvent" where
  "LogEventFromEntry E entry =
     rbind (map_err (\<lambda>e. ParseError ''dnsid: parsing c2sp-tlog lifecycle entry'' (Some e))
              (payloadObjectFromEntry (elFloat E) entry)) (\<lambda>payload.
     rbind (map_err lifecycleEntryError (eventFromPayload E payload)) (\<lambda>parsed.
     case peValidationError parsed of
       Some e \<Rightarrow> Inl (ValidationError ''dnsid: invalid lifecycle event'' (Some e))
     | None \<Rightarrow>
         rbind (map_err lifecycleEntryError (requiredSignerRoles (evType (peEvent parsed)))) (\<lambda>required.
         rbind (map_err lifecycleEntryError (validateSignatureShape payload required True)) (\<lambda>_.
         rbind (map_err lifecycleEntryError (validateEmbeddedSignatureKids (elKeys E) (peEvent parsed))) (\<lambda>_.
           Inr (peEvent parsed))))))"

section \<open>Reference definitions\<close>

text \<open>
  What an accepted event is. A usable key is public, meant for signatures, has a key id and one of the two
  algorithms with its curve.
\<close>

definition usableKey :: "('k, 'p, 'q) jwkLib \<Rightarrow> 'k \<Rightarrow> bool" where
  "usableKey K k =
     (jkPrivate K k = Some False \<and> jkUse K k \<in> {None, Some ''sig''} \<and> kidOf K k \<noteq> ''''
      \<and> (jkType K k = keyTypeOKP \<and> jkAlg K k = Some ''EdDSA'' \<and> jkCrv K k = Some ''Ed25519''
         \<or> jkType K k = keyTypeEC \<and> jkAlg K k = Some ''ES256'' \<and> jkCrv K k = Some ''P-256''))"

fun roleSignature :: "SignerRole \<Rightarrow> 'k LogEvent \<Rightarrow> string \<times> string" where
  "roleSignature SignerEntity event = (evInitialEntityKid event, evInitialEntitySignature event)"
| "roleSignature SignerOperationalCountersignature event = (evInitialOperationalKid event, evInitialOperationalSignature event)"
| "roleSignature SignerPreviousOperational event = (evPreviousOperationalKid event, evPreviousOperationalSignature event)"
| "roleSignature SignerNewOperational event = (evNewOperationalKid event, evNewOperationalSignature event)"

definition signaturePresent :: "string \<times> string \<Rightarrow> bool" where
  "signaturePresent s = (fst s \<noteq> '''' \<and> snd s \<noteq> '''' \<and> (\<exists>raw. snd s = RawURLEncode raw))"

definition issuanceShape :: "('k, 'p, 'q) jwkLib \<Rightarrow> 'k LogEvent \<Rightarrow> bool" where
  "issuanceShape K event =
     (\<exists>ek ku. evInitialEntityPublicKey event = Some ek \<and> evInitialOperationalPublicKey event = Some ku
        \<and> usableKey K ek \<and> usableKey K ku
        \<and> thumbprint K ek = Some (evInitialEntityThumbprint event) \<and> thumbprint K ku = Some (evInitialOperationalThumbprint event)
        \<and> evInitialEntityThumbprint event \<noteq> evInitialOperationalThumbprint event
        \<and> evInitialEntityKid event = kidOf K ek \<and> evInitialOperationalKid event = kidOf K ku \<and> evGovernanceID event \<noteq> '''')"

definition rotationShape :: "('k, 'p, 'q) jwkLib \<Rightarrow> 'k LogEvent \<Rightarrow> bool" where
  "rotationShape K event =
     (\<exists>ku. evNewOperationalPublicKey event = Some ku \<and> usableKey K ku
        \<and> thumbprint K ku = Some (evNewOperationalThumbprint event) \<and> evNewOperationalKid event = kidOf K ku
        \<and> evPreviousOperationalThumbprint event \<noteq> '''' \<and> evNewOperationalThumbprint event \<noteq> '''')"

definition eventShape :: "('k, 'p, 'q) jwkLib \<Rightarrow> 'k LogEvent \<Rightarrow> bool" where
  "eventShape K event =
     (evType event = LogEventIssuance \<and> issuanceShape K event
      \<or> evType event = LogEventKeyRotation \<and> rotationShape K event
      \<or> evType event = LogEventRevocation \<and> ValidRevocationReason (evReason event)
      \<or> evType event = LogEventRetirement
      \<or> evType event = LogEventMigration \<and> evPreviousLog event \<noteq> '''' \<and> evNewLog event \<noteq> '''' \<and> evFinalEntryRef event \<noteq> ''''
          \<and> evPreviousLog event \<noteq> evNewLog event
      \<or> evType event = LogEventDelegation \<and> evDelegatee event \<noteq> '''' \<and> evScope event \<noteq> '''' \<and> evExpiry event \<noteq> 0)"

definition wellFormedEvent :: "('k, 'p, 'q, 'f) eventLib \<Rightarrow> 'k LogEvent \<Rightarrow> bool" where
  "wellFormedEvent E event =
     (NormalizeFQDN (elToASCII E) (evDomain event) = Inr (evDomain event)
      \<and> (\<exists>ts. 0 \<le> ts \<and> ts \<le> maxJSONInteger \<and> evTimestamp event = timeUnix ts)
      \<and> eventShape (elKeys E) event
      \<and> (\<exists>roles. requiredSignerRoles (evType event) = Inr roles \<and> (\<forall>role \<in> set roles. signaturePresent (roleSignature role event))))"

text \<open>An event without its signatures, and payloads that differ in the signatures at most.\<close>

definition withoutSignatures :: "'k LogEvent \<Rightarrow> 'k LogEvent" where
  "withoutSignatures event =
     event\<lparr>evInitialEntityKid := '''', evInitialEntitySignature := '''', evInitialOperationalKid := '''', evInitialOperationalSignature := '''',
       evPreviousOperationalKid := '''', evPreviousOperationalSignature := '''', evNewOperationalKid := '''', evNewOperationalSignature := ''''\<rparr>"

definition agree :: "payload \<Rightarrow> payload \<Rightarrow> bool" where
  "agree p q = (\<forall>k. k \<noteq> ''sigs'' \<longrightarrow> map_of p k = map_of q k)"

text \<open>
  A library to evaluate with: a key is its key id, serialised as an object with one member, and every
  signature of the right length verifies.
\<close>

definition quoted :: "string \<Rightarrow> string" where
  "quoted s = CHR 0x22 # s @ [CHR 0x22]"

definition sample_ec :: "(unit, unit) ecdsaLib" where
  "sample_ec = \<lparr>ecOnP256 = (\<lambda>_. True), ecBytes = (\<lambda>_. None), ecParseUncompressed = (\<lambda>_. True), ecVerify = (\<lambda>_ _ _ _. False),
     ecPrivOnP256 = (\<lambda>_. True), ecPrivBytes = (\<lambda>_. None), ecPublic = id, ecSign = (\<lambda>_ _. None), ecSha256 = id, ecASN1 = (\<lambda>_. None)\<rparr>"

definition sample_jwk :: "(string, unit, unit) jwkLib" where
  "sample_jwk = \<lparr>jkThumb = (\<lambda>k. Some k), jkKid = (\<lambda>k. Some k),
     jkUse = (\<lambda>_. None), jkAlg = (\<lambda>_. Some ''EdDSA''), jkOps = (\<lambda>_. None), jkType = (\<lambda>_. keyTypeOKP),
     jkCrv = (\<lambda>_. Some ''Ed25519''), jkPrivate = (\<lambda>_. Some False),
     jkMarshal = (\<lambda>k. Some (''{'' @ quoted ''k'' @ '':'' @ quoted k @ ''}'')),
     jkParse = (\<lambda>data. Some (take (length data - 8) (drop 6 data))),
     jkEd25519 = (\<lambda>k. Some (replicate 32 (CHR 0x07))), jkECDSA = (\<lambda>_. None),
     jkEd25519Verify = (\<lambda>pub msg sig. True), jkEC = sample_ec\<rparr>"

definition sample_events :: "(string, unit, unit, int) eventLib" where
  "sample_events = \<lparr>elKeys = sample_jwk, elFloat = sample_float, elToASCII = sample_toASCII,
     elParse = (\<lambda>raw. Some \<lparr>urlScheme = ''https'', urlHost = ''l'', urlHasUser = False, urlEscapedPath = '''',
       urlHostname = ''l'', urlPort = ''''\<rparr>),
     elSha256 = (\<lambda>b. char_of (length b) # replicate 31 (CHR 0x00)), elEqualFold = (=)\<rparr>"

definition sample_retirement :: "string \<Rightarrow> bytes" where
  "sample_retirement sig = ''{'' @ quoted ''fqdn'' @ '':'' @ quoted ''a.b'' @ '','' @ quoted ''kind'' @ '':'' @ quoted Kind @ '',''
     @ quoted ''sigs'' @ '':{'' @ quoted ''ae'' @ '':{'' @ quoted ''kid'' @ '':'' @ quoted ''e'' @ '','' @ quoted ''sig'' @ '':'' @ quoted sig
     @ ''}},'' @ quoted ''ts'' @ '':1,'' @ quoted ''type'' @ '':'' @ quoted ''RETIREMENT'' @ '','' @ quoted ''v'' @ '':1}''"

section \<open>Lemmas\<close>

lemma validateSigningJWK_usable:
  "validateSigningJWK K (Some k) field = Inr () \<Longrightarrow> usableKey K k"
  by (auto simp: validateSigningJWK_def usableKey_def kidOf_def split: if_splits option.splits)

lemma errorsJoin_None: "errorsJoin a b = None \<longleftrightarrow> a = None \<and> b = None"
  by (simp add: errorsJoin_def split: option.splits)

lemma errOf_None: "errOf m = None \<longleftrightarrow> is_ok m"
  by (simp add: errOf_def is_ok_def split: sum.splits)

lemma seqr_all: "\<lbrakk>seqr f xs = Inr ys; x \<in> set xs\<rbrakk> \<Longrightarrow> \<exists>y. f x = Inr y"
  by (induction xs arbitrary: ys) (auto simp: rbind_Inr_iff)

text \<open>Each signature a complete set of signatures has is the one the event is given.\<close>

lemma parseSig_role:
  assumes "validateSignatureShape payload roles True = Inr ()" "role \<in> set roles"
  shows "\<exists>obj kid sig. map_of payload ''sigs'' = Some (JObject obj) \<and> parseSig (map_of obj (signatureName role)) = Some (kid, sig)
    \<and> signaturePresent (kid, sig)"
proof -
  from assms(1) obtain obj where s: "map_of payload ''sigs'' = Some (JObject obj)"
    and w: "is_ok (seqr (signatureWellFormed (map signatureName roles)) obj)"
    and c: "list_all (\<lambda>name. map_of obj name \<noteq> None) (map signatureName roles)"
    by (auto simp: validateSignatureShape_def Let_def check_def rbind_Inr_iff is_ok_def split: option.splits json.splits if_splits)
  from c assms(2) obtain v where v: "map_of obj (signatureName role) = Some v" by (auto simp: list_all_iff)
  then have "(signatureName role, v) \<in> set obj" by (rule map_of_SomeD)
  with w have "signatureWellFormed (map signatureName roles) (signatureName role, v) = Inr ()"
    by (cases "seqr (signatureWellFormed (map signatureName roles)) obj") (auto simp: is_ok_def dest: seqr_all)
  then obtain kid sig where "parseSig (Some v) = Some (kid, sig)" "kid \<noteq> ''''" "sig \<noteq> ''''" "map_option RawURLEncode (RawURLDecode sig) = Some sig"
    by (auto simp: signatureWellFormed_def split: if_splits option.splits)
  with s v show ?thesis by (auto simp: signaturePresent_def)
qed

lemma applySignatures_role:
  assumes "map_of payload ''sigs'' = Some (JObject obj)" "parseSig (map_of obj (signatureName role)) = Some (kid, sig)"
  shows "roleSignature role (applySignatures payload event) = (kid, sig)"
  using assms by (cases role) (simp_all add: applySignatures_def Let_def split: option.split prod.split)

lemma applySignatures_fields [simp]:
  "evType (applySignatures p e) = evType e" "evDomain (applySignatures p e) = evDomain e" "evTimestamp (applySignatures p e) = evTimestamp e"
  "evInitialEntityPublicKey (applySignatures p e) = evInitialEntityPublicKey e"
  "evInitialOperationalPublicKey (applySignatures p e) = evInitialOperationalPublicKey e"
  "evInitialEntityThumbprint (applySignatures p e) = evInitialEntityThumbprint e"
  "evInitialOperationalThumbprint (applySignatures p e) = evInitialOperationalThumbprint e"
  by (simp_all add: applySignatures_def Let_def split: option.splits json.splits prod.splits)

lemma typeFields_ok:
  assumes "typeFieldsFromPayload E payload (zeroLogEvent\<lparr>evType := t, evDomain := d, evTimestamp := ts\<rparr>) err = Inr (event, err')"
  shows "evType event = t \<and> evDomain event = d \<and> evTimestamp event = ts
    \<and> (\<forall>k. t = LogEventIssuance \<and> evInitialOperationalPublicKey event = Some k \<longrightarrow> evInitialOperationalThumbprint event = thumbOr (elKeys E) k)
    \<and> (\<forall>k. t = LogEventIssuance \<and> evInitialEntityPublicKey event = Some k \<longrightarrow> evInitialEntityThumbprint event = thumbOr (elKeys E) k)
    \<and> (err' = None \<longrightarrow> err = None)"
proof -
  let ?e = "zeroLogEvent\<lparr>evType := t, evDomain := d, evTimestamp := ts\<rparr>"
  consider "t = LogEventIssuance" | "t = LogEventKeyRotation" | "t = LogEventDelegation"
    | "t \<noteq> LogEventIssuance" "t \<noteq> LogEventKeyRotation" "t \<noteq> LogEventDelegation" by blast
  then show ?thesis
  proof cases
    case 1
    with assms have "setEK E payload (setKU E payload (?e\<lparr>evGovernanceID := stringOr payload ''gi''\<rparr>, err)) = (event, err')"
      by (simp add: typeFieldsFromPayload_def)
    with 1 show ?thesis
      by (auto simp: setEK_def setKU_def zeroLogEvent_def errorsJoin_None split: sum.splits option.splits)
  next
    case 2
    with assms show ?thesis
      by (auto simp: typeFieldsFromPayload_def setNewKU_def errorsJoin_None split: sum.splits option.splits)
  next
    case 3
    with assms show ?thesis
      by (auto simp: typeFieldsFromPayload_def setExpiry_def errorsJoin_None split: sum.splits option.splits)
  next
    case 4
    with assms show ?thesis by (auto simp: typeFieldsFromPayload_def split: if_splits)
  qed
qed

lemma eventFromPayload_ok:
  assumes "eventFromPayload E payload = Inr parsed" "peValidationError parsed = None"
  shows "(\<exists>ts. 0 \<le> ts \<and> ts \<le> maxJSONInteger \<and> evTimestamp (peEvent parsed) = timeUnix ts)
    \<and> validateLifecycleFields E (peEvent parsed) = Inr ()
    \<and> (\<forall>k. evType (peEvent parsed) = LogEventIssuance \<and> evInitialOperationalPublicKey (peEvent parsed) = Some k
          \<longrightarrow> evInitialOperationalThumbprint (peEvent parsed) = thumbOr (elKeys E) k)
    \<and> (\<forall>k. evType (peEvent parsed) = LogEventIssuance \<and> evInitialEntityPublicKey (peEvent parsed) = Some k
          \<longrightarrow> evInitialEntityThumbprint (peEvent parsed) = thumbOr (elKeys E) k)
    \<and> (\<exists>event. peEvent parsed = applySignatures payload event)"
proof -
  from assms(1) obtain t d event err where f: "typeFieldsFromPayload E payload
      (zeroLogEvent\<lparr>evType := t, evDomain := d, evTimestamp := timeUnix (fst (timestampFromPayload payload))\<rparr>)
      (snd (timestampFromPayload payload)) = Inr (event, err)"
    and p: "peEvent parsed = applySignatures payload event"
      "peValidationError parsed = errorsJoin err (errOf (validateLifecycleFields E (applySignatures payload event)))"
    by (auto simp: eventFromPayload_def rbind_Inr_iff Let_def split: if_splits)
  from assms(2) p(2) have e: "err = None" "is_ok (validateLifecycleFields E (applySignatures payload event))"
    by (simp_all add: errorsJoin_None errOf_None)
  from typeFields_ok [OF f] e(1) have "snd (timestampFromPayload payload) = None" by simp
  then have "0 \<le> fst (timestampFromPayload payload) \<and> fst (timestampFromPayload payload) \<le> maxJSONInteger"
    by (auto simp: timestampFromPayload_def Let_def split: if_splits)
  with typeFields_ok [OF f] p(1) e(2) show ?thesis by (auto simp: is_ok_def split: sum.splits)
qed

lemma parsed_wellFormed:
  assumes p: "eventFromPayload E payload = Inr parsed" "peValidationError parsed = None"
    and roles: "requiredSignerRoles (evType (peEvent parsed)) = Inr roles" "validateSignatureShape payload roles True = Inr ()"
    and kids: "validateEmbeddedSignatureKids (elKeys E) (peEvent parsed) = Inr ()"
  shows "wellFormedEvent E (peEvent parsed)"
proof -
  let ?event = "peEvent parsed" and ?K = "elKeys E"
  note f = eventFromPayload_ok [OF p]
  have "signaturePresent (roleSignature role ?event)" if "role \<in> set roles" for role
    using parseSig_role [OF roles(2) that] f applySignatures_role by metis
  moreover have "NormalizeFQDN (elToASCII E) (evDomain ?event) = Inr (evDomain ?event)"
    using f by (auto simp: validateLifecycleFields_def split: if_splits)
  moreover have "issuanceShape ?K ?event" if t: "evType ?event = LogEventIssuance"
  proof -
    from f t have v: "validateIssuance ?K ?event = Inr ()" by (auto simp: validateLifecycleFields_def split: if_splits)
    then obtain ek ku where k: "evInitialEntityPublicKey ?event = Some ek" "evInitialOperationalPublicKey ?event = Some ku"
      by (auto simp: validateIssuance_def split: option.splits)
    from v k obtain et ot where u: "validateSigningJWK ?K (Some ek) ''ek'' = Inr ()" "validateSigningJWK ?K (Some ku) ''ku'' = Inr ()"
      "thumbprint ?K ek = Some et" "thumbprint ?K ku = Some ot" "et \<noteq> ot" "evGovernanceID ?event \<noteq> ''''"
      by (auto simp: validateIssuance_def rbind_Inr_iff check_def split: if_splits option.splits)
    from f t k u(3,4) have "evInitialEntityThumbprint ?event = et" "evInitialOperationalThumbprint ?event = ot" by (auto simp: thumbOr_def)
    with k u kids t show ?thesis
      by (auto simp: issuanceShape_def validateEmbeddedSignatureKids_def check_def intro: validateSigningJWK_usable split: if_splits)
  qed
  moreover have "rotationShape ?K ?event" if t: "evType ?event = LogEventKeyRotation"
  proof -
    from f t have v: "validateRotation ?K ?event = Inr ()" by (auto simp: validateLifecycleFields_def split: if_splits)
    then obtain ku where k: "evNewOperationalPublicKey ?event = Some ku" by (auto simp: validateRotation_def split: option.splits)
    with v kids t show ?thesis
      by (auto simp: rotationShape_def validateRotation_def validateEmbeddedSignatureKids_def rbind_Inr_iff check_def
          intro: validateSigningJWK_usable split: if_splits)
  qed
  moreover have "eventShape ?K ?event"
    if "evType ?event = LogEventIssuance \<Longrightarrow> issuanceShape ?K ?event" "evType ?event = LogEventKeyRotation \<Longrightarrow> rotationShape ?K ?event"
    using f that by (auto simp: eventShape_def validateLifecycleFields_def check_def split: if_splits)
  ultimately show ?thesis using f roles(1) by (auto simp: wellFormedEvent_def)
qed

text \<open>
  C24. Accepted events are well formed (\<open>LogEventFromEntry\<close>): an event read from an entry has a normalised
  domain, a timestamp in whole seconds within the safe integers, the fields its type requires, usable keys that
  its thumbprints and key ids name, and a well-formed signature for every role its type requires.
\<close>
theorem entry_event_wellformed:
  assumes "LogEventFromEntry E entry = Inr event"
  shows "wellFormedEvent E event"
proof -
  from assms obtain payload parsed roles where "eventFromPayload E payload = Inr parsed" "peValidationError parsed = None"
    "requiredSignerRoles (evType (peEvent parsed)) = Inr roles" "validateSignatureShape payload roles True = Inr ()"
    "validateEmbeddedSignatureKids (elKeys E) (peEvent parsed) = Inr ()" "event = peEvent parsed"
    by (auto simp: LogEventFromEntry_def rbind_Inr_iff map_err_Inr_iff split: option.splits)
  with parsed_wellFormed show ?thesis by blast
qed

theorem entry_event_wellformed_witness:
  "evType (projr (LogEventFromEntry sample_events (sample_retirement ''AA''))) = LogEventRetirement
   \<and> wellFormedEvent sample_events (projr (LogEventFromEntry sample_events (sample_retirement ''AA'')))"
proof -
  have "is_ok (LogEventFromEntry sample_events (sample_retirement ''AA''))
      \<and> evType (projr (LogEventFromEntry sample_events (sample_retirement ''AA''))) = LogEventRetirement" by code_simp
  moreover from this have "LogEventFromEntry sample_events (sample_retirement ''AA'') = Inr (projr (LogEventFromEntry sample_events (sample_retirement ''AA'')))"
    by (auto simp: is_ok_def split: sum.splits)
  ultimately show ?thesis using entry_event_wellformed by blast
qed

subsection \<open>Signed bytes\<close>

text \<open>The payload of an accepted entry is in normal form, so the signed bytes give back all of it but the signatures.\<close>

lemma payload_normal:
  assumes "numberTexts L" "payloadObjectFromEntry L entry = Inr p"
  shows "jnorm L (JObject p) = JObject p"
proof -
  from assms(2) have d: "DecodeObject entry = Inr p" and c: "canonicalJSON L (JObject p) = Inr entry"
    by (auto simp: payloadObjectFromEntry_def rbind_Inr_iff split: if_splits)
  from c have "writeCanonicalJSON L (JObject p) = Inr entry" by (simp add: canonicalJSON_def rbind_Inr_iff)
  from decode_written [OF assms(1) _ _ this] decoded_wf [OF d] d show ?thesis by auto
qed

text \<open>The other way: the encoding of a normal payload is read back.\<close>

lemma payload_read:
  assumes L: "numberTexts L" and n: "jnorm L (JObject p) = JObject p" and d: "distinctKeys (JObject p)" "nesting (JObject p) \<le> 64"
    and v: "validatePayloadJSON L p = Inr ()" and c: "canonicalJSON L (JObject p) = Inr entry" and "length entry \<le> maxEntrySize"
  shows "payloadObjectFromEntry L entry = Inr p"
proof -
  from c have w: "writeCanonicalJSON L (JObject p) = Inr entry" by (simp add: canonicalJSON_def rbind_Inr_iff)
  then have "entry \<noteq> []" by (auto simp: rbind_Inr_iff)
  moreover have "DecodeObject entry = Inr p" using decode_written [OF L d w] n by simp
  ultimately show ?thesis using v c assms(7) by (simp add: payloadObjectFromEntry_def)
qed

lemma jnorm_normal_object:
  "jnorm L (JObject m) = JObject m \<longleftrightarrow> sorted (map (\<lambda>kv. utf16 (fst kv)) m) \<and> (\<forall>kv \<in> set m. jnorm L (snd kv) = snd kv)"
proof
  assume n: "jnorm L (JObject m) = JObject m"
  then have e: "map (\<lambda>kv. (fst kv, jnorm L (snd kv))) (sortedKeys m) = m" by simp
  have "map fst (sortedKeys m) = map fst (map (\<lambda>kv. (fst kv, jnorm L (snd kv))) (sortedKeys m))" by simp
  with e have "map fst (sortedKeys m) = map fst m" by simp
  then have "map utf16 (map fst (sortedKeys m)) = map utf16 (map fst m)" by simp
  then have "map (\<lambda>kv. utf16 (fst kv)) (sortedKeys m) = map (\<lambda>kv. utf16 (fst kv)) m" by (simp add: o_def)
  then have s: "sorted (map (\<lambda>kv. utf16 (fst kv)) m)" by (metis sortedKeys_def sorted_sort_key)
  then have "sortedKeys m = m" by (simp add: sortedKeys_def sort_key_id_if_sorted)
  with e have "map (\<lambda>kv. (fst kv, jnorm L (snd kv))) m = map id m" by simp
  then have "(fst kv, jnorm L (snd kv)) = id kv" if "kv \<in> set m" for kv using that unfolding map_eq_conv by blast
  with s show "sorted (map (\<lambda>kv. utf16 (fst kv)) m) \<and> (\<forall>kv \<in> set m. jnorm L (snd kv) = snd kv)"
    by (simp add: prod_eq_iff)
next
  assume "sorted (map (\<lambda>kv. utf16 (fst kv)) m) \<and> (\<forall>kv \<in> set m. jnorm L (snd kv) = snd kv)"
  then show "jnorm L (JObject m) = JObject m"
    by (simp add: sortedKeys_def sort_key_id_if_sorted map_idI prod_eq_iff)
qed

lemma normal_delete:
  assumes "jnorm L (JObject m) = JObject m"
  shows "jnorm L (JObject (AList.delete k m)) = JObject (AList.delete k m)"
  using assms unfolding jnorm_normal_object AList.delete_eq by (auto simp: sorted_filter)

lemma signed_bytes_payload:
  assumes L: "numberTexts L" and p: "payloadObjectFromEntry L e1 = Inr p" "payloadObjectFromEntry L e2 = Inr q"
    and s: "CanonicalFromEntry L e1 = Inr s" "CanonicalFromEntry L e2 = Inr s"
  shows "agree p q"
proof -
  let ?d = "AList.delete ''sigs''"
  from s p have "writeCanonicalJSON L (JObject (?d p)) = Inr s" "writeCanonicalJSON L (JObject (?d q)) = Inr s"
    by (auto simp: CanonicalFromEntry_def canonicalJSON_def rbind_Inr_iff map_err_Inr_iff simp del: writeCanonicalJSON.simps)
  from write_binds [OF numberTexts_floatTexts [OF L] this] have "?d p = ?d q"
    using normal_delete payload_normal [OF L p(1)] payload_normal [OF L p(2)] by (metis json.inject(6))
  then have "map_of (?d p) k = map_of (?d q) k" for k by simp
  moreover have "map_of (?d m) k = map_of m k" if "k \<noteq> ''sigs''" for m :: payload and k
    using that by (simp add: delete_conv')
  ultimately show ?thesis unfolding agree_def by metis
qed

lemma agree_readers:
  assumes "agree p q"
  shows "chainFromPayload p = chainFromPayload q" "timestampFromPayload p = timestampFromPayload q"
    "typeFieldsFromPayload E p event err = typeFieldsFromPayload E q event err"
proof -
  have a: "map_of p k = map_of q k" if "k \<noteq> ''sigs''" for k using assms that by (simp add: agree_def)
  have r: "stringOr p k = stringOr q k" "optionalInt64 p k = optionalInt64 q k" "optionalJWK E p k = optionalJWK E q k"
    "badHash p k = badHash q k" if "k \<noteq> ''sigs''" for k
    using that by (simp_all add: stringOr_def optionalString_def optionalInt64_def optionalJWK_def badHash_def a)
  show "chainFromPayload p = chainFromPayload q"
    by (simp add: chainFromPayload_def optionalUint64_def a r)
  show "timestampFromPayload p = timestampFromPayload q"
    by (simp add: timestampFromPayload_def int64Field_def r cong: if_cong)
  show "typeFieldsFromPayload E p event err = typeFieldsFromPayload E q event err"
    by (simp add: typeFieldsFromPayload_def setKU_def setEK_def setNewKU_def setExpiry_def r cong: if_cong)
qed

lemma withoutSignatures_apply [simp]: "withoutSignatures (applySignatures p e) = withoutSignatures e"
  by (simp add: withoutSignatures_def applySignatures_def Let_def split: option.split json.split prod.split)

lemma agree_event:
  assumes "agree p q" "eventFromPayload E p = Inr x" "eventFromPayload E q = Inr y"
  shows "peChain x = peChain y \<and> withoutSignatures (peEvent x) = withoutSignatures (peEvent y)"
proof -
  have a: "map_of p k = map_of q k" if "k \<noteq> ''sigs''" for k using assms(1) that by (simp add: agree_def)
  have f: "stringField p k = stringField q k" if "k \<noteq> ''sigs''" for k using that by (simp add: stringField_def a)
  from assms(2,3) show ?thesis
    by (auto simp: eventFromPayload_def rbind_Inr_iff Let_def f agree_readers [OF assms(1)] split: if_splits)
qed

lemma parse_payload:
  assumes "parseEventFromEntry E entry = Inr parsed"
  shows "\<exists>payload x. payloadObjectFromEntry (elFloat E) entry = Inr payload \<and> eventFromPayload E payload = Inr x
    \<and> peChain parsed = peChain x \<and> peEvent parsed = peEvent x"
  using assms by (auto simp: parseEventFromEntry_def rbind_Inr_iff)

text \<open>
  C11. The signed bytes bind the event (\<open>CanonicalFromEntry\<close>, \<open>parseEventFromEntry\<close>): two entries with the same
  signed bytes carry the same chain fields and the same event, in every field but the signatures
  themselves. So a signature over the signed bytes is one over the event the verifier reads.
\<close>
theorem signed_bytes_bind_event:
  assumes "numberTexts (elFloat E)"
    and "CanonicalFromEntry (elFloat E) e1 = Inr signed" and "CanonicalFromEntry (elFloat E) e2 = Inr signed"
    and "parseEventFromEntry E e1 = Inr p1" and "parseEventFromEntry E e2 = Inr p2"
  shows "peChain p1 = peChain p2 \<and> withoutSignatures (peEvent p1) = withoutSignatures (peEvent p2)"
proof -
  from parse_payload [OF assms(4)] parse_payload [OF assms(5)] obtain p q x y
    where p: "payloadObjectFromEntry (elFloat E) e1 = Inr p" "payloadObjectFromEntry (elFloat E) e2 = Inr q"
      "eventFromPayload E p = Inr x" "eventFromPayload E q = Inr y"
    and e: "peChain p1 = peChain x" "peEvent p1 = peEvent x" "peChain p2 = peChain y" "peEvent p2 = peEvent y" by blast
  from agree_event [OF signed_bytes_payload [OF assms(1) p(1,2) assms(2,3)] p(3,4)] e show ?thesis by simp
qed

lemma sample_retirements:
  "CanonicalFromEntry sample_float (sample_retirement ''BA'') = CanonicalFromEntry sample_float (sample_retirement ''AA'')"
  "is_ok (CanonicalFromEntry sample_float (sample_retirement ''AA''))"
  "is_ok (parseEventFromEntry sample_events (sample_retirement ''AA''))" "is_ok (parseEventFromEntry sample_events (sample_retirement ''BA''))"
  by code_simp+

theorem signed_bytes_bind_event_witness:
  "sample_retirement ''AA'' \<noteq> sample_retirement ''BA''
   \<and> withoutSignatures (peEvent (projr (parseEventFromEntry sample_events (sample_retirement ''AA''))))
     = withoutSignatures (peEvent (projr (parseEventFromEntry sample_events (sample_retirement ''BA''))))"
proof -
  have f: "elFloat sample_events = sample_float" by (simp add: sample_events_def)
  have ok: "m = Inr (projr m)" if "is_ok m" for m :: "sdk_error + 'z" using that by (auto simp: is_ok_def split: sum.splits)
  have "sample_retirement ''AA'' \<noteq> sample_retirement ''BA''" by (simp add: sample_retirement_def quoted_def)
  with signed_bytes_bind_event [of sample_events "sample_retirement ''AA''" _ "sample_retirement ''BA''"] sample_number_texts
    ok [OF sample_retirements(2)] ok [OF sample_retirements(3)] ok [OF sample_retirements(4)] sample_retirements(1) f
  show ?thesis by metis
qed

end
