(* ===== verification/Stream_Replay.thy ===== *)
theory Stream_Replay
  imports Lifecycle_Event "HOL-Library.Sublist"
begin

text \<open>
  Replay of a \<open>c2sp-tlog\<close> stream (\<open>log/c2sptlog/signatures.go\<close>, \<open>check_append.go\<close> and the
  lifecycle state of \<open>prepared.go\<close>): the entries of a log, already proved to be in it, are read in order;
  those the keys in force have signed become the logical events of the stream, everything else is skipped,
  and an authenticated event that does not continue the stream is an error.

  The loop is a fold of \<open>replayStep\<close> over a record of its local variables. \<open>ctx n\<close> is what the \<open>n\<close>-th call of
  \<open>ctx.Err()\<close> returns. The migration verifier is a function the caller supplies.
\<close>

section \<open>Entries and results\<close>

record ProvenEntry =
  pnIndex :: nat
  pnEntry :: bytes
  pnProof :: bytes

record 'k MigrationVerificationResult =
  mrEntityKey :: "'k option"
  mrActiveOperationalKey :: "'k option"
  mrPriorHistory :: "'k LogEvent list"
  mrPriorEvidence :: "LoggedStateEvidence option"
  mrPriorHistoryReferences :: "string list"
  mrFinalOccurrence :: "ProvenEntry option"

type_synonym 'k MigrationVerifier = "'k LogEvent \<Rightarrow> sdk_error + 'k MigrationVerificationResult"

record 'k verifiedEvent =
  veEvent :: "'k LogEvent"
  veChain :: chainFields
  veIndex :: nat
  veSigned :: bytes
  veParseError :: "sdk_error option"
  veMigration :: "'k MigrationVerificationResult option"
  veAuthorityEntity :: "'k option"
  veAuthorityOperational :: "'k option"

section \<open>Signatures\<close>

definition verifyEventSignature ::
  "('k, 'p, 'q) jwkLib \<Rightarrow> 'k option \<Rightarrow> bytes \<Rightarrow> string \<Rightarrow> sdk_error + unit" where
  "verifyEventSignature K key payload sigValue =
     (case key of
        None \<Rightarrow> Inl (PlainError ''dnsid: missing c2sp-tlog signature key'' None)
      | Some k \<Rightarrow>
          if sigValue = '''' then Inl (PlainError ''dnsid: missing c2sp-tlog signature'' None)
          else
            (case RawURLDecode sigValue of
               None \<Rightarrow> Inl (PlainError ''dnsid: invalid c2sp-tlog signature encoding'' None)
             | Some sig \<Rightarrow>
                 if jkType K k = keyTypeOKP then
                   (if jwkCurve K k \<noteq> Some ''Ed25519'' then Inl (PlainError ''dnsid: unsupported OKP c2sp-tlog signature key'' None)
                    else (case jkEd25519 K k of
                            None \<Rightarrow> Inl (PlainError ''dnsid: exporting Ed25519 key'' None)
                          | Some pub \<Rightarrow>
                              check (VerifyEd25519 (jkEd25519Verify K) pub payload sig)
                                (PlainError ''dnsid: invalid Ed25519 c2sp-tlog signature'' None)))
                 else if jkType K k = keyTypeEC then
                   (if jwkCurve K k \<noteq> Some ''P-256'' then Inl (PlainError ''dnsid: unsupported EC c2sp-tlog signature key'' None)
                    else (case jkECDSA K k of
                            None \<Rightarrow> Inl (PlainError ''dnsid: exporting P-256 key'' None)
                          | Some pub \<Rightarrow>
                              if length sig \<noteq> ES256SignatureSize \<or> \<not> is_ok (ValidateP256PublicKey (jkEC K) (Some pub))
                              then Inl (PlainError ''dnsid: invalid ES256 c2sp-tlog signature'' None)
                              else (case ES256RawRS sig of (r, s) \<Rightarrow>
                                check (ecVerify (jkEC K) pub (ecSha256 (jkEC K) payload) r s)
                                  (PlainError ''dnsid: invalid ES256 c2sp-tlog signature'' None))))
                 else Inl (PlainError ''dnsid: unsupported c2sp-tlog signature key type'' None)))"

text \<open>The test both halves of \<open>candidateAuthorizedByCurrentHistory\<close> make of a signature: \<open>kid\<close> names the key and the signature verifies.\<close>

definition signedByKey :: "('k, 'p, 'q) jwkLib \<Rightarrow> 'k option \<Rightarrow> string \<Rightarrow> bytes \<Rightarrow> string \<Rightarrow> bool" where
  "signedByKey K key kid canonical signature =
     (case key of
        None \<Rightarrow> False
      | Some k \<Rightarrow> kid \<noteq> '''' \<and> kid = kidOf K k \<and> is_ok (verifyEventSignature K key canonical signature))"

definition candidateAuthorizedByCurrentHistory ::
  "('k, 'p, 'q) jwkLib \<Rightarrow> 'k LogEvent \<Rightarrow> bytes \<Rightarrow> 'k option \<Rightarrow> 'k option \<Rightarrow> bool" where
  "candidateAuthorizedByCurrentHistory K event canonical entityKey operationalKey =
     (if evType event = LogEventKeyRotation then
        signedByKey K operationalKey (evPreviousOperationalKid event) canonical (evPreviousOperationalSignature event)
        \<and> signedByKey K (evNewOperationalPublicKey event) (evNewOperationalKid event) canonical (evNewOperationalSignature event)
      else if evType event = LogEventIssuance then
        signedByKey K entityKey (evInitialEntityKid event) canonical (evInitialEntitySignature event)
        \<and> signedByKey K (evInitialOperationalPublicKey event) (evInitialOperationalKid event) canonical
             (evInitialOperationalSignature event)
      else if evType event \<in> {LogEventRevocation, LogEventRetirement, LogEventMigration, LogEventDelegation} then
        signedByKey K entityKey (evInitialEntityKid event) canonical (evInitialEntitySignature event)
      else False)"

section \<open>States and chains\<close>

definition activeLifecycleState :: "string \<Rightarrow> string \<Rightarrow> string \<Rightarrow> payload" where
  "activeLifecycleState domain entityThumb operationalThumb =
     [(''fqdn'', JString domain), (''status'', JString ''ACTIVE''), (''entity_thumb'', JString entityThumb),
      (''operational_thumb'', JString operationalThumb)]"

definition lifecycleStateHash :: "('k, 'p, 'q, 'f) eventLib \<Rightarrow> payload \<Rightarrow> string" where
  "lifecycleStateHash E state =
     (case canonicalJSON (elFloat E) (JObject state) of
        Inl _ \<Rightarrow> ''''
      | Inr canonical \<Rightarrow> RawURLEncode (elSha256 E (''dnsid-c2sp-state-v1'' @ canonical)))"

definition validGenesisChain :: "chainFields \<Rightarrow> bool" where
  "validGenesisChain chain =
     (\<not> cfInvalid chain \<and> cfSequence chain = Some 0 \<and> cfPreviousEventID chain = '''' \<and> cfPreviousStateHash chain = '''')"

definition validChainFields ::
  "('k, 'p, 'q, 'f) eventLib \<Rightarrow> chainFields \<Rightarrow> nat \<Rightarrow> string \<Rightarrow> payload \<Rightarrow> bool" where
  "validChainFields E chain seq previousEventID previousState =
     (\<not> cfInvalid chain \<and> cfSequence chain = Some seq \<and> validHash (cfPreviousEventID chain)
      \<and> cfPreviousEventID chain = previousEventID \<and> cfPreviousStateHash chain = lifecycleStateHash E previousState)"

definition invalidMigration :: "string \<Rightarrow> sdk_error option \<Rightarrow> sdk_error" where
  "invalidMigration message cause = NewVerificationError InvalidMigration False message cause"

text \<open>\<open>thumbprint\<close> of a key that may be \<open>nil\<close>.\<close>

definition thumbprintOf :: "('k, 'p, 'q) jwkLib \<Rightarrow> 'k option \<Rightarrow> string option" where
  "thumbprintOf K key = (case key of None \<Rightarrow> None | Some k \<Rightarrow> thumbprint K k)"

definition latestTimestamp :: "'k LogEvent list \<Rightarrow> gotime" where
  "latestTimestamp history =
     foldl (\<lambda>latest prior. if evTimestamp prior > latest then evTimestamp prior else latest)
       (evTimestamp (hd history)) (tl history)"

definition priorEntityKey :: "'k LogEvent list \<Rightarrow> 'k option" where
  "priorEntityKey history =
     (case find (\<lambda>prior. evType prior = LogEventIssuance) history of
        None \<Rightarrow> None
      | Some prior \<Rightarrow> evInitialEntityPublicKey prior)"

definition validateMigrationResult ::
  "('k, 'p, 'q, 'f) eventLib \<Rightarrow> 'k LogEvent \<Rightarrow> 'k MigrationVerificationResult \<Rightarrow> sdk_error + unit" where
  "validateMigrationResult E event migration =
     (if mrEntityKey migration = None \<or> mrActiveOperationalKey migration = None \<or> mrPriorHistory migration = []
      then Inl (invalidMigration ''dnsid: inbound MIGRATION prior history and keys are required'' None)
      else
        (case thumbprintOf (elKeys E) (mrEntityKey migration) of
           None \<Rightarrow> Inl (invalidMigration ''dnsid: inbound MIGRATION entity key is invalid'' None)
         | Some entityThumb \<Rightarrow>
             (case thumbprintOf (elKeys E) (mrActiveOperationalKey migration) of
                None \<Rightarrow> Inl (invalidMigration ''dnsid: inbound MIGRATION operational key is invalid'' None)
              | Some operationalThumb \<Rightarrow>
                  if entityThumb = operationalThumb
                  then Inl (invalidMigration ''dnsid: inbound MIGRATION operational key is invalid'' None)
                  else if list_ex (\<lambda>prior. evType prior = LogEventMigration \<and> evPreviousLog prior = evPreviousLog event
                                    \<and> evNewLog prior = evNewLog event \<and> evFinalEntryRef prior = evFinalEntryRef event)
                            (mrPriorHistory migration)
                  then Inl (invalidMigration ''dnsid: inbound MIGRATION must appear exactly once in stitched history'' None)
                  else if evTimestamp event < latestTimestamp (mrPriorHistory migration)
                  then Inl (invalidMigration ''dnsid: migration timestamp precedes imported history'' None)
                  else
                    (case SnapshotAt (elEqualFold E) (jkThumb (elKeys E))
                            (Some (NewDomainLog (evDomain event) (mrPriorHistory migration)))
                            (latestTimestamp (mrPriorHistory migration)) of
                       Inl err \<Rightarrow> Inl (invalidMigration ''dnsid: inbound MIGRATION prior history does not establish the active operational key'' (Some err))
                     | Inr snapshot \<Rightarrow>
                         if ssHistoricalState snapshot \<noteq> AgentStateActive \<or> ssActiveKeyThumbprint snapshot \<noteq> operationalThumb
                         then Inl (invalidMigration ''dnsid: inbound MIGRATION prior history does not establish the active operational key'' None)
                         else
                           check (thumbprintOf (elKeys E) (priorEntityKey (mrPriorHistory migration)) = Some entityThumb)
                             (invalidMigration ''dnsid: inbound MIGRATION prior history does not establish the entity key'' None)))))"

section \<open>The replay loop\<close>

record 'k replayState =
  rsOut :: "'k verifiedEvent list"
  rsPriorHistory :: "'k LogEvent list"
  rsEntityKey :: "'k option"
  rsOperationalKey :: "'k option"
  rsOperationalThumb :: string
  rsStarted :: bool
  rsTerminal :: bool
  rsSawMigration :: bool
  rsSeen :: "(string \<times> bytes) list"
  rsPostStates :: "(string \<times> 'k option \<times> 'k option) list"
  rsLastEventID :: string
  rsNextSeq :: nat
  rsPreviousState :: payload

definition zeroReplayState :: "'k replayState" where
  "zeroReplayState = \<lparr>rsOut = [], rsPriorHistory = [], rsEntityKey = None, rsOperationalKey = None, rsOperationalThumb = '''',
     rsStarted = False, rsTerminal = False, rsSawMigration = False, rsSeen = [], rsPostStates = [], rsLastEventID = '''',
     rsNextSeq = 0, rsPreviousState = []\<rparr>"

definition notePostState :: "'k replayState \<Rightarrow> 'k replayState" where
  "notePostState st =
     (if rsLastEventID st \<noteq> ''''
      then st\<lparr>rsPostStates := AList.update (rsLastEventID st) (rsEntityKey st, rsOperationalKey st) (rsPostStates st)\<rparr>
      else st)"

text \<open>The last statements of an iteration that accepts the genesis.\<close>

definition acceptGenesis ::
  "'k verifiedEvent \<Rightarrow> string \<Rightarrow> string \<Rightarrow> 'k replayState \<Rightarrow> 'k replayState" where
  "acceptGenesis item key entityThumb st =
     st\<lparr>rsPreviousState := activeLifecycleState (evDomain (veEvent item)) entityThumb (rsOperationalThumb st),
        rsLastEventID := key, rsStarted := True, rsSeen := AList.update key (veSigned item) (rsSeen st),
        rsOut := rsOut st @ [item\<lparr>veAuthorityEntity := rsEntityKey st, veAuthorityOperational := rsOperationalKey st\<rparr>]\<rparr>"

definition inboundFieldsOk ::
  "('k, 'p, 'q, 'f) eventLib \<Rightarrow> 'k LogEvent \<Rightarrow> string \<Rightarrow> bool" where
  "inboundFieldsOk E event currentLog =
     (if evPreviousLog event = '''' \<or> evNewLog event = '''' \<or> evFinalEntryRef event = '''' \<or> evPreviousLog event = evNewLog event
         \<or> (currentLog \<noteq> '''' \<and> evNewLog event \<noteq> currentLog) then False
      else (case ParseLogRef (evPreviousLog event) of
              Inl _ \<Rightarrow> False
            | Inr (method, _) \<Rightarrow>
                if method = Method then
                  (case ParseFinalEventRef (elParse E) (evFinalEntryRef event) of
                     Inl _ \<Rightarrow> False
                   | Inr (previous, _) \<Rightarrow> reference_String previous = evPreviousLog event)
                else True))"

definition replayMigrationGenesis ::
  "('k, 'p, 'q, 'f) eventLib \<Rightarrow> 'k MigrationVerifier option \<Rightarrow> string \<Rightarrow> 'k verifiedEvent \<Rightarrow> string \<Rightarrow> 'k replayState
    \<Rightarrow> sdk_error + 'k replayState" where
  "replayMigrationGenesis E verifyMigration currentLog item key st0 =
     (let event = veEvent item; st = st0\<lparr>rsSawMigration := True\<rparr> in
      case verifyMigration of
        None \<Rightarrow> Inr st
      | Some verify \<Rightarrow>
          if \<not> inboundFieldsOk E event currentLog then Inr st
          else
            (case verify event of
               Inl err \<Rightarrow> Inl (invalidMigration ''dnsid: inbound MIGRATION prior history verification failed'' (Some err))
             | Inr migration \<Rightarrow>
                 if mrEntityKey migration = None then Inl (invalidMigration ''dnsid: verified migration entity key is required'' None)
                 else if \<not> signedByKey (elKeys E) (mrEntityKey migration) (evInitialEntityKid event) (veSigned item) (evInitialEntitySignature event)
                 then Inr st
                 else
                   rbind (validateMigrationResult E event migration) (\<lambda>_.
                   let st1 = st\<lparr>rsEntityKey := mrEntityKey migration, rsOperationalKey := mrActiveOperationalKey migration,
                                rsOperationalThumb := (case thumbprintOf (elKeys E) (mrActiveOperationalKey migration) of None \<Rightarrow> '''' | Some t \<Rightarrow> t)\<rparr>;
                       entityThumb = (case thumbprintOf (elKeys E) (mrEntityKey migration) of None \<Rightarrow> '''' | Some t \<Rightarrow> t);
                       event1 = event\<lparr>evInitialEntityPublicKey := mrEntityKey migration, evInitialEntityThumbprint := entityThumb,
                                      evInitialOperationalPublicKey := mrActiveOperationalKey migration,
                                      evInitialOperationalThumbprint := rsOperationalThumb st1\<rparr>
                   in case veParseError item of
                        Some err \<Rightarrow> Inl (invalidMigration ''dnsid: invalid authenticated migration payload'' (Some err))
                      | None \<Rightarrow>
                          if \<not> validGenesisChain (veChain item)
                          then Inl (NewVerificationError ChainContinuity False ''dnsid: invalid c2sp-tlog migration genesis chain'' None)
                          else Inr ((acceptGenesis (item\<lparr>veEvent := event1, veMigration := Some migration\<rparr>) key entityThumb
                                       (st1\<lparr>rsNextSeq := 1\<rparr>))
                                      \<lparr>rsPriorHistory := mrPriorHistory migration\<rparr>))))"

definition replayIssuanceGenesis ::
  "('k, 'p, 'q, 'f) eventLib \<Rightarrow> 'k verifiedEvent \<Rightarrow> string \<Rightarrow> 'k replayState \<Rightarrow> sdk_error + 'k replayState" where
  "replayIssuanceGenesis E item key st =
     (let event = veEvent item in
      if \<not> candidateAuthorizedByCurrentHistory (elKeys E) event (veSigned item) (evInitialEntityPublicKey event) (evInitialOperationalPublicKey event)
      then Inr st
      else
        (case (if evInitialOperationalThumbprint event = '''' then thumbprintOf (elKeys E) (evInitialOperationalPublicKey event)
               else Some (evInitialOperationalThumbprint event)) of
           None \<Rightarrow> Inr st
         | Some operationalThumb \<Rightarrow>
             (case veParseError item of
                Some err \<Rightarrow> Inl (NewVerificationError InvalidEvidence False ''dnsid: invalid authenticated genesis'' (Some err))
              | None \<Rightarrow>
                  if \<not> validGenesisChain (veChain item)
                  then Inl (NewVerificationError ChainContinuity False ''dnsid: invalid c2sp-tlog genesis chain'' None)
                  else
                    (let st1 = st\<lparr>rsNextSeq := 1, rsEntityKey := evInitialEntityPublicKey event,
                                  rsOperationalKey := evInitialOperationalPublicKey event, rsOperationalThumb := operationalThumb\<rparr>
                     in case thumbprintOf (elKeys E) (evInitialEntityPublicKey event) of
                          None \<Rightarrow> Inr st1
                        | Some entityThumb \<Rightarrow>
                            if evInitialEntityThumbprint event = '''' \<or> entityThumb \<noteq> evInitialEntityThumbprint event
                               \<or> entityThumb = operationalThumb then Inr st1
                            else Inr (acceptGenesis (item\<lparr>veEvent := event\<lparr>evInitialOperationalThumbprint := operationalThumb\<rparr>\<rparr>)
                                        key entityThumb st1)))))"

text \<open>The statements after the \<open>switch\<close>: the event is accepted.\<close>

definition acceptSuccessor :: "'k verifiedEvent \<Rightarrow> string \<Rightarrow> 'k replayState \<Rightarrow> 'k replayState" where
  "acceptSuccessor item key st =
     st\<lparr>rsSeen := AList.update key (veSigned item) (rsSeen st), rsOut := rsOut st @ [item], rsLastEventID := key,
        rsNextSeq := rsNextSeq st + 1\<rparr>"

definition replayRotation ::
  "('k, 'p, 'q, 'f) eventLib \<Rightarrow> 'k verifiedEvent \<Rightarrow> string \<Rightarrow> 'k replayState \<Rightarrow> sdk_error + 'k replayState" where
  "replayRotation E item key st =
     (let event = veEvent item in
      if evPreviousOperationalThumbprint event \<noteq> rsOperationalThumb st \<or> evNewOperationalPublicKey event = None
         \<or> evNewOperationalThumbprint event = ''''
      then Inl (NewVerificationError KeyContinuity False ''dnsid: authenticated KEY_ROTATION does not continue from the active key'' None)
      else
        (case thumbprintOf (elKeys E) (evNewOperationalPublicKey event) of
           None \<Rightarrow> Inl (NewVerificationError KeyContinuity False ''dnsid: authenticated KEY_ROTATION new key binding is invalid'' None)
         | Some newThumb \<Rightarrow>
             if newThumb \<noteq> evNewOperationalThumbprint event \<or> newThumb = rsOperationalThumb st
                \<or> map_of (rsPreviousState st) ''entity_thumb'' = Some (JString newThumb)
             then Inl (NewVerificationError KeyContinuity False ''dnsid: authenticated KEY_ROTATION new key binding is invalid'' None)
             else
               (let st1 = st\<lparr>rsOperationalKey := evNewOperationalPublicKey event, rsOperationalThumb := evNewOperationalThumbprint event\<rparr>
                in case thumbprintOf (elKeys E) (rsEntityKey st1) of
                     None \<Rightarrow> Inr st1
                   | Some entityThumb \<Rightarrow>
                       Inr (acceptSuccessor item key
                              (st1\<lparr>rsPreviousState := activeLifecycleState (evDomain event) entityThumb (rsOperationalThumb st1)\<rparr>)))))"

definition replayTerminal ::
  "('k, 'p, 'q, 'f) eventLib \<Rightarrow> 'k verifiedEvent \<Rightarrow> string \<Rightarrow> string \<Rightarrow> 'k replayState \<Rightarrow> sdk_error + 'k replayState" where
  "replayTerminal E item key status st =
     (case thumbprintOf (elKeys E) (rsEntityKey st) of
        None \<Rightarrow> Inr st
      | Some entityThumb \<Rightarrow>
          Inr (acceptSuccessor item key
                 (st\<lparr>rsPreviousState := AList.update ''status'' (JString status)
                       (activeLifecycleState (evDomain (veEvent item)) entityThumb (rsOperationalThumb st)),
                     rsTerminal := True\<rparr>)))"

text \<open>The \<open>switch event.Type\<close> of the loop.\<close>

definition replayTransition ::
  "('k, 'p, 'q, 'f) eventLib \<Rightarrow> 'k verifiedEvent \<Rightarrow> string \<Rightarrow> 'k replayState \<Rightarrow> sdk_error + 'k replayState" where
  "replayTransition E item key st =
     (let event = veEvent item in
      if evType event = LogEventKeyRotation then replayRotation E item key st
      else if evType event = LogEventRevocation then
        (if \<not> ValidRevocationReason (evReason event)
         then Inl (NewVerificationError InvalidEvidence False ''dnsid: authenticated REVOCATION reason is invalid'' None)
         else replayTerminal E item key ''REVOKED'' st)
      else if evType event = LogEventRetirement then replayTerminal E item key ''RETIRED'' st
      else if evType event = LogEventMigration
      then Inl (invalidMigration ''dnsid: c2sp-tlog MIGRATION must be destination genesis'' None)
      else if evType event = LogEventDelegation then
        (if evDelegatee event = '''' \<or> evScope event = '''' \<or> evExpiry event = 0
         then Inl (NewVerificationError InvalidEvidence False ''dnsid: authenticated DELEGATION is invalid'' None)
         else Inr (acceptSuccessor item key st))
      else Inr st)"

definition replaySuccessor ::
  "('k, 'p, 'q, 'f) eventLib \<Rightarrow> 'k verifiedEvent \<Rightarrow> string \<Rightarrow> 'k replayState \<Rightarrow> sdk_error + 'k replayState" where
  "replaySuccessor E item key st =
     (let event = veEvent item;
          auth = (case map_of (rsPostStates st) (cfPreviousEventID (veChain item)) of
                    Some prior \<Rightarrow> prior
                  | None \<Rightarrow> (rsEntityKey st, rsOperationalKey st))
      in
      if \<not> candidateAuthorizedByCurrentHistory (elKeys E) event (veSigned item) (fst auth) (snd auth) then Inr st
      else if rsTerminal st
      then Inl (NewVerificationError TerminalState False ''dnsid: authenticated c2sp-tlog lifecycle event after terminal state'' None)
      else if evType event = LogEventIssuance
      then Inl (NewVerificationError DuplicateIssuance False ''dnsid: authenticated additional ISSUANCE'' None)
      else if \<not> validChainFields E (veChain item) (rsNextSeq st) (rsLastEventID st) (rsPreviousState st)
      then Inl (NewVerificationError ChainContinuity False ''dnsid: authenticated logical chain conflict'' None)
      else if evTimestamp event < evTimestamp (veEvent (last (rsOut st)))
      then Inl (NewVerificationError ChainContinuity False ''dnsid: lifecycle timestamps regress'' None)
      else
        (case veParseError item of
           Some err \<Rightarrow> Inl (NewVerificationError InvalidEvidence False ''dnsid: authenticated invalid lifecycle payload'' (Some err))
         | None \<Rightarrow>
             replayTransition E (item\<lparr>veAuthorityEntity := fst auth, veAuthorityOperational := snd auth\<rparr>) key st))"

definition replayStep ::
  "('k, 'p, 'q, 'f) eventLib \<Rightarrow> 'k MigrationVerifier option \<Rightarrow> string \<Rightarrow> 'k verifiedEvent \<Rightarrow> 'k replayState
    \<Rightarrow> sdk_error + 'k replayState" where
  "replayStep E verifyMigration currentLog item st0 =
     (let st = notePostState st0; event = veEvent item; canonical = veSigned item; key = EventID E canonical in
      if canonical = [] then Inr st
      else
        (case map_of (rsSeen st) key of
           Some signed \<Rightarrow>
             if signed \<noteq> canonical
             then Inl (NewVerificationError InvalidEvidence False ''dnsid: logical event ID collision'' None)
             else Inr st
         | None \<Rightarrow>
             if rsStarted st then replaySuccessor E item key st
             else if evType event = LogEventMigration then replayMigrationGenesis E verifyMigration currentLog item key st
             else if evType event = LogEventIssuance then replayIssuanceGenesis E item key st
             else Inr st))"

fun replayLoop ::
  "('k, 'p, 'q, 'f) eventLib \<Rightarrow> (nat \<Rightarrow> sdk_error option) \<Rightarrow> 'k MigrationVerifier option \<Rightarrow> string \<Rightarrow> nat
    \<Rightarrow> 'k verifiedEvent list \<Rightarrow> 'k replayState \<Rightarrow> sdk_error + nat \<times> 'k replayState" where
  "replayLoop E ctx verifyMigration currentLog n [] st = Inr (n, st)"
| "replayLoop E ctx verifyMigration currentLog n (item # indexed) st =
     (case ctx n of
        Some err \<Rightarrow> Inl err
      | None \<Rightarrow>
          rbind (replayStep E verifyMigration currentLog item st) (\<lambda>st'.
            replayLoop E ctx verifyMigration currentLog (Suc n) indexed st'))"

definition verifyLifecycleVerifiedWithMigration ::
  "('k, 'p, 'q, 'f) eventLib \<Rightarrow> (nat \<Rightarrow> sdk_error option) \<Rightarrow> 'k verifiedEvent list \<Rightarrow> 'k MigrationVerifier option
    \<Rightarrow> string \<Rightarrow> sdk_error + 'k verifiedEvent list \<times> 'k LogEvent list" where
  "verifyLifecycleVerifiedWithMigration E ctx indexed verifyMigration currentLog =
     rbind (replayLoop E ctx verifyMigration currentLog 0 indexed zeroReplayState) (\<lambda>(n, st).
       if rsOut st = [] then
         (if rsSawMigration st then Inl (invalidMigration ''dnsid: no authenticated c2sp-tlog migration genesis'' None)
          else Inl (PlainError ''dnsid: no valid c2sp-tlog lifecycle events'' None))
       else (case ctx n of Some err \<Rightarrow> Inl err | None \<Rightarrow> Inr (rsOut st, rsPriorHistory st)))"

section \<open>The state a stream leaves\<close>

definition applyToState ::
  "string \<Rightarrow> string \<Rightarrow> 'k verifiedEvent \<Rightarrow> 'k option \<times> string \<times> payload \<Rightarrow> 'k option \<times> string \<times> payload" where
  "applyToState domain entityThumb item acc =
     (case acc of (operational, operationalThumb, state) \<Rightarrow>
        if evType (veEvent item) = LogEventKeyRotation then
          (evNewOperationalPublicKey (veEvent item), evNewOperationalThumbprint (veEvent item),
           activeLifecycleState domain entityThumb (evNewOperationalThumbprint (veEvent item)))
        else if evType (veEvent item) = LogEventRevocation then
          (operational, operationalThumb,
           AList.update ''status'' (JString ''REVOKED'') (activeLifecycleState domain entityThumb operationalThumb))
        else if evType (veEvent item) = LogEventRetirement then
          (operational, operationalThumb,
           AList.update ''status'' (JString ''RETIRED'') (activeLifecycleState domain entityThumb operationalThumb))
        else if evType (veEvent item) = LogEventDelegation then (operational, operationalThumb, state)
        else (operational, operationalThumb, activeLifecycleState domain entityThumb operationalThumb))"

definition lifecycleStateFromVerified ::
  "('k, 'p, 'q) jwkLib \<Rightarrow> 'k verifiedEvent list \<Rightarrow> string \<Rightarrow> sdk_error + 'k option \<times> 'k option \<times> payload" where
  "lifecycleStateFromVerified K verified domain =
     (case verified of
        [] \<Rightarrow> Inl (PlainError ''dnsid: c2sp-tlog lifecycle history is empty'' None)
      | first # rest \<Rightarrow>
          (case thumbprintOf K (evInitialEntityPublicKey (veEvent first)) of
             None \<Rightarrow> Inl (PlainError ''jwk: thumbprint'' None)
           | Some entityThumb \<Rightarrow>
               (case thumbprintOf K (evInitialOperationalPublicKey (veEvent first)) of
                  None \<Rightarrow> Inl (PlainError ''jwk: thumbprint'' None)
                | Some operationalThumb \<Rightarrow>
                    (case fold (applyToState domain entityThumb) rest
                            (evInitialOperationalPublicKey (veEvent first), operationalThumb,
                             activeLifecycleState domain entityThumb operationalThumb) of
                       (operational, _, state) \<Rightarrow> Inr (evInitialEntityPublicKey (veEvent first), operational, state)))))"

section \<open>Checking an append\<close>

record LifecycleState =
  lsFQDN :: string
  lsStatus :: string
  lsEntityThumb :: string
  lsOperationalThumb :: string

definition lifecycleState_object :: "LifecycleState \<Rightarrow> payload" where
  "lifecycleState_object s =
     [(''fqdn'', JString (lsFQDN s)), (''status'', JString (lsStatus s)), (''entity_thumb'', JString (lsEntityThumb s)),
      (''operational_thumb'', JString (lsOperationalThumb s))]"

definition lifecycleState_Hash :: "('k, 'p, 'q, 'f) eventLib \<Rightarrow> LifecycleState \<Rightarrow> string" where
  "lifecycleState_Hash E s = lifecycleStateHash E (lifecycleState_object s)"

record StreamHead =
  shSeq :: nat
  shEventID :: string
  shType :: string
  shState :: LifecycleState
  shGovernanceID :: string

abbreviation "defaultScanMaxTreeSize \<equiv> (1000000::nat)"
abbreviation "defaultScanMaxTotalEntryBytes \<equiv> (268435456::nat)"

fun historyBytes :: "nat \<Rightarrow> ProvenEntry list \<Rightarrow> sdk_error + unit" where
  "historyBytes acc [] = Inr ()"
| "historyBytes acc (entry # entries) =
     (let acc' = acc + length (pnEntry entry) + length (pnProof entry)
      in if acc' > defaultScanMaxTotalEntryBytes then Inl (PlainError ''dnsid: history exceeds byte limit'' None)
         else historyBytes acc' entries)"

definition validateHistorySize :: "ProvenEntry list \<Rightarrow> sdk_error + unit" where
  "validateHistorySize entries =
     (if length entries > defaultScanMaxTreeSize then Inl (PlainError ''dnsid: history exceeds entry limit'' None)
      else historyBytes 0 entries)"

text \<open>The four checks are made in the order of a Go map: an entry that fails several of them is refused with one of their errors.\<close>

definition metadataCheck :: "payload \<Rightarrow> string \<times> string \<Rightarrow> sdk_error + unit" where
  "metadataCheck payload kv =
     (case optionalString payload (fst kv) of
        None \<Rightarrow> Inl (PlainError ''dnsid: c2sp-tlog event missing'' None)
      | Some got \<Rightarrow>
          if got = '''' then Inl (PlainError ''dnsid: c2sp-tlog event missing'' None)
          else check (got = snd kv) (PlainError ''dnsid: c2sp-tlog event, want'' None))"

definition validateEntryMetadata ::
  "('k, 'p, 'q, 'f) eventLib \<Rightarrow> Reference \<Rightarrow> bytes \<Rightarrow> sdk_error + unit" where
  "validateEntryMetadata E ref entry =
     rbind (payloadObjectFromEntry (elFloat E) entry) (\<lambda>payload.
     rbind (Origin (elParse E) ref) (\<lambda>origin.
     if stringOr payload ''fqdn'' = refStreamID ref
     then Inl (PlainError ''dnsid: stream ID must identify an identity instance'' None)
     else
       rbind (seqr (metadataCheck payload)
                [(''method'', Method), (''log_origin'', origin), (''stream_id'', refStreamID ref), (''lr'', reference_String ref)])
         (\<lambda>_. Inr ())))"

definition verifiedOf :: "'k parsedEvent \<Rightarrow> nat \<Rightarrow> bytes \<Rightarrow> sdk_error option \<Rightarrow> 'k verifiedEvent" where
  "verifiedOf parsed index signed err =
     \<lparr>veEvent = peEvent parsed, veChain = peChain parsed, veIndex = index, veSigned = signed, veParseError = err,
      veMigration = None, veAuthorityEntity = None, veAuthorityOperational = None\<rparr>"

text \<open>The loop of \<open>CheckAppend\<close> over the entries; \<open>domain\<close> is that of the first.\<close>

fun checkEntries ::
  "('k, 'p, 'q, 'f) eventLib \<Rightarrow> Reference \<Rightarrow> nat \<Rightarrow> string \<Rightarrow> bytes list \<Rightarrow> sdk_error + 'k verifiedEvent list" where
  "checkEntries E ref i domain [] = Inr []"
| "checkEntries E ref i domain (entry # entries) =
     rbind (map_err (\<lambda>e. ValidationError ''dnsid: c2sp-tlog context'' (Some e)) (validateEntryMetadata E ref entry)) (\<lambda>_.
     rbind (map_err (\<lambda>e. ParseError ''dnsid: parsing c2sp-tlog'' (Some e)) (parseEventFromEntry E entry)) (\<lambda>parsed.
     case peValidationError parsed of
       Some e \<Rightarrow> Inl (ValidationError ''dnsid: invalid c2sp-tlog'' (Some e))
     | None \<Rightarrow>
         if i \<noteq> 0 \<and> evDomain (peEvent parsed) \<noteq> domain
         then Inl (ValidationError ''dnsid: c2sp-tlog fqdn differs from the stream'' None)
         else
           rbind (CanonicalFromEntry (elFloat E) entry) (\<lambda>signed.
           rbind (checkEntries E ref (Suc i) (if i = 0 then evDomain (peEvent parsed) else domain) entries) (\<lambda>rest.
             Inr (verifiedOf parsed i signed None # rest)))))"

definition notApplied ::
  "('k, 'p, 'q) jwkLib \<Rightarrow> 'k verifiedEvent \<Rightarrow> 'k verifiedEvent list \<Rightarrow> sdk_error" where
  "notApplied K candidate applied =
     (let event = veEvent candidate in
      if applied = [] then
        (if evType event = LogEventIssuance then
           (if \<not> candidateAuthorizedByCurrentHistory K event (veSigned candidate) (evInitialEntityPublicKey event) (evInitialOperationalPublicKey event)
            then NewVerificationError SignatureInvalid False ''dnsid: c2sp-tlog ISSUANCE signatures do not verify'' None
            else NewVerificationError InvalidEvidence False ''dnsid: c2sp-tlog ISSUANCE key bindings are invalid'' None)
         else if evType event = LogEventMigration
         then NewVerificationError InvalidMigration False ''dnsid: inbound c2sp-tlog MIGRATION is not supported'' None
         else NewVerificationError ChainContinuity False ''dnsid: c2sp-tlog stream has no genesis'' None)
      else
        (case lifecycleStateFromVerified K applied (evDomain event) of
           Inl err \<Rightarrow> err
         | Inr (entity, operational, _) \<Rightarrow>
             if \<not> candidateAuthorizedByCurrentHistory K event (veSigned candidate) entity operational
             then NewVerificationError SignatureInvalid False ''dnsid: c2sp-tlog candidate is not authorized by the stream keys'' None
             else NewVerificationError InvalidEvidence False ''dnsid: c2sp-tlog candidate is not applied'' None))"

text \<open>
  The head after the last applied event; a sequence number that is absent would be a \<open>nil\<close> dereference
  and does not occur in a replayed stream.
\<close>

definition headOf ::
  "('k, 'p, 'q, 'f) eventLib \<Rightarrow> 'k verifiedEvent list \<Rightarrow> string \<Rightarrow> sdk_error + StreamHead" where
  "headOf E applied domain =
     rbind (lifecycleStateFromVerified (elKeys E) applied domain) (\<lambda>(_, _, state).
       case (optionalString state ''fqdn'', optionalString state ''status'', optionalString state ''entity_thumb'',
             optionalString state ''operational_thumb'') of
         (Some fqdn, Some status, Some entityThumb, Some operationalThumb) \<Rightarrow>
           Inr \<lparr>shSeq = (case cfSequence (veChain (last applied)) of None \<Rightarrow> 0 | Some seq \<Rightarrow> seq),
                shEventID = EventID E (veSigned (last applied)), shType = evType (veEvent (last applied)),
                shState = \<lparr>lsFQDN = fqdn, lsStatus = status, lsEntityThumb = entityThumb, lsOperationalThumb = operationalThumb\<rparr>,
                shGovernanceID = evGovernanceID (veEvent (hd applied))\<rparr>
       | _ \<Rightarrow> Inl (PlainError ''dnsid: c2sp-tlog computed lifecycle state has invalid field types'' None))"

definition afterReplay ::
  "('k, 'p, 'q, 'f) eventLib \<Rightarrow> bytes list \<Rightarrow> 'k verifiedEvent list \<Rightarrow> 'k verifiedEvent list \<Rightarrow> sdk_error + StreamHead" where
  "afterReplay E history verified applied =
     (if length applied < length history then Inl (PlainError ''dnsid: c2sp-tlog history does not replay'' None)
      else if length applied = length history then Inl (notApplied (elKeys E) (last verified) applied)
      else headOf E applied (evDomain (veEvent (hd verified))))"

text \<open>
  A plain error of the replay (no event at all was accepted) leaves \<open>applied\<close> empty; \<open>ctxErr\<close> is the
  context's error when the replay has returned one.
\<close>

definition CheckAppend ::
  "('k, 'p, 'q, 'f) eventLib \<Rightarrow> (nat \<Rightarrow> sdk_error option) \<Rightarrow> sdk_error option \<Rightarrow> Reference option \<Rightarrow> bytes list \<Rightarrow> bytes
    \<Rightarrow> sdk_error + StreamHead" where
  "CheckAppend E ctx ctxErr client history candidate =
     (case client of
        None \<Rightarrow> Inl (ArgumentError ''dnsid: c2sp-tlog client is required'' None)
      | Some ref \<Rightarrow>
          rbind (map_err (\<lambda>e. ValidationError ''dnsid: c2sp-tlog stream'' (Some e))
                   (validateHistorySize
                      (map (\<lambda>(i, entry). \<lparr>pnIndex = i, pnEntry = entry, pnProof = []\<rparr>) (enumerate 0 (history @ [candidate]))))) (\<lambda>_.
          rbind (checkEntries E ref 0 '''' (history @ [candidate])) (\<lambda>verified.
          case verifyLifecycleVerifiedWithMigration E ctx verified None (reference_String ref) of
            Inl err \<Rightarrow>
              if errors_As is_VerificationError err \<noteq> None \<or> ctxErr \<noteq> None then Inl err else afterReplay E history verified []
          | Inr (applied, _) \<Rightarrow> afterReplay E history verified applied)))"

section \<open>Reference definitions\<close>

text \<open>
  What a stream is. \<open>authority\<close>: the keys in force after an event, their thumbprints, the state object whose
  hash the next event carries, and whether the stream has ended.
\<close>

record 'k authority =
  auEntity :: "'k option"
  auOperational :: "'k option"
  auEntityThumb :: string
  auOperationalThumb :: string
  auState :: payload
  auTerminal :: bool

text \<open>A genesis binds two different keys: those of the event itself, or those an imported history ends with.\<close>

definition genesisOf :: "('k, 'p, 'q, 'f) eventLib \<Rightarrow> 'k verifiedEvent \<Rightarrow> 'k authority \<Rightarrow> bool" where
  "genesisOf E e h =
     (veParseError e = None \<and> validGenesisChain (veChain e)
      \<and> auEntity h = evInitialEntityPublicKey (veEvent e) \<and> auOperational h = evInitialOperationalPublicKey (veEvent e)
      \<and> veAuthorityEntity e = auEntity h \<and> veAuthorityOperational e = auOperational h
      \<and> thumbprintOf (elKeys E) (auEntity h) = Some (auEntityThumb h)
      \<and> evInitialEntityThumbprint (veEvent e) = auEntityThumb h
      \<and> evInitialOperationalThumbprint (veEvent e) = auOperationalThumb h
      \<and> auEntityThumb h \<noteq> auOperationalThumb h
      \<and> auState h = activeLifecycleState (evDomain (veEvent e)) (auEntityThumb h) (auOperationalThumb h)
      \<and> \<not> auTerminal h
      \<and> (case veMigration e of
           None \<Rightarrow> evType (veEvent e) = LogEventIssuance
             \<and> candidateAuthorizedByCurrentHistory (elKeys E) (veEvent e) (veSigned e) (auEntity h) (auOperational h)
         | Some migration \<Rightarrow> evType (veEvent e) = LogEventMigration
             \<and> auEntity h = mrEntityKey migration \<and> auOperational h = mrActiveOperationalKey migration
             \<and> thumbprintOf (elKeys E) (auOperational h) = Some (auOperationalThumb h)
             \<and> validateMigrationResult E (veEvent e) migration = Inr ()
             \<and> signedByKey (elKeys E) (auEntity h) (evInitialEntityKid (veEvent e)) (veSigned e) (evInitialEntitySignature (veEvent e))))"

text \<open>\<open>continues\<close>: the event follows \<open>es\<close>, is signed by the keys in force and the stream has not ended.\<close>

definition continues ::
  "('k, 'p, 'q, 'f) eventLib \<Rightarrow> 'k verifiedEvent list \<Rightarrow> 'k authority \<Rightarrow> 'k verifiedEvent \<Rightarrow> bool" where
  "continues E es h e =
     (validChainFields E (veChain e) (length es) (EventID E (veSigned (last es))) (auState h)
      \<and> evTimestamp (veEvent (last es)) \<le> evTimestamp (veEvent e)
      \<and> veParseError e = None
      \<and> veAuthorityEntity e = auEntity h \<and> veAuthorityOperational e = auOperational h
      \<and> candidateAuthorizedByCurrentHistory (elKeys E) (veEvent e) (veSigned e) (auEntity h) (auOperational h)
      \<and> \<not> auTerminal h
      \<and> EventID E (veSigned e) \<notin> (\<lambda>x. EventID E (veSigned x)) ` set es)"

definition successorState ::
  "('k, 'p, 'q, 'f) eventLib \<Rightarrow> 'k LogEvent \<Rightarrow> 'k authority \<Rightarrow> 'k authority option" where
  "successorState E event h =
     (if evType event = LogEventKeyRotation then
        (if evPreviousOperationalThumbprint event = auOperationalThumb h
            \<and> evNewOperationalThumbprint event \<noteq> ''''
            \<and> thumbprintOf (elKeys E) (evNewOperationalPublicKey event) = Some (evNewOperationalThumbprint event)
            \<and> evNewOperationalThumbprint event \<noteq> auOperationalThumb h \<and> evNewOperationalThumbprint event \<noteq> auEntityThumb h
         then Some (h\<lparr>auOperational := evNewOperationalPublicKey event, auOperationalThumb := evNewOperationalThumbprint event,
                      auState := activeLifecycleState (evDomain event) (auEntityThumb h) (evNewOperationalThumbprint event)\<rparr>)
         else None)
      else if evType event = LogEventRevocation \<and> ValidRevocationReason (evReason event) \<or> evType event = LogEventRetirement then
        Some (h\<lparr>auState := AList.update ''status'' (JString (if evType event = LogEventRevocation then ''REVOKED'' else ''RETIRED''))
                  (activeLifecycleState (evDomain event) (auEntityThumb h) (auOperationalThumb h)),
                auTerminal := True\<rparr>)
      else if evType event = LogEventDelegation \<and> evDelegatee event \<noteq> '''' \<and> evScope event \<noteq> '''' \<and> evExpiry event \<noteq> 0 then Some h
      else None)"

inductive stream :: "('k, 'p, 'q, 'f) eventLib \<Rightarrow> 'k verifiedEvent list \<Rightarrow> 'k authority \<Rightarrow> bool" for E where
  genesis: "genesisOf E e h \<Longrightarrow> stream E [e] h"
| successor: "\<lbrakk>stream E es h; continues E es h e; successorState E (veEvent e) h = Some h'\<rbrakk> \<Longrightarrow> stream E (es @ [e]) h'"

text \<open>What replay keeps of the entry it was given.\<close>

definition entryOf :: "'k verifiedEvent \<Rightarrow> nat \<times> bytes \<times> chainFields \<times> sdk_error option \<times> string \<times> string \<times> gotime" where
  "entryOf v = (veIndex v, veSigned v, veChain v, veParseError v, evType (veEvent v), evDomain (veEvent v), evTimestamp (veEvent v))"

text \<open>The history a stream imports: that of the migration it begins with.\<close>

definition importedHistory :: "'k verifiedEvent list \<Rightarrow> 'k LogEvent list" where
  "importedHistory out =
     (case out of [] \<Rightarrow> [] | v # _ \<Rightarrow> (case veMigration v of None \<Rightarrow> [] | Some migration \<Rightarrow> mrPriorHistory migration))"

text \<open>The thumbprint recorded with the initial operational key of a parsed event is that of the key.\<close>

definition goodThumb :: "('k, 'p, 'q) jwkLib \<Rightarrow> 'k verifiedEvent \<Rightarrow> bool" where
  "goodThumb K v = (evType (veEvent v) = LogEventIssuance \<longrightarrow>
     (\<forall>k. evInitialOperationalPublicKey (veEvent v) = Some k \<longrightarrow> evInitialOperationalThumbprint (veEvent v) = thumbOr K k))"

definition keeps :: "('k, 'p, 'q) jwkLib \<Rightarrow> 'k verifiedEvent \<Rightarrow> 'k verifiedEvent \<Rightarrow> bool" where
  "keeps K item e = (entryOf e = entryOf item \<and> (goodThumb K item \<longrightarrow> goodThumb K e))"

text \<open>The relation between the variables of the loop and the stream it has accepted.\<close>

definition replayInv :: "('k, 'p, 'q, 'f) eventLib \<Rightarrow> 'k replayState \<Rightarrow> 'k authority \<Rightarrow> bool" where
  "replayInv E st h =
     (stream E (rsOut st) h \<and> rsEntityKey st = auEntity h \<and> rsOperationalKey st = auOperational h
      \<and> rsOperationalThumb st = auOperationalThumb h \<and> thumbprintOf (elKeys E) (rsEntityKey st) = Some (auEntityThumb h)
      \<and> rsPreviousState st = auState h \<and> map_of (auState h) ''entity_thumb'' = Some (JString (auEntityThumb h))
      \<and> rsTerminal st = auTerminal h \<and> rsNextSeq st = length (rsOut st)
      \<and> rsLastEventID st = EventID E (veSigned (last (rsOut st)))
      \<and> (\<forall>x \<in> set (rsOut st). map_of (rsSeen st) (EventID E (veSigned x)) \<noteq> None))"

definition replayOk :: "('k, 'p, 'q, 'f) eventLib \<Rightarrow> 'k replayState \<Rightarrow> bool" where
  "replayOk E st = (if rsStarted st then (\<exists>h. replayInv E st h) else rsOut st = [] \<and> \<not> rsTerminal st)"

text \<open>
  An entry is noise when it has no signed bytes, or is no migration and its signatures verify under no pair of keys.
\<close>

definition noise :: "('k, 'p, 'q) jwkLib \<Rightarrow> 'k verifiedEvent \<Rightarrow> bool" where
  "noise K v = (veSigned v = [] \<or> evType (veEvent v) \<noteq> LogEventMigration
     \<and> (\<forall>ek ok. \<not> candidateAuthorizedByCurrentHistory K (veEvent v) (veSigned v) ek ok))"

text \<open>What is recorded as seen was signed by an entry.\<close>

definition seenOk :: "('k, 'p, 'q, 'f) eventLib \<Rightarrow> bytes set \<Rightarrow> 'k replayState \<Rightarrow> bool" where
  "seenOk E S st = (\<forall>k s. map_of (rsSeen st) k = Some s \<longrightarrow> s \<in> S \<and> k = EventID E s)"

definition loopView :: "sdk_error + nat \<times> 'k replayState \<Rightarrow> sdk_error + 'k replayState" where
  "loopView r = rbind r (\<lambda>(n, st). Inr (notePostState st))"

definition stateObject :: "string \<Rightarrow> string \<Rightarrow> string \<Rightarrow> string \<Rightarrow> payload" where
  "stateObject d status et ot = lifecycleState_object \<lparr>lsFQDN = d, lsStatus = status, lsEntityThumb = et, lsOperationalThumb = ot\<rparr>"

definition stateShape :: "payload \<Rightarrow> bool \<Rightarrow> bool" where
  "stateShape p ended = (\<exists>d status et ot. p = stateObject d status et ot \<and> (\<not> ended \<longrightarrow> status = ''ACTIVE''))"

definition readFrom :: "('k, 'p, 'q, 'f) eventLib \<Rightarrow> bytes \<Rightarrow> 'k verifiedEvent \<Rightarrow> bool" where
  "readFrom E entry v =
     (\<exists>parsed. parseEventFromEntry E entry = Inr parsed \<and> veEvent v = peEvent parsed \<and> veChain v = peChain parsed
        \<and> CanonicalFromEntry (elFloat E) entry = Inr (veSigned v) \<and> veMigration v = None)"

text \<open>A stream to evaluate with.\<close>

definition sample_signature :: string where
  "sample_signature = replicate 86 (CHR ''A'')"

definition sample_ref :: Reference where
  "sample_ref = \<lparr>refScope = ''public'', refLogPrefix = ''https://l'', refStreamID = ''s''\<rparr>"

definition sample_genesis_payload :: payload where
  "sample_genesis_payload = [(''ek'', JObject [(''k'', JString ''e'')]), (''fqdn'', JString ''a.b''), (''gi'', JString ''g''), (''kind'', JString Kind),
     (''ku'', JObject [(''k'', JString ''o'')]), (''log_origin'', JString ''l''), (''lr'', JString ''c2sp-tlog:public:https://l#s''),
     (''method'', JString ''c2sp-tlog''), (''seq'', JNumber ''0''),
     (''sigs'', JObject [(''ae'', sigObject ''e'' sample_signature), (''op'', sigObject ''o'' sample_signature)]),
     (''stream_id'', JString ''s''), (''ts'', JNumber ''1''), (''type'', JString ''ISSUANCE''), (''v'', JNumber ''1'')]"

section \<open>Lemmas\<close>

lemma stream_nonempty: "stream E es h \<Longrightarrow> es \<noteq> []"
  by (induction rule: stream.induct) auto

lemma notePostState_fields [simp]:
  "rsOut (notePostState st) = rsOut st" "rsEntityKey (notePostState st) = rsEntityKey st"
  "rsOperationalKey (notePostState st) = rsOperationalKey st" "rsOperationalThumb (notePostState st) = rsOperationalThumb st"
  "rsStarted (notePostState st) = rsStarted st" "rsTerminal (notePostState st) = rsTerminal st"
  "rsSeen (notePostState st) = rsSeen st" "rsLastEventID (notePostState st) = rsLastEventID st"
  "rsNextSeq (notePostState st) = rsNextSeq st" "rsPreviousState (notePostState st) = rsPreviousState st"
  "rsPriorHistory (notePostState st) = rsPriorHistory st" "rsSawMigration (notePostState st) = rsSawMigration st"
  by (simp_all add: notePostState_def)

lemma notePostState_idem [simp]: "notePostState (notePostState st) = notePostState st"
  by (simp add: notePostState_def)

lemma notePostState_lookup:
  "rsLastEventID st \<noteq> '''' \<Longrightarrow> map_of (rsPostStates (notePostState st)) (rsLastEventID st) = Some (rsEntityKey st, rsOperationalKey st)"
  by (simp add: notePostState_def update_conv)

lemma replayInv_note [simp]: "replayInv E (notePostState st) = replayInv E st"
  by (rule ext) (simp add: replayInv_def)

lemma replayInv_prior [simp]: "replayInv E (st\<lparr>rsPriorHistory := p\<rparr>) = replayInv E st"
  by (rule ext) (simp add: replayInv_def)

lemma replayOk_note [simp]: "replayOk E (notePostState st) = replayOk E st"
  by (simp add: replayOk_def)

lemma validHash_nonempty: "validHash s \<Longrightarrow> s \<noteq> ''''"
  by (auto simp: validHash_def RawURLDecode_def b64_decode_def)

lemma activeLifecycleState_thumb [simp]:
  "map_of (activeLifecycleState d et ot) ''entity_thumb'' = Some (JString et)"
  "map_of (AList.update ''status'' v (activeLifecycleState d et ot)) ''entity_thumb'' = Some (JString et)"
  by (simp_all add: activeLifecycleState_def)

lemma successorState_entity:
  assumes "successorState E event h = Some h'" "map_of (auState h) ''entity_thumb'' = Some (JString (auEntityThumb h))"
  shows "auEntity h' = auEntity h \<and> auEntityThumb h' = auEntityThumb h
    \<and> map_of (auState h') ''entity_thumb'' = Some (JString (auEntityThumb h'))"
  using assms by (auto simp: successorState_def simp del: update.simps split: if_splits)

text \<open>Accepting an event that continues the stream.\<close>

lemma acceptSuccessor_inv:
  assumes inv: "replayInv E st h" and c: "continues E (rsOut st) h e" and s: "successorState E (veEvent e) h = Some h'"
    and "rsOut st1 = rsOut st" "rsSeen st1 = rsSeen st" "rsNextSeq st1 = rsNextSeq st" "rsEntityKey st1 = auEntity h"
    and "rsOperationalKey st1 = auOperational h'" "rsOperationalThumb st1 = auOperationalThumb h'"
    and "rsPreviousState st1 = auState h'" "rsTerminal st1 = auTerminal h'"
  shows "replayInv E (acceptSuccessor e (EventID E (veSigned e)) st1) h'"
proof -
  from inv have "stream E (rsOut st @ [e]) h'"
    using c s stream.successor by (auto simp: replayInv_def)
  with assms successorState_entity [OF s] show ?thesis
    by (auto simp: replayInv_def acceptSuccessor_def update_conv)
qed

lemma replayRotation_inv:
  assumes inv: "replayInv E st h" and c: "continues E (rsOut st) h e" and t: "evType (veEvent e) = LogEventKeyRotation"
    and r: "replayRotation E e (EventID E (veSigned e)) st = Inr st'"
  shows "\<exists>h'. replayInv E st' h' \<and> rsOut st' = rsOut st @ [e] \<and> rsStarted st' = rsStarted st"
proof -
  let ?ev = "veEvent e"
  let ?h' = "h\<lparr>auOperational := evNewOperationalPublicKey ?ev, auOperationalThumb := evNewOperationalThumbprint ?ev,
                      auState := activeLifecycleState (evDomain ?ev) (auEntityThumb h) (evNewOperationalThumbprint ?ev)\<rparr>"
  from inv have f: "rsOperationalThumb st = auOperationalThumb h" "rsPreviousState st = auState h" "rsEntityKey st = auEntity h"
    "thumbprintOf (elKeys E) (rsEntityKey st) = Some (auEntityThumb h)"
    "map_of (auState h) ''entity_thumb'' = Some (JString (auEntityThumb h))" "rsTerminal st = auTerminal h"
    by (auto simp: replayInv_def)
  from r f t have s: "successorState E ?ev h = Some ?h'"
    by (auto simp: replayRotation_def successorState_def Let_def split: if_splits option.splits)
  from r f have "st' = acceptSuccessor e (EventID E (veSigned e))
      (st\<lparr>rsOperationalKey := evNewOperationalPublicKey ?ev, rsOperationalThumb := evNewOperationalThumbprint ?ev,
          rsPreviousState := auState ?h'\<rparr>)"
    by (auto simp: replayRotation_def Let_def split: if_splits option.splits)
  then show ?thesis
    using acceptSuccessor_inv [OF inv c s] f by (intro exI [of _ ?h']) (simp add: acceptSuccessor_def)
qed

lemma replayTransition_inv:
  assumes inv: "replayInv E st h" and c: "continues E (rsOut st) h e"
    and r: "replayTransition E e (EventID E (veSigned e)) st = Inr st'"
  shows "(\<exists>h'. replayInv E st' h' \<and> rsOut st' = rsOut st @ [e] \<and> rsStarted st' = rsStarted st) \<or> st' = st"
proof -
  from inv have f: "rsOperationalThumb st = auOperationalThumb h" "rsEntityKey st = auEntity h" "rsOperationalKey st = auOperational h"
    "thumbprintOf (elKeys E) (rsEntityKey st) = Some (auEntityThumb h)" "rsTerminal st = auTerminal h" "rsPreviousState st = auState h"
    by (auto simp: replayInv_def)
  consider (rotation) "evType (veEvent e) = LogEventKeyRotation"
    | (ended) h' where "successorState E (veEvent e) h = Some h'"
        "st' = acceptSuccessor e (EventID E (veSigned e)) (st\<lparr>rsPreviousState := auState h', rsTerminal := True\<rparr>)"
        "auOperational h' = auOperational h" "auOperationalThumb h' = auOperationalThumb h" "auTerminal h'"
    | (delegation) "successorState E (veEvent e) h = Some h" "st' = acceptSuccessor e (EventID E (veSigned e)) st"
    | (other) "st' = st"
    using r f by (auto simp: replayTransition_def replayTerminal_def successorState_def Let_def split: if_splits)
  then show ?thesis
  proof cases
    case rotation
    with r show ?thesis using replayRotation_inv [OF inv c] by (simp add: replayTransition_def)
  next
    case ended
    with acceptSuccessor_inv [OF inv c] f show ?thesis by (intro disjI1 exI [of _ h']) (simp add: acceptSuccessor_def)
  next
    case delegation
    with acceptSuccessor_inv [OF inv c] f show ?thesis by (intro disjI1 exI [of _ h]) (simp add: acceptSuccessor_def)
  qed simp
qed

lemma replaySuccessor_inv:
  assumes inv: "replayInv E st h" and noted: "st = notePostState st"
    and new: "map_of (rsSeen st) (EventID E (veSigned item)) = None"
    and r: "replaySuccessor E item (EventID E (veSigned item)) st = Inr st'"
  shows "(\<exists>h' e. replayInv E st' h' \<and> rsOut st' = rsOut st @ [e] \<and> keeps (elKeys E) item e \<and> rsStarted st' = rsStarted st) \<or> st' = st"
proof -
  from inv have f: "rsEntityKey st = auEntity h" "rsOperationalKey st = auOperational h" "rsNextSeq st = length (rsOut st)"
    "rsTerminal st = auTerminal h" "rsPreviousState st = auState h" "rsLastEventID st = EventID E (veSigned (last (rsOut st)))"
    by (auto simp: replayInv_def)
  let ?e = "item\<lparr>veAuthorityEntity := auEntity h, veAuthorityOperational := auOperational h\<rparr>"
  have auth: "(case map_of (rsPostStates st) (cfPreviousEventID (veChain item)) of Some prior \<Rightarrow> prior
      | None \<Rightarrow> (rsEntityKey st, rsOperationalKey st)) = (auEntity h, auOperational h)"
    if "validChainFields E (veChain item) (rsNextSeq st) (rsLastEventID st) (rsPreviousState st)"
  proof -
    from that have "rsLastEventID st \<noteq> ''''" "cfPreviousEventID (veChain item) = rsLastEventID st"
      by (auto simp: validChainFields_def dest: validHash_nonempty)
    with notePostState_lookup [of st] noted f show ?thesis by simp
  qed
  show ?thesis
  proof (cases "st' = st")
    case False
    with r have v: "validChainFields E (veChain item) (rsNextSeq st) (rsLastEventID st) (rsPreviousState st)"
      by (auto simp: replaySuccessor_def Let_def split: if_splits)
    have fresh: "EventID E (veSigned item) \<notin> (\<lambda>x. EventID E (veSigned x)) ` set (rsOut st)"
      using inv new by (auto simp: replayInv_def)
    from r False auth [OF v] v f fresh have c: "continues E (rsOut st) h ?e"
      by (auto simp: replaySuccessor_def continues_def Let_def split: if_splits option.splits)
    from r False auth [OF v] have "replayTransition E ?e (EventID E (veSigned ?e)) st = Inr st'"
      by (auto simp: replaySuccessor_def Let_def split: if_splits option.splits)
    from replayTransition_inv [OF inv c this] False show ?thesis
      by (auto simp: keeps_def entryOf_def goodThumb_def intro!: exI [of _ ?e])
  qed simp
qed

lemma acceptGenesis_inv:
  assumes "genesisOf E e h" "rsOut st = []" "\<not> rsTerminal st" "rsEntityKey st = auEntity h" "rsOperationalKey st = auOperational h"
    and "rsOperationalThumb st = auOperationalThumb h" "rsNextSeq st = 1"
    and "e = item\<lparr>veAuthorityEntity := rsEntityKey st, veAuthorityOperational := rsOperationalKey st\<rparr>"
  shows "replayInv E (acceptGenesis item (EventID E (veSigned item)) (auEntityThumb h) st) h
    \<and> rsOut (acceptGenesis item (EventID E (veSigned item)) (auEntityThumb h) st) = [e]
    \<and> rsStarted (acceptGenesis item (EventID E (veSigned item)) (auEntityThumb h) st)"
proof -
  have "stream E [e] h" using assms(1) by (rule stream.genesis)
  moreover have "rsOut (acceptGenesis item (EventID E (veSigned item)) (auEntityThumb h) st) = [e]"
    using assms by (simp add: acceptGenesis_def)
  moreover have "activeLifecycleState (evDomain (veEvent item)) (auEntityThumb h) (rsOperationalThumb st) = auState h"
    using assms by (simp add: genesisOf_def)
  moreover have "veSigned e = veSigned item" using assms by simp
  moreover have "map_of (auState h) ''entity_thumb'' = Some (JString (auEntityThumb h))"
    "thumbprintOf (elKeys E) (auEntity h) = Some (auEntityThumb h)" "\<not> auTerminal h"
    using assms(1) by (auto simp: genesisOf_def)
  ultimately show ?thesis using assms(2-7)
    by (simp add: replayInv_def acceptGenesis_def update_conv)
qed

lemma validateMigrationResult_keys [simp]:
  "validateMigrationResult E (event\<lparr>evInitialEntityPublicKey := a, evInitialEntityThumbprint := b,
      evInitialOperationalPublicKey := c, evInitialOperationalThumbprint := d\<rparr>) m = validateMigrationResult E event m"
  by (simp add: validateMigrationResult_def cong: if_cong option.case_cong sum.case_cong)

lemma validateMigrationResult_ok:
  assumes "validateMigrationResult E event m = Inr ()"
  shows "\<exists>et ot. thumbprintOf (elKeys E) (mrEntityKey m) = Some et \<and> thumbprintOf (elKeys E) (mrActiveOperationalKey m) = Some ot \<and> et \<noteq> ot"
  using assms by (auto simp: validateMigrationResult_def split: if_splits option.splits)

lemma replayMigrationGenesis_inv:
  assumes st: "rsOut st = []" "\<not> rsTerminal st" "\<not> rsStarted st" and t: "evType (veEvent item) = LogEventMigration"
    and r: "replayMigrationGenesis E mv log item (EventID E (veSigned item)) st = Inr st'"
  shows "(\<exists>h e. replayInv E st' h \<and> rsOut st' = [e] \<and> keeps (elKeys E) item e \<and> rsStarted st')
    \<or> rsOut st' = [] \<and> \<not> rsTerminal st' \<and> \<not> rsStarted st'"
proof (cases "st' = st\<lparr>rsSawMigration := True\<rparr>")
  case False
  from r False obtain m where ok: "validateMigrationResult E (veEvent item) m = Inr ()"
    and g: "veParseError item = None" "validGenesisChain (veChain item)"
      "signedByKey (elKeys E) (mrEntityKey m) (evInitialEntityKid (veEvent item)) (veSigned item) (evInitialEntitySignature (veEvent item))"
    and st': "st' = (acceptGenesis (item\<lparr>veEvent := (veEvent item)\<lparr>evInitialEntityPublicKey := mrEntityKey m,
          evInitialEntityThumbprint := (case thumbprintOf (elKeys E) (mrEntityKey m) of None \<Rightarrow> '''' | Some t \<Rightarrow> t),
          evInitialOperationalPublicKey := mrActiveOperationalKey m,
          evInitialOperationalThumbprint := (case thumbprintOf (elKeys E) (mrActiveOperationalKey m) of None \<Rightarrow> '''' | Some t \<Rightarrow> t)\<rparr>,
          veMigration := Some m\<rparr>) (EventID E (veSigned item)) (case thumbprintOf (elKeys E) (mrEntityKey m) of None \<Rightarrow> '''' | Some t \<Rightarrow> t)
        (st\<lparr>rsSawMigration := True, rsEntityKey := mrEntityKey m, rsOperationalKey := mrActiveOperationalKey m,
            rsOperationalThumb := (case thumbprintOf (elKeys E) (mrActiveOperationalKey m) of None \<Rightarrow> '''' | Some t \<Rightarrow> t), rsNextSeq := 1\<rparr>))
        \<lparr>rsPriorHistory := mrPriorHistory m\<rparr>"
    by (auto simp: replayMigrationGenesis_def Let_def rbind_Inr_iff split: if_splits option.splits sum.splits)
  from validateMigrationResult_ok [OF ok] obtain et ot where th: "thumbprintOf (elKeys E) (mrEntityKey m) = Some et"
    "thumbprintOf (elKeys E) (mrActiveOperationalKey m) = Some ot" "et \<noteq> ot" by blast
  let ?ev = "(veEvent item)\<lparr>evInitialEntityPublicKey := mrEntityKey m, evInitialEntityThumbprint := et,
      evInitialOperationalPublicKey := mrActiveOperationalKey m, evInitialOperationalThumbprint := ot\<rparr>"
  let ?item = "item\<lparr>veEvent := ?ev, veMigration := Some m\<rparr>"
  let ?e = "?item\<lparr>veAuthorityEntity := mrEntityKey m, veAuthorityOperational := mrActiveOperationalKey m\<rparr>"
  let ?st = "st\<lparr>rsSawMigration := True, rsEntityKey := mrEntityKey m, rsOperationalKey := mrActiveOperationalKey m,
            rsOperationalThumb := ot, rsNextSeq := 1\<rparr>"
  let ?h = "\<lparr>auEntity = mrEntityKey m, auOperational = mrActiveOperationalKey m, auEntityThumb = et, auOperationalThumb = ot,
      auState = activeLifecycleState (evDomain ?ev) et ot, auTerminal = False\<rparr>"
  have "genesisOf E ?e ?h" using ok g th t by (simp add: genesisOf_def)
  from acceptGenesis_inv [OF this, of ?st ?item] st
  have "replayInv E (acceptGenesis ?item (EventID E (veSigned item)) et ?st) ?h"
    "rsOut (acceptGenesis ?item (EventID E (veSigned item)) et ?st) = [?e]"
    "rsStarted (acceptGenesis ?item (EventID E (veSigned item)) et ?st)" by simp_all
  moreover have "st' = (acceptGenesis ?item (EventID E (veSigned item)) et ?st)\<lparr>rsPriorHistory := mrPriorHistory m\<rparr>"
    using st' th by simp
  ultimately show ?thesis
    by (intro disjI1 exI [of _ ?h] exI [of _ ?e]) (simp add: keeps_def entryOf_def goodThumb_def t)
qed (use st in simp)

lemma replayIssuanceGenesis_inv:
  assumes st: "rsOut st = []" "\<not> rsTerminal st" "\<not> rsStarted st" and t: "evType (veEvent item) = LogEventIssuance"
    and m: "veMigration item = None"
    and r: "replayIssuanceGenesis E item (EventID E (veSigned item)) st = Inr st'"
  shows "(\<exists>h e. replayInv E st' h \<and> rsOut st' = [e] \<and> keeps (elKeys E) item e \<and> rsStarted st')
    \<or> rsOut st' = [] \<and> \<not> rsTerminal st' \<and> \<not> rsStarted st'"
proof (cases "rsOut st' = [] \<and> \<not> rsTerminal st' \<and> \<not> rsStarted st'")
  case False
  let ?ev = "veEvent item"
  from r False st obtain ot et where g: "veParseError item = None" "validGenesisChain (veChain item)"
      "thumbprintOf (elKeys E) (evInitialEntityPublicKey ?ev) = Some et" "et = evInitialEntityThumbprint ?ev" "et \<noteq> ot"
      "candidateAuthorizedByCurrentHistory (elKeys E) ?ev (veSigned item) (evInitialEntityPublicKey ?ev) (evInitialOperationalPublicKey ?ev)"
      "(if evInitialOperationalThumbprint ?ev = '''' then thumbprintOf (elKeys E) (evInitialOperationalPublicKey ?ev)
        else Some (evInitialOperationalThumbprint ?ev)) = Some ot"
    and st': "st' = acceptGenesis (item\<lparr>veEvent := ?ev\<lparr>evInitialOperationalThumbprint := ot\<rparr>\<rparr>) (EventID E (veSigned item)) et
        (st\<lparr>rsNextSeq := 1, rsEntityKey := evInitialEntityPublicKey ?ev, rsOperationalKey := evInitialOperationalPublicKey ?ev,
            rsOperationalThumb := ot\<rparr>)"
    by (auto simp: replayIssuanceGenesis_def Let_def split: if_splits option.splits)
  let ?item = "item\<lparr>veEvent := ?ev\<lparr>evInitialOperationalThumbprint := ot\<rparr>\<rparr>"
  let ?e = "?item\<lparr>veAuthorityEntity := evInitialEntityPublicKey ?ev, veAuthorityOperational := evInitialOperationalPublicKey ?ev\<rparr>"
  let ?h = "\<lparr>auEntity = evInitialEntityPublicKey ?ev, auOperational = evInitialOperationalPublicKey ?ev, auEntityThumb = et,
      auOperationalThumb = ot, auState = activeLifecycleState (evDomain ?ev) et ot, auTerminal = False\<rparr>"
  have gen: "genesisOf E ?e ?h"
    using g m t by (simp add: genesisOf_def candidateAuthorizedByCurrentHistory_def)
  have keeps: "keeps (elKeys E) item ?e"
    using g(7) by (auto simp: keeps_def entryOf_def goodThumb_def thumbOr_def thumbprintOf_def split: if_splits)
  from acceptGenesis_inv [OF gen, of _ ?item] st st' show ?thesis
    by (intro disjI1 exI [of _ ?h] exI [of _ ?e]) (simp add: keeps)
qed simp

lemma replayStep_cases:
  assumes "replayStep E mv log item st = Inr st'"
  shows "st' = notePostState st
    \<or> rsStarted (notePostState st) \<and> map_of (rsSeen (notePostState st)) (EventID E (veSigned item)) = None
        \<and> replaySuccessor E item (EventID E (veSigned item)) (notePostState st) = Inr st'
    \<or> \<not> rsStarted (notePostState st) \<and> evType (veEvent item) = LogEventMigration
        \<and> replayMigrationGenesis E mv log item (EventID E (veSigned item)) (notePostState st) = Inr st'
    \<or> \<not> rsStarted (notePostState st) \<and> evType (veEvent item) = LogEventIssuance
        \<and> replayIssuanceGenesis E item (EventID E (veSigned item)) (notePostState st) = Inr st'"
  using assms unfolding replayStep_def Let_def
  by (simp split: if_split_asm option.split_asm del: notePostState_fields)

text \<open>One iteration accepts the entry it was given or leaves the accepted events as they are.\<close>

lemma replayStep_ok:
  assumes ok: "replayOk E st" and m: "veMigration item = None" and r: "replayStep E mv log item st = Inr st'"
  shows "replayOk E st' \<and> (rsOut st' = rsOut st \<or> (\<exists>e. rsOut st' = rsOut st @ [e] \<and> keeps (elKeys E) item e))"
proof -
  let ?st = "notePostState st" and ?key = "EventID E (veSigned item)"
  have ok': "replayOk E ?st" using ok by simp
  from replayStep_cases [OF r] show ?thesis
  proof (elim disjE conjE, goal_cases same successor migration issuance)
    case same
    with ok show ?thesis by simp
  next
    case successor
    with ok' obtain h where inv: "replayInv E ?st h" by (auto simp: replayOk_def)
    from replaySuccessor_inv [OF inv _ successor(2,3)] ok' successor(1) show ?thesis
      by (auto simp: replayOk_def)
  next
    case migration
    with ok' replayMigrationGenesis_inv [of ?st item E mv log st'] show ?thesis by (auto simp: replayOk_def)
  next
    case issuance
    with ok' m replayIssuanceGenesis_inv [of ?st item E st'] show ?thesis by (auto simp: replayOk_def)
  qed
qed

lemma replayLoop_ok:
  assumes "replayOk E st" "\<forall>v \<in> set xs. veMigration v = None" "replayLoop E ctx mv log n xs st = Inr (n', st')"
  shows "replayOk E st' \<and> (\<exists>es. rsOut st' = rsOut st @ es \<and> list_emb (\<lambda>e x. keeps (elKeys E) x e) es xs)"
  using assms
proof (induction xs arbitrary: n st)
  case (Cons x xs)
  from Cons.prems obtain st1 where s: "replayStep E mv log x st = Inr st1" and l: "replayLoop E ctx mv log (Suc n) xs st1 = Inr (n', st')"
    by (auto simp: rbind_Inr_iff split: option.splits)
  from replayStep_ok [OF Cons.prems(1) _ s] Cons.prems(2) have step: "replayOk E st1"
    "rsOut st1 = rsOut st \<or> (\<exists>e. rsOut st1 = rsOut st @ [e] \<and> keeps (elKeys E) x e)" by auto
  from Cons.IH [OF step(1) _ l] Cons.prems(2) obtain es where "replayOk E st'" "rsOut st' = rsOut st1 @ es"
    "list_emb (\<lambda>e x. keeps (elKeys E) x e) es xs" by auto
  moreover from this have "list_emb (\<lambda>e x. keeps (elKeys E) x e) es (x # xs)"
    by (simp add: list_emb_Cons)
  ultimately show ?case using step(2)
    by (elim disjE exE conjE) (auto intro!: exI [of _ "_ # es"])
qed simp

lemma replay_stream:
  assumes "verifyLifecycleVerifiedWithMigration E ctx indexed mv log = Inr (out, prior)" "\<forall>v \<in> set indexed. veMigration v = None"
  shows "(\<exists>h. stream E out h) \<and> list_emb (\<lambda>e x. keeps (elKeys E) x e) out indexed"
proof -
  from assms(1) obtain n st where l: "replayLoop E ctx mv log 0 indexed zeroReplayState = Inr (n, st)"
    and o: "out = rsOut st" "rsOut st \<noteq> []"
    by (auto simp: verifyLifecycleVerifiedWithMigration_def rbind_Inr_iff split: if_splits option.splits)
  have "replayOk E (zeroReplayState :: 'a replayState)" by (simp add: replayOk_def zeroReplayState_def)
  from replayLoop_ok [OF this assms(2) l] o show ?thesis
    by (auto simp: replayOk_def replayInv_def zeroReplayState_def split: if_splits)
qed

subsection \<open>Imported history\<close>

lemma importedHistory_snoc: "xs \<noteq> [] \<Longrightarrow> importedHistory (xs @ [e]) = importedHistory xs"
  by (cases xs) (simp_all add: importedHistory_def)

lemma notePostState_prior [simp]: "rsPriorHistory (notePostState st) = rsPriorHistory st"
  by (simp add: notePostState_def)

lemma successor_prior: "replaySuccessor E item key st = Inr st' \<Longrightarrow> rsPriorHistory st' = rsPriorHistory st"
  by (auto simp: replaySuccessor_def replayTransition_def replayRotation_def replayTerminal_def acceptSuccessor_def Let_def
      split: if_splits option.splits)

lemma genesis_prior:
  assumes "rsOut st = []" "rsPriorHistory st = []" "veMigration item = None"
  shows "replayMigrationGenesis E mv log item key st = Inr st' \<Longrightarrow> rsPriorHistory st' = importedHistory (rsOut st')"
    "replayIssuanceGenesis E item key st = Inr st' \<Longrightarrow> rsPriorHistory st' = importedHistory (rsOut st')"
  using assms
  by (auto simp: replayMigrationGenesis_def replayIssuanceGenesis_def acceptGenesis_def importedHistory_def Let_def rbind_Inr_iff
      split: if_splits option.splits sum.splits)

lemma step_prior:
  assumes "replayOk E st" "rsPriorHistory st = importedHistory (rsOut st)" "veMigration item = None"
    "replayStep E mv log item st = Inr st'"
  shows "rsPriorHistory st' = importedHistory (rsOut st')"
proof -
  let ?st = "notePostState st"
  have ok: "replayOk E ?st" using assms(1) by simp
  from replayStep_cases [OF assms(4)] show ?thesis
  proof (elim disjE conjE, goal_cases same successor migration issuance)
    case successor
    with ok obtain h where inv: "replayInv E ?st h" by (auto simp: replayOk_def)
    then have "rsOut ?st \<noteq> []" using stream_nonempty by (auto simp: replayInv_def)
    moreover from replaySuccessor_inv [OF inv _ successor(2,3)]
    have "rsOut st' = rsOut ?st \<or> (\<exists>e. rsOut st' = rsOut ?st @ [e])" by auto
    ultimately show ?thesis using assms(2) successor_prior [OF successor(3)] by (auto simp: importedHistory_snoc)
  qed (use ok assms(2,3) genesis_prior [of ?st item] in \<open>auto simp: replayOk_def importedHistory_def\<close>)
qed

lemma loop_prior:
  assumes "replayOk E st" "rsPriorHistory st = importedHistory (rsOut st)" "\<forall>v \<in> set xs. veMigration v = None"
    "replayLoop E ctx mv log n xs st = Inr (n', st')"
  shows "rsPriorHistory st' = importedHistory (rsOut st')"
  using assms
proof (induction xs arbitrary: n st)
  case (Cons x xs)
  from Cons.prems obtain st1 where s: "replayStep E mv log x st = Inr st1" and l: "replayLoop E ctx mv log (Suc n) xs st1 = Inr (n', st')"
    by (auto simp: rbind_Inr_iff split: option.splits)
  from Cons.prems have m: "veMigration x = None" "\<forall>v \<in> set xs. veMigration v = None" by auto
  from replayStep_ok [OF Cons.prems(1) m(1) s] have "replayOk E st1" by blast
  from Cons.IH [OF this step_prior [OF Cons.prems(1,2) m(1) s] m(2) l] show ?case .
qed simp

lemma replay_prior:
  assumes "verifyLifecycleVerifiedWithMigration E ctx indexed mv log = Inr (out, prior)" "\<forall>v \<in> set indexed. veMigration v = None"
  shows "prior = importedHistory out"
proof -
  from assms(1) obtain n st where l: "replayLoop E ctx mv log 0 indexed zeroReplayState = Inr (n, st)"
    and o: "out = rsOut st" "prior = rsPriorHistory st"
    by (auto simp: verifyLifecycleVerifiedWithMigration_def rbind_Inr_iff split: if_splits option.splits)
  have "replayOk E (zeroReplayState :: 'a replayState)" "rsPriorHistory (zeroReplayState :: 'a replayState) = importedHistory (rsOut zeroReplayState)"
    by (simp_all add: replayOk_def zeroReplayState_def importedHistory_def)
  from loop_prior [OF this assms(2) l] o show ?thesis by simp
qed

subsection \<open>The last event fixes the history\<close>

lemma stream_sequence: "stream E es h \<Longrightarrow> cfSequence (veChain (last es)) = Some (length es - 1)"
  by (induction rule: stream.induct) (auto simp: genesisOf_def validGenesisChain_def continues_def validChainFields_def)

lemma stream_binds:
  assumes "stream E es h" "stream E es' h'" "EventID E (veSigned (last es)) = EventID E (veSigned (last es'))"
    and "inj_on (EventID E) (veSigned ` (set es \<union> set es'))"
    and "\<forall>x \<in> set es. \<forall>y \<in> set es'. veSigned x = veSigned y \<longrightarrow> veChain x = veChain y"
  shows "map veSigned es = map veSigned es'"
  using assms
proof (induction arbitrary: es' h' rule: stream.induct)
  case (genesis e h)
  from stream_nonempty [OF genesis(2)] have l: "last es' \<in> set es'" by simp
  with genesis have s: "veSigned e = veSigned (last es')" by (auto dest: inj_onD)
  with l genesis(5) have c: "veChain e = veChain (last es')" by simp
  have "cfSequence (veChain e) = Some 0" using genesis(1) by (simp add: genesisOf_def validGenesisChain_def)
  with c stream_sequence [OF genesis(2)] have "length es' \<le> 1" by simp
  with stream_nonempty [OF genesis(2)] obtain x where "es' = [x]" by (cases es') auto
  with s show ?case by simp
next
  case (successor es h e h1)
  from stream_nonempty [OF successor(5)] have l: "last es' \<in> set es'" by simp
  with successor(6,7) have s: "veSigned e = veSigned (last es')" by (auto dest: inj_onD)
  with l successor(8) have c: "veChain e = veChain (last es')" by simp
  have q: "cfSequence (veChain e) = Some (length es)" "cfPreviousEventID (veChain e) = EventID E (veSigned (last es))"
    using successor(2) by (auto simp: continues_def validChainFields_def)
  from successor(5) show ?case
  proof cases
    case (genesis y)
    with q c stream_nonempty [OF successor(1)] show ?thesis by (auto simp: genesisOf_def validGenesisChain_def)
  next
    case (successor fs g y)
    with c q have "EventID E (veSigned (last es)) = EventID E (veSigned (last fs))"
      by (auto simp: continues_def validChainFields_def)
    moreover have "inj_on (EventID E) (veSigned ` (set es \<union> set fs))"
      by (rule inj_on_subset [OF successor.prems(3)]) (use \<open>es' = fs @ [y]\<close> in auto)
    ultimately show ?thesis
      using successor.IH [of fs g] successor.prems(4) successor s by auto
  qed
qed

subsection \<open>Noise\<close>

lemma noise_successor:
  assumes "\<forall>ek ok. \<not> candidateAuthorizedByCurrentHistory (elKeys E) (veEvent v) (veSigned v) ek ok"
  shows "replaySuccessor E v key st = Inr st" "replayIssuanceGenesis E v key st = Inr st"
  using assms by (simp_all add: replaySuccessor_def replayIssuanceGenesis_def Let_def)

lemma noise_step:
  assumes n: "noise (elKeys E) v" and seen: "\<forall>signed. map_of (rsSeen st) (EventID E (veSigned v)) = Some signed \<longrightarrow> signed = veSigned v"
  shows "replayStep E mv log v st = Inr (notePostState st)"
proof (cases "veSigned v = []")
  case False
  with n have "evType (veEvent v) \<noteq> LogEventMigration"
    and a: "\<forall>ek ok. \<not> candidateAuthorizedByCurrentHistory (elKeys E) (veEvent v) (veSigned v) ek ok"
    by (simp_all only: noise_def simp_thms)
  with False seen noise_successor [OF a] show ?thesis
    unfolding replayStep_def Let_def by (simp split: option.split)
qed (simp add: replayStep_def)

lemma replayStep_note: "replayStep E mv log v (notePostState st) = replayStep E mv log v st"
  by (simp add: replayStep_def)

lemma seenOk_note [simp]: "seenOk E S (notePostState st) = seenOk E S st"
  by (simp add: seenOk_def)

lemma seenOk_same: "rsSeen st' = rsSeen st \<Longrightarrow> seenOk E S st' = seenOk E S st"
  by (simp add: seenOk_def)

lemma seenOk_update:
  assumes "seenOk E S st" "s \<in> S" "rsSeen st' = AList.update (EventID E s) s (rsSeen st)"
  shows "seenOk E S st'"
  using assms by (auto simp: seenOk_def update_conv)

lemma transition_seen:
  assumes "replayTransition E v key st = Inr st'"
  shows "rsSeen st' = rsSeen st \<or> rsSeen st' = AList.update key (veSigned v) (rsSeen st)"
  using assms
  by (auto simp: replayTransition_def replayRotation_def replayTerminal_def acceptSuccessor_def Let_def split: if_splits option.splits)

lemma successor_seen:
  assumes "replaySuccessor E v key st = Inr st'"
  shows "rsSeen st' = rsSeen st \<or> rsSeen st' = AList.update key (veSigned v) (rsSeen st)"
proof (cases "st' = st")
  case False
  with assms obtain a b where "replayTransition E (v\<lparr>veAuthorityEntity := a, veAuthorityOperational := b\<rparr>) key st = Inr st'"
    unfolding replaySuccessor_def Let_def by (simp split: if_split_asm option.split_asm)
  from transition_seen [OF this] show ?thesis by simp
qed simp

lemma genesis_seen:
  "replayIssuanceGenesis E v key st = Inr st' \<Longrightarrow> rsSeen st' = rsSeen st \<or> rsSeen st' = AList.update key (veSigned v) (rsSeen st)"
  "replayMigrationGenesis E mv log v key st = Inr st' \<Longrightarrow> rsSeen st' = rsSeen st \<or> rsSeen st' = AList.update key (veSigned v) (rsSeen st)"
  by (auto simp: replayIssuanceGenesis_def replayMigrationGenesis_def acceptGenesis_def Let_def rbind_Inr_iff
      split: if_splits option.splits sum.splits)

lemma step_seen:
  assumes "seenOk E S st" "veSigned v \<in> S" "replayStep E mv log v st = Inr st'"
  shows "seenOk E S st'"
proof -
  from replayStep_cases [OF assms(3)]
  have "rsSeen st' = rsSeen (notePostState st) \<or> rsSeen st' = AList.update (EventID E (veSigned v)) (veSigned v) (rsSeen (notePostState st))"
    by (elim disjE conjE) (simp, (drule successor_seen genesis_seen, simp)+)
  with assms(1,2) seenOk_same seenOk_update show ?thesis by (metis seenOk_note)
qed

lemma loopView_note:
  "loopView (replayLoop E (\<lambda>_. None) mv log n xs (notePostState st)) = loopView (replayLoop E (\<lambda>_. None) mv log n xs st)"
  by (cases xs) (simp_all add: loopView_def replayStep_note)

lemma loopView_count:
  "loopView (replayLoop E (\<lambda>_. None) mv log n xs st) = loopView (replayLoop E (\<lambda>_. None) mv log m xs st)"
proof (induction xs arbitrary: n m st)
  case (Cons x xs)
  then show ?case by (cases "replayStep E mv log x st") (simp_all add: loopView_def rbind_def split: sum.splits)
qed (simp add: loopView_def)

lemma loopView_noise:
  assumes "inj_on (EventID E) S" "veSigned ` set xs \<subseteq> S" "seenOk E S st"
  shows "loopView (replayLoop E (\<lambda>_. None) mv log n xs st)
    = loopView (replayLoop E (\<lambda>_. None) mv log n (filter (\<lambda>v. \<not> noise (elKeys E) v) xs) st)"
  using assms(2,3)
proof (induction xs arbitrary: n st)
  case (Cons x xs)
  show ?case
  proof (cases "noise (elKeys E) x")
    case True
    have "replayStep E mv log x st = Inr (notePostState st)"
      using True assms(1) Cons.prems by (intro noise_step) (auto simp: seenOk_def dest: inj_onD)
    with True Cons.IH [of "notePostState st" "Suc n"] Cons.prems show ?thesis
      by (simp add: loopView_note loopView_count [of E mv log "Suc n" _ st n])
  next
    case False
    show ?thesis
    proof (cases "replayStep E mv log x st")
      case (Inr st1)
      with step_seen [OF Cons.prems(2) _ Inr] Cons.prems have "seenOk E S st1" by simp
      with Cons.IH [of st1 "Suc n"] Cons.prems False Inr show ?thesis by simp
    qed (use False in \<open>simp add: loopView_def\<close>)
  qed
qed simp

lemma verify_loopView:
  "verifyLifecycleVerifiedWithMigration E (\<lambda>_. None) xs mv log =
     rbind (loopView (replayLoop E (\<lambda>_. None) mv log 0 xs zeroReplayState)) (\<lambda>st.
       if rsOut st = [] then
         (if rsSawMigration st then Inl (invalidMigration ''dnsid: no authenticated c2sp-tlog migration genesis'' None)
          else Inl (PlainError ''dnsid: no valid c2sp-tlog lifecycle events'' None))
       else Inr (rsOut st, rsPriorHistory st))"
  by (cases "replayLoop E (\<lambda>_. None) mv log 0 xs zeroReplayState")
    (auto simp: verifyLifecycleVerifiedWithMigration_def loopView_def)

subsection \<open>The state of a stream\<close>

lemma genesisOf_head:
  assumes "genesisOf E e h"
  shows "h = \<lparr>auEntity = evInitialEntityPublicKey (veEvent e), auOperational = evInitialOperationalPublicKey (veEvent e),
      auEntityThumb = evInitialEntityThumbprint (veEvent e), auOperationalThumb = evInitialOperationalThumbprint (veEvent e),
      auState = activeLifecycleState (evDomain (veEvent e)) (evInitialEntityThumbprint (veEvent e)) (evInitialOperationalThumbprint (veEvent e)),
      auTerminal = False\<rparr>"
  using assms by (cases h) (simp add: genesisOf_def)

lemma stream_det: "stream E es h \<Longrightarrow> stream E es h' \<Longrightarrow> h = h'"
proof (induction arbitrary: h' rule: stream.induct)
  case (genesis e h)
  from genesis(2) show ?case
  proof cases
    case genesis
    with \<open>genesisOf E e h\<close> genesisOf_head show ?thesis by metis
  next
    case (successor es' g e')
    with stream_nonempty [of E es' g] show ?thesis by simp
  qed
next
  case (successor es h e h1)
  from successor(5) show ?case
  proof cases
    case genesis
    with stream_nonempty [OF successor(1)] show ?thesis by auto
  next
    case (successor es' g e')
    with successor.IH [of g] successor.hyps(3) show ?thesis by simp
  qed
qed

lemma stream_fold:
  assumes "stream E es h" "\<forall>x \<in> set es. evDomain (veEvent x) = d"
    and "thumbprintOf (elKeys E) (evInitialOperationalPublicKey (veEvent (hd es))) = Some (evInitialOperationalThumbprint (veEvent (hd es)))"
  shows "auEntity h = evInitialEntityPublicKey (veEvent (hd es)) \<and> thumbprintOf (elKeys E) (auEntity h) = Some (auEntityThumb h)
    \<and> fold (applyToState d (auEntityThumb h)) (tl es)
        (evInitialOperationalPublicKey (veEvent (hd es)), evInitialOperationalThumbprint (veEvent (hd es)),
         activeLifecycleState d (auEntityThumb h) (evInitialOperationalThumbprint (veEvent (hd es))))
      = (auOperational h, auOperationalThumb h, auState h)"
  using assms
proof (induction rule: stream.induct)
  case (genesis e h)
  then show ?case by (auto simp: genesisOf_def)
next
  case (successor es h e h')
  from stream_nonempty [OF successor(1)] have h: "hd (es @ [e]) = hd es" "tl (es @ [e]) = tl es @ [e]" by simp_all
  have IH: "auEntity h = evInitialEntityPublicKey (veEvent (hd es)) \<and> thumbprintOf (elKeys E) (auEntity h) = Some (auEntityThumb h)
    \<and> fold (applyToState d (auEntityThumb h)) (tl es)
        (evInitialOperationalPublicKey (veEvent (hd es)), evInitialOperationalThumbprint (veEvent (hd es)),
         activeLifecycleState d (auEntityThumb h) (evInitialOperationalThumbprint (veEvent (hd es))))
      = (auOperational h, auOperationalThumb h, auState h)"
    using successor.prems h by (intro successor.IH) simp_all
  have d: "evDomain (veEvent e) = d" using successor.prems by simp
  have "auEntity h' = auEntity h \<and> auEntityThumb h' = auEntityThumb h
    \<and> applyToState d (auEntityThumb h) e (auOperational h, auOperationalThumb h, auState h) = (auOperational h', auOperationalThumb h', auState h')"
    using successor.hyps(3) d by (auto simp: successorState_def applyToState_def split: if_splits)
  with IH h show ?case by auto
qed

lemma lifecycleStateFromVerified_stream:
  assumes "stream E es h" "\<forall>x \<in> set es. evDomain (veEvent x) = d"
    and "thumbprintOf (elKeys E) (evInitialOperationalPublicKey (veEvent (hd es))) = Some (evInitialOperationalThumbprint (veEvent (hd es)))"
  shows "lifecycleStateFromVerified (elKeys E) es d = Inr (auEntity h, auOperational h, auState h)"
  using stream_fold [OF assms] assms(3) stream_nonempty [OF assms(1)]
  by (cases es) (auto simp: lifecycleStateFromVerified_def)

text \<open>The state object always has the four members, and the status of a stream that goes on is \<open>ACTIVE\<close>.\<close>

lemma stateObject_active:
  "activeLifecycleState d et ot = stateObject d ''ACTIVE'' et ot"
  "AList.update ''status'' (JString st) (stateObject d status et ot) = stateObject d st et ot"
  by (simp_all add: stateObject_def lifecycleState_object_def activeLifecycleState_def)

lemma stateShape_simps [simp]: "stateShape (stateObject d ''ACTIVE'' et ot) ended" "stateShape (stateObject d status et ot) True"
  by (auto simp: stateShape_def)

lemma stream_state: "stream E es h \<Longrightarrow> stateShape (auState h) (auTerminal h)"
proof (induction rule: stream.induct)
  case (genesis e h)
  then show ?case by (simp add: genesisOf_def stateObject_active)
next
  case (successor es h e h')
  from successor(3) show ?case
    using successor.IH by (auto simp: successorState_def stateObject_active simp del: update.simps split: if_splits)
qed

lemma stream_genesis: "stream E es h \<Longrightarrow> \<exists>g. genesisOf E (hd es) g"
proof (induction rule: stream.induct)
  case (successor es h e h')
  with stream_nonempty [OF successor(1)] show ?case by simp
qed auto

lemma headOf_stream:
  assumes s: "stream E es h" and d: "\<forall>x \<in> set es. evDomain (veEvent x) = d"
    and t: "\<forall>x \<in> set es. goodThumb (elKeys E) x"
    and r: "headOf E es d = Inr head"
  shows "shSeq head = length es - 1 \<and> shEventID head = EventID E (veSigned (last es)) \<and> lifecycleState_object (shState head) = auState h
    \<and> (\<not> auTerminal h \<longrightarrow> lsStatus (shState head) = ''ACTIVE'')"
proof -
  from r obtain ot where ot: "thumbprintOf (elKeys E) (evInitialOperationalPublicKey (veEvent (hd es))) = Some ot"
    using stream_nonempty [OF s] by (cases es) (auto simp: headOf_def lifecycleStateFromVerified_def rbind_Inr_iff split: option.splits)
  from stream_genesis [OF s] obtain g where "genesisOf E (hd es) g" by blast
  then have "evInitialOperationalThumbprint (veEvent (hd es)) = ot"
    using ot t stream_nonempty [OF s]
    by (cases "veMigration (hd es)"; cases "evInitialOperationalPublicKey (veEvent (hd es))")
      (auto simp: genesisOf_def goodThumb_def thumbprintOf_def thumbOr_def)
  from lifecycleStateFromVerified_stream [OF s d] ot this
  have "lifecycleStateFromVerified (elKeys E) es d = Inr (auEntity h, auOperational h, auState h)" by simp
  with r stream_state [OF s] stream_sequence [OF s] show ?thesis
    by (auto simp: headOf_def stateShape_def stateObject_def lifecycleState_object_def optionalString_def)
qed

subsection \<open>Checked appends\<close>

text \<open>\<open>readFrom\<close>: the entry an item of the replay was read from.\<close>

lemma readFrom_chain:
  assumes "numberTexts (elFloat E)" "readFrom E e1 v" "readFrom E e2 w" "veSigned v = veSigned w"
  shows "veChain v = veChain w"
proof -
  from assms(2,3) obtain x y where p: "parseEventFromEntry E e1 = Inr x" "parseEventFromEntry E e2 = Inr y"
    and c: "CanonicalFromEntry (elFloat E) e1 = Inr (veSigned v)" "CanonicalFromEntry (elFloat E) e2 = Inr (veSigned w)"
      "veChain v = peChain x" "veChain w = peChain y" by (auto simp: readFrom_def)
  from parse_payload [OF p(1)] parse_payload [OF p(2)] agree_event signed_bytes_payload [OF assms(1)] c assms(4) show ?thesis by metis
qed

lemma checkEntries_items:
  assumes "checkEntries E ref i d entries = Inr vs"
  shows "list_all2 (readFrom E) entries vs \<and> (\<forall>v \<in> set vs. goodThumb (elKeys E) v)
    \<and> (\<forall>v \<in> set vs. evDomain (veEvent v) = (if i = 0 then evDomain (veEvent (hd vs)) else d))"
  using assms
proof (induction entries arbitrary: i d vs)
  case (Cons entry entries)
  from Cons.prems obtain p signed rest where p: "parseEventFromEntry E entry = Inr p" "peValidationError p = None"
      "CanonicalFromEntry (elFloat E) entry = Inr signed"
    and dom: "i = 0 \<or> evDomain (peEvent p) = d"
    and r: "checkEntries E ref (Suc i) (if i = 0 then evDomain (peEvent p) else d) entries = Inr rest"
    and vs: "vs = verifiedOf p i signed None # rest"
    by (auto simp: rbind_Inr_iff map_err_Inr_iff split: option.splits if_splits)
  from p(1,2) obtain payload x where "eventFromPayload E payload = Inr x" "peValidationError x = None" "peEvent p = peEvent x"
    by (auto simp: parseEventFromEntry_def rbind_Inr_iff errorsJoin_None)
  with eventFromPayload_ok [of E payload x] have "goodThumb (elKeys E) (verifiedOf p i signed None)"
    by (simp add: goodThumb_def verifiedOf_def)
  moreover have "readFrom E entry (verifiedOf p i signed None)" using p by (simp add: readFrom_def verifiedOf_def)
  ultimately show ?case using Cons.IH [OF r] vs dom by (auto simp: verifiedOf_def)
qed simp

lemma checkEntries_prefix:
  assumes "checkEntries E ref i d (xs @ ys) = Inr vs"
  shows "\<exists>vs1 vs2. vs = vs1 @ vs2 \<and> checkEntries E ref i d xs = Inr vs1 \<and> length vs2 = length ys"
  using assms
proof (induction xs arbitrary: i d vs)
  case Nil
  then show ?case using checkEntries_items [of E ref i d ys vs] by (auto dest: list_all2_lengthD)
next
  case (Cons x xs)
  from Cons.prems obtain p signed rest where h: "map_err (\<lambda>e. ValidationError ''dnsid: c2sp-tlog context'' (Some e)) (validateEntryMetadata E ref x) = Inr ()"
      "parseEventFromEntry E x = Inr p" "peValidationError p = None" "CanonicalFromEntry (elFloat E) x = Inr signed"
      "\<not> (i \<noteq> 0 \<and> evDomain (peEvent p) \<noteq> d)"
    and r: "checkEntries E ref (Suc i) (if i = 0 then evDomain (peEvent p) else d) (xs @ ys) = Inr rest"
    and vs: "vs = verifiedOf p i signed None # rest"
    by (auto simp: rbind_Inr_iff map_err_Inr_iff split: option.splits if_splits)
  from Cons.IH [OF r] obtain vs1 vs2 where "rest = vs1 @ vs2" "length vs2 = length ys"
    "checkEntries E ref (Suc i) (if i = 0 then evDomain (peEvent p) else d) xs = Inr vs1" by blast
  with h vs show ?case by (intro exI [of _ "verifiedOf p i signed None # vs1"] exI [of _ vs2]) simp
qed

lemma list_emb_full: "list_emb P xs ys \<Longrightarrow> length xs = length ys \<Longrightarrow> list_all2 P xs ys"
  by (induction rule: list_emb.induct) (auto dest: list_emb_length)

lemma replayLoop_ctx:
  "replayLoop E ctx mv log n xs st = Inr (k, s) \<Longrightarrow> replayLoop E ctx' mv log n' xs st = Inr (k', s') \<Longrightarrow> s = s'"
  by (induction xs arbitrary: n n' st) (auto simp: rbind_Inr_iff split: option.splits)

lemma replayLoop_append:
  "replayLoop E ctx mv log n (xs @ ys) st = Inr r
    \<Longrightarrow> \<exists>k s. replayLoop E ctx mv log n xs st = Inr (k, s) \<and> replayLoop E ctx mv log k ys s = Inr r"
  by (induction xs arbitrary: n st) (auto simp: rbind_Inr_iff split: option.splits)

text \<open>An accepted append: every entry has become an event of the stream.\<close>

lemma CheckAppend_ok:
  assumes "CheckAppend E ctx ce (Some ref) history c = Inr head"
  shows "\<exists>vs n st h. checkEntries E ref 0 '''' (history @ [c]) = Inr vs
    \<and> replayLoop E ctx None (reference_String ref) 0 vs zeroReplayState = Inr (n, st)
    \<and> stream E (rsOut st) h \<and> list_all2 (\<lambda>e x. keeps (elKeys E) x e) (rsOut st) vs \<and> headOf E (rsOut st) (evDomain (veEvent (hd vs))) = Inr head"
proof -
  let ?lr = "reference_String ref"
  from assms obtain vs where vs: "checkEntries E ref 0 '''' (history @ [c]) = Inr vs"
    and r: "(case verifyLifecycleVerifiedWithMigration E ctx vs None ?lr of
            Inl err \<Rightarrow> if errors_As is_VerificationError err \<noteq> None \<or> ce \<noteq> None then Inl err else afterReplay E history vs []
          | Inr (applied, _) \<Rightarrow> afterReplay E history vs applied) = Inr head"
    by (auto simp: CheckAppend_def rbind_Inr_iff)
  have "afterReplay E history vs [] \<noteq> Inr head" by (simp add: afterReplay_def)
  with r obtain out prior where out: "verifyLifecycleVerifiedWithMigration E ctx vs None ?lr = Inr (out, prior)"
    and a: "afterReplay E history vs out = Inr head" by (auto split: sum.splits if_splits)
  from out obtain n st where l: "replayLoop E ctx None ?lr 0 vs zeroReplayState = Inr (n, st)" and o: "out = rsOut st"
    by (auto simp: verifyLifecycleVerifiedWithMigration_def rbind_Inr_iff split: if_splits option.splits)
  from checkEntries_items [OF vs] have i: "list_all2 (readFrom E) (history @ [c]) vs" by blast
  then have "\<forall>v \<in> set vs. veMigration v = None" by (auto simp: list_all2_conv_all_nth in_set_conv_nth readFrom_def)
  from replay_stream [OF out this] obtain h where s: "stream E out h" and e: "list_emb (\<lambda>e x. keeps (elKeys E) x e) out vs" by blast
  from a have "length out > length history" and hd: "headOf E out (evDomain (veEvent (hd vs))) = Inr head"
    by (auto simp: afterReplay_def split: if_splits)
  with list_emb_length [OF e] list_all2_lengthD [OF i] have "length out = length vs" by simp
  from list_emb_full [OF e this] vs l s hd o show ?thesis by blast
qed

lemma list_all2_elem: "list_all2 P xs ys \<Longrightarrow> x \<in> set xs \<Longrightarrow> \<exists>y \<in> set ys. P x y"
  by (induction rule: list_all2_induct) auto

lemma keeps_last:
  "list_all2 (\<lambda>e x. keeps K x e) out vs \<Longrightarrow> veSigned (last out) = veSigned (last vs) \<or> out = []"
  by (induction rule: list_all2_induct) (auto simp: keeps_def entryOf_def)

lemma CheckAppend_head:
  assumes vs: "checkEntries E ref 0 '''' entries = Inr vs" and s: "stream E out h"
    and k: "list_all2 (\<lambda>e x. keeps (elKeys E) x e) out vs" and r: "headOf E out (evDomain (veEvent (hd vs))) = Inr head"
  shows "shSeq head = length entries - 1 \<and> shEventID head = EventID E (veSigned (last vs)) \<and> lifecycleState_object (shState head) = auState h
    \<and> (\<not> auTerminal h \<longrightarrow> lsStatus (shState head) = ''ACTIVE'')"
proof -
  note items = checkEntries_items [OF vs]
  have all: "evDomain (veEvent e) = evDomain (veEvent (hd vs)) \<and> goodThumb (elKeys E) e" if "e \<in> set out" for e
  proof -
    from list_all2_elem [OF k that] obtain x where "x \<in> set vs" "keeps (elKeys E) x e" by blast
    with items show ?thesis by (auto simp: keeps_def entryOf_def)
  qed
  have "veSigned (last out) = veSigned (last vs)"
    using keeps_last [OF k] stream_nonempty [OF s] by blast
  moreover have "length out = length entries"
    using list_all2_lengthD [OF k] list_all2_lengthD [OF items [THEN conjunct1]] by simp
  moreover have "\<forall>x \<in> set out. evDomain (veEvent x) = evDomain (veEvent (hd vs))" "\<forall>x \<in> set out. goodThumb (elKeys E) x"
    using all by blast+
  ultimately show ?thesis using headOf_stream [OF s _ _ r] by presburger
qed

lemma kept_source:
  assumes "list_emb (\<lambda>e x. keeps K x e) out indexed" "x \<in> set out"
  shows "\<exists>v \<in> set indexed. veSigned v = veSigned x \<and> veChain v = veChain x"
proof -
  obtain v where "v \<in> set indexed" "keeps K v x" by (rule list_emb_set [OF assms])
  then show ?thesis by (intro bexI [of _ v]) (simp_all add: keeps_def entryOf_def)
qed

section \<open>Properties\<close>

text \<open>
  C3. Replay accepts a stream (\<open>verifyLifecycleVerifiedWithMigration\<close>): the accepted events are entries of the log in
  their order, and form a stream: a genesis that binds two different keys, then events that each carry the next
  sequence number, the event id of the one before and the hash of the state it left, are signed by
  the keys in force, do not go back in time, rotate keys only from the key in force, and follow no
  revocation or retirement.
\<close>
theorem replay_refines_stream:
  assumes "verifyLifecycleVerifiedWithMigration E ctx indexed verify currentLog = Inr (out, prior)"
    and "\<forall>v \<in> set indexed. veMigration v = None"
  shows "(\<exists>h. stream E out h) \<and> subseq (map entryOf out) (map entryOf indexed)"
proof -
  from replay_stream [OF assms] have "\<exists>h. stream E out h" and emb: "list_emb (\<lambda>e x. keeps (elKeys E) x e) out indexed" by auto
  from emb have "subseq (map entryOf out) (map entryOf indexed)"
    by (induction rule: list_emb.induct) (auto simp: keeps_def)
  with \<open>\<exists>h. stream E out h\<close> show ?thesis by blast
qed


text \<open>
  C10. The last event fixes the history: two verifiers that replay whatever entries they were given and end at the same event id have
  accepted the same events, byte for byte, so a log cannot show one head with two histories.
\<close>
theorem head_binds_history:
  assumes "numberTexts (elFloat E)"
    and "verifyLifecycleVerifiedWithMigration E ctx indexed verify currentLog = Inr (out, prior)"
    and "verifyLifecycleVerifiedWithMigration E ctx' indexed' verify' currentLog' = Inr (out', prior')"
    and "\<forall>v \<in> set indexed \<union> set indexed'. \<exists>entry. readFrom E entry v"
    and "inj_on (EventID E) (veSigned ` (set indexed \<union> set indexed'))"
    and "EventID E (veSigned (last out)) = EventID E (veSigned (last out'))"
  shows "map veSigned out = map veSigned out'"
proof -
  have "\<forall>v \<in> set indexed. veMigration v = None" "\<forall>v \<in> set indexed'. veMigration v = None"
    using assms(4) by (auto simp: readFrom_def)
  from replay_stream [OF assms(2) this(1)] replay_stream [OF assms(3) this(2)] obtain h h'
    where s: "stream E out h" "stream E out' h'"
      and emb: "list_emb (\<lambda>e x. keeps (elKeys E) x e) out indexed" "list_emb (\<lambda>e x. keeps (elKeys E) x e) out' indexed'" by blast
  note src = kept_source [OF emb(1)] and src' = kept_source [OF emb(2)]
  have "veSigned x \<in> veSigned ` (set indexed \<union> set indexed')" if "x \<in> set out \<union> set out'" for x
    using that src [of x] src' [of x] by (metis Un_iff imageI)
  then have "inj_on (EventID E) (veSigned ` (set out \<union> set out'))"
    by (intro inj_on_subset [OF assms(5)]) blast
  moreover have "veChain x = veChain y" if xy: "x \<in> set out" "y \<in> set out'" "veSigned x = veSigned y" for x y
  proof -
    from src [OF xy(1)] src' [OF xy(2)] obtain v w where v: "v \<in> set indexed" "veSigned v = veSigned x" "veChain v = veChain x"
      and w: "w \<in> set indexed'" "veSigned w = veSigned y" "veChain w = veChain y" by blast
    from v(1) w(1) assms(4) obtain e1 e2 where "readFrom E e1 v" "readFrom E e2 w" by blast
    from readFrom_chain [OF assms(1) this] v w xy(3) show ?thesis by simp
  qed
  ultimately show ?thesis using stream_binds [OF s assms(6)] by blast
qed

text \<open>
  C17. Checked appends chain (\<open>CheckAppend\<close>): when two entries are accepted one after the other, the first head counts the
  history, is named by the signed bytes of the first entry and is \<open>ACTIVE\<close>; and the second entry carries the next
  sequence number, the event id of that head and the hash of its state.
\<close>
theorem checked_appends_chain:
  assumes "CheckAppend E ctx1 err1 (Some ref) history c1 = Inr head1"
    and "CheckAppend E ctx2 err2 (Some ref) (history @ [c1]) c2 = Inr head2"
  shows "shSeq head1 = length history \<and> lsStatus (shState head1) = ''ACTIVE''
    \<and> (\<exists>signed. CanonicalFromEntry (elFloat E) c1 = Inr signed \<and> shEventID head1 = EventID E signed)
    \<and> shSeq head2 = Suc (shSeq head1)
    \<and> (\<exists>parsed. parseEventFromEntry E c2 = Inr parsed \<and> cfSequence (peChain parsed) = Some (shSeq head2)
         \<and> cfPreviousEventID (peChain parsed) = shEventID head1
         \<and> cfPreviousStateHash (peChain parsed) = lifecycleState_Hash E (shState head1))"
proof -
  let ?lr = "reference_String ref" and ?K = "elKeys E"
  from CheckAppend_ok [OF assms(1)] obtain vs n st h where vs: "checkEntries E ref 0 '''' (history @ [c1]) = Inr vs"
    and l: "replayLoop E ctx1 None ?lr 0 vs zeroReplayState = Inr (n, st)"
    and s: "stream E (rsOut st) h" and k: "list_all2 (\<lambda>e x. keeps ?K x e) (rsOut st) vs"
    and hd: "headOf E (rsOut st) (evDomain (veEvent (hd vs))) = Inr head1" by blast
  from CheckAppend_ok [OF assms(2)] obtain ws m st' h' where ws: "checkEntries E ref 0 '''' (history @ [c1] @ [c2]) = Inr ws"
    and l': "replayLoop E ctx2 None ?lr 0 ws zeroReplayState = Inr (m, st')"
    and s': "stream E (rsOut st') h'" and k': "list_all2 (\<lambda>e x. keeps ?K x e) (rsOut st') ws"
    and hd': "headOf E (rsOut st') (evDomain (veEvent (hd ws))) = Inr head2" by auto
  from checkEntries_prefix [of E ref 0 "''''" "history @ [c1]" "[c2]" ws] ws vs obtain v where v: "ws = vs @ [v]"
    by (auto simp: length_Suc_conv)
  from replayLoop_append [OF l' [unfolded v]] replayLoop_ctx [OF l] have step: "replayStep E None ?lr v st = Inr st'"
    by (auto simp: rbind_Inr_iff split: option.splits)
  have mig: "list_all2 (readFrom E) (history @ [c1] @ [c2]) ws" using checkEntries_items [OF ws] by blast
  then have rv: "readFrom E c2 v" using v list_all2_lengthD [OF checkEntries_items [OF vs, THEN conjunct1]]
    by (auto simp: list_all2_append1 list_all2_Cons1 append_eq_append_conv)
  have "replayOk E st"
  proof -
    have "\<forall>x \<in> set vs. veMigration x = None"
      using checkEntries_items [OF vs] by (auto simp: list_all2_conv_all_nth in_set_conv_nth readFrom_def)
    then show ?thesis using replayLoop_ok [OF _ _ l] by (simp add: replayOk_def zeroReplayState_def)
  qed
  with replayStep_ok [OF _ _ step] rv list_all2_lengthD [OF k] list_all2_lengthD [OF k'] v
  obtain e where e: "rsOut st' = rsOut st @ [e]" "veChain e = veChain v" by (auto simp: readFrom_def keeps_def entryOf_def)
  from s' [unfolded e(1)] stream_nonempty [OF s] obtain g where g: "stream E (rsOut st) g" "continues E (rsOut st) g e"
    by cases auto
  with stream_det [OF s g(1)] have c: "continues E (rsOut st) h e" by simp
  note h1 = CheckAppend_head [OF vs s k hd] and h2 = CheckAppend_head [OF ws s' k' hd']
  from list_all2_lengthD [OF k] list_all2_lengthD [OF checkEntries_items [OF vs, THEN conjunct1]]
  have len: "length (rsOut st) = Suc (length history)" by simp
  from checkEntries_items [OF vs] have "readFrom E c1 (last vs)"
    by (auto simp: list_all2_append1 list_all2_Cons1)
  then have "\<exists>signed. CanonicalFromEntry (elFloat E) c1 = Inr signed \<and> shEventID head1 = EventID E signed"
    using h1 by (auto simp: readFrom_def)
  moreover have "veSigned (last (rsOut st)) = veSigned (last vs)"
    using keeps_last [OF k] stream_nonempty [OF s] by blast
  ultimately show ?thesis using c h1 h2 len rv e(2)
    by (auto simp: continues_def validChainFields_def readFrom_def lifecycleState_Hash_def)
qed

subsection \<open>Witnesses\<close>

definition sample_end_payload :: payload where
  "sample_end_payload = [(''fqdn'', JString ''a.b''), (''kind'', JString Kind), (''log_origin'', JString ''l''),
     (''lr'', JString ''c2sp-tlog:public:https://l#s''), (''method'', JString ''c2sp-tlog''),
     (''prev_event_id'', JString (''4w'' @ replicate 41 (CHR ''A''))), (''prev_state_hash'', JString (''YA'' @ replicate 41 (CHR ''A''))),
     (''seq'', JNumber ''1''), (''sigs'', JObject [(''ae'', sigObject ''e'' sample_signature)]),
     (''stream_id'', JString ''s''), (''ts'', JNumber ''2''), (''type'', JString ''RETIREMENT''), (''v'', JNumber ''1'')]"

definition sample_entry :: "payload \<Rightarrow> bytes" where
  "sample_entry p = projr (canonicalJSON sample_float (JObject p))"

definition sample_item :: "nat \<Rightarrow> payload \<Rightarrow> string verifiedEvent" where
  "sample_item i p = verifiedOf (projr (eventFromPayload sample_events p)) i (sample_entry (AList.delete ''sigs'' p)) None"

definition sample_items :: "string verifiedEvent list" where
  "sample_items = [sample_item 0 sample_genesis_payload, sample_item 1 sample_end_payload]"

definition sample_noise :: "string verifiedEvent" where
  "sample_noise = (sample_item 2 sample_end_payload)\<lparr>veEvent := zeroLogEvent\<lparr>evType := LogEventRetirement\<rparr>, veSigned := ''x''\<rparr>"

definition readable :: "payload \<Rightarrow> bool" where
  "readable p = (jnorm sample_float (JObject p) = JObject p \<and> distinctKeys (JObject p) \<and> nesting (JObject p) \<le> 64
     \<and> validatePayloadJSON sample_float p = Inr () \<and> is_ok (canonicalJSON sample_float (JObject p))
     \<and> length (sample_entry p) \<le> maxEntrySize \<and> is_ok (canonicalJSON sample_float (JObject (AList.delete ''sigs'' p)))
     \<and> is_ok (eventFromPayload sample_events p) \<and> evDomain (peEvent (projr (eventFromPayload sample_events p))) = ''a.b''
     \<and> peValidationError (projr (eventFromPayload sample_events p)) = None
     \<and> (case requiredSignerRoles (evType (peEvent (projr (eventFromPayload sample_events p)))) of
          Inl _ \<Rightarrow> False | Inr roles \<Rightarrow> validateSignatureShape p roles True = Inr ())
     \<and> validateEmbeddedSignatureKids sample_jwk (peEvent (projr (eventFromPayload sample_events p))) = Inr ())"

lemma sample_readable: "readable sample_genesis_payload" "readable sample_end_payload"
  by code_simp+

lemma sample_lib [simp]: "elFloat sample_events = sample_float" "elKeys sample_events = sample_jwk"
  by (simp_all add: sample_events_def)

lemma ok_projr: "is_ok m \<Longrightarrow> m = Inr (projr m)"
  by (auto simp: is_ok_def split: sum.splits)

lemma readable_read:
  assumes "readable p"
  shows "payloadObjectFromEntry sample_float (sample_entry p) = Inr p"
  using assms ok_projr [of "canonicalJSON sample_float (JObject p)"]
  by (intro payload_read [OF sample_number_texts]) (simp_all only: readable_def sample_entry_def)

lemma readable_parse:
  assumes r: "readable p"
  shows "CanonicalFromEntry sample_float (sample_entry p) = Inr (sample_entry (AList.delete ''sigs'' p))"
    "parseEventFromEntry sample_events (sample_entry p) = Inr (projr (eventFromPayload sample_events p))"
proof -
  show "CanonicalFromEntry sample_float (sample_entry p) = Inr (sample_entry (AList.delete ''sigs'' p))"
  proof -
    from r obtain signed where "canonicalJSON sample_float (JObject (AList.delete ''sigs'' p)) = Inr signed"
      using ok_projr by (metis readable_def)
    then show ?thesis by (simp add: CanonicalFromEntry_def readable_read [OF r]) (simp add: sample_entry_def)
  qed
  let ?x = "projr (eventFromPayload sample_events p)"
  have e: "eventFromPayload sample_events p = Inr ?x" by (rule ok_projr) (use r in \<open>simp only: readable_def\<close>)
  from r have v: "peValidationError ?x = None" and k: "validateEmbeddedSignatureKids sample_jwk (peEvent ?x) = Inr ()"
    by (simp_all only: readable_def)
  from r obtain roles where "requiredSignerRoles (evType (peEvent ?x)) = Inr roles" "validateSignatureShape p roles True = Inr ()"
    by (auto simp only: readable_def split: sum.splits)
  moreover from e obtain x where "eventFromPayload sample_events p = Inr x" by blast
  ultimately show "parseEventFromEntry sample_events (sample_entry p) = Inr ?x"
    using v k by (simp add: parseEventFromEntry_def readable_read [OF r] errorsJoin_def errOf_def)
qed

lemma sample_item_read: "readable p \<Longrightarrow> readFrom sample_events (sample_entry p) (sample_item i p)"
  using readable_parse by (simp add: readFrom_def sample_item_def verifiedOf_def)

lemma sample_replays:
  "(case (verifyLifecycleVerifiedWithMigration sample_events (\<lambda>_. None) sample_items None '''',
          verifyLifecycleVerifiedWithMigration sample_events (\<lambda>_. None) (sample_items @ [hd sample_items]) None '''') of
      (Inr (out, _), Inr (out', _)) \<Rightarrow> length out = 2 \<and> EventID sample_events (veSigned (last out)) = EventID sample_events (veSigned (last out'))
    | _ \<Rightarrow> False)"
  by code_simp

lemma sample_ids: "distinct (map (EventID sample_events) (map veSigned (sample_noise # sample_items)))"
  by code_simp

lemma sample_ids_inj: "inj_on (EventID sample_events) (veSigned ` set (sample_noise # sample_items))"
  using sample_ids unfolding distinct_map set_map by blast

theorem replay_refines_stream_witness:
  "\<exists>out h. length out = 2 \<and> stream sample_events out h"
proof -
  from sample_replays obtain out prior where "verifyLifecycleVerifiedWithMigration sample_events (\<lambda>_. None) sample_items None '''' = Inr (out, prior)"
    "length out = 2" by (auto split: sum.splits)
  moreover have "\<forall>v \<in> set sample_items. veMigration v = None" by (simp add: sample_items_def sample_item_def verifiedOf_def)
  ultimately show ?thesis using replay_refines_stream by blast
qed

lemma sample_noise_noise: "noise sample_jwk sample_noise"
  by (auto simp: noise_def sample_noise_def candidateAuthorizedByCurrentHistory_def signedByKey_def zeroLogEvent_def split: option.splits)


theorem head_binds_history_witness:
  "\<exists>(out :: string verifiedEvent list) (out' :: string verifiedEvent list). length out = 2 \<and> map veSigned out = map veSigned out'
     \<and> (\<exists>prior. verifyLifecycleVerifiedWithMigration sample_events (\<lambda>_. None) (sample_items @ [hd sample_items]) None '''' = Inr (out', prior))"
proof -
  from sample_replays obtain out prior out' prior'
    where r: "verifyLifecycleVerifiedWithMigration sample_events (\<lambda>_. None) sample_items None '''' = Inr (out, prior)"
      "verifyLifecycleVerifiedWithMigration sample_events (\<lambda>_. None) (sample_items @ [hd sample_items]) None '''' = Inr (out', prior')"
      "length out = 2" "EventID sample_events (veSigned (last out)) = EventID sample_events (veSigned (last out'))"
    by (auto split: sum.splits)
  have all: "set sample_items \<union> set (sample_items @ [hd sample_items]) = set sample_items" by (auto simp: sample_items_def)
  have "\<forall>v \<in> set sample_items. \<exists>entry. readFrom sample_events entry v"
    using sample_item_read sample_readable by (auto simp: sample_items_def)
  moreover have "inj_on (EventID sample_events) (veSigned ` set sample_items)"
    by (rule inj_on_subset [OF sample_ids_inj]) auto
  ultimately have "map veSigned out = map veSigned out'"
    using head_binds_history [OF _ r(1,2) _ _ r(4)] sample_number_texts unfolding all by simp
  then show ?thesis using r(2,3) by - (intro exI [of _ out] exI [of _ out'] exI [of _ prior'] conjI; assumption)
qed

lemma sample_metadata:
  "validateEntryMetadata sample_events sample_ref (sample_entry sample_genesis_payload) = Inr ()"
  "validateEntryMetadata sample_events sample_ref (sample_entry sample_end_payload) = Inr ()"
proof -
  have "rbind (Origin (elParse sample_events) sample_ref) (\<lambda>origin.
     if stringOr p ''fqdn'' = refStreamID sample_ref
     then Inl (PlainError ''dnsid: stream ID must identify an identity instance'' None)
     else
       rbind (seqr (metadataCheck p)
                [(''method'', Method), (''log_origin'', origin), (''stream_id'', refStreamID sample_ref), (''lr'', reference_String sample_ref)])
         (\<lambda>_. Inr ())) = Inr ()" if "p = sample_genesis_payload \<or> p = sample_end_payload" for p
    using that by (elim disjE; hypsubst) code_simp+
  then show "validateEntryMetadata sample_events sample_ref (sample_entry sample_genesis_payload) = Inr ()"
    "validateEntryMetadata sample_events sample_ref (sample_entry sample_end_payload) = Inr ()"
    using readable_read sample_readable by (simp_all add: validateEntryMetadata_def)
qed

lemma sample_checkEntries:
  "checkEntries sample_events sample_ref 0 '''' [sample_entry sample_genesis_payload] = Inr [hd sample_items]"
  "checkEntries sample_events sample_ref 0 '''' [sample_entry sample_genesis_payload, sample_entry sample_end_payload] = Inr sample_items"
proof -
  have v: "peValidationError (projr (eventFromPayload sample_events sample_genesis_payload)) = None"
    "peValidationError (projr (eventFromPayload sample_events sample_end_payload)) = None"
    using sample_readable by (simp_all only: readable_def)
  have d: "evDomain (peEvent (projr (eventFromPayload sample_events sample_genesis_payload)))
      = evDomain (peEvent (projr (eventFromPayload sample_events sample_end_payload)))"
    using sample_readable by (simp only: readable_def)
  show "checkEntries sample_events sample_ref 0 '''' [sample_entry sample_genesis_payload] = Inr [hd sample_items]"
    "checkEntries sample_events sample_ref 0 '''' [sample_entry sample_genesis_payload, sample_entry sample_end_payload] = Inr sample_items"
    using v d sample_metadata readable_parse sample_readable
    by (simp_all add: sample_items_def sample_item_def)
qed

lemma sample_sizes:
  "validateHistorySize (map (\<lambda>(i, entry). \<lparr>pnIndex = i, pnEntry = entry, pnProof = []\<rparr>) (enumerate 0 ([] @ [sample_entry sample_genesis_payload]))) = Inr ()"
  "validateHistorySize (map (\<lambda>(i, entry). \<lparr>pnIndex = i, pnEntry = entry, pnProof = []\<rparr>)
     (enumerate 0 (([] @ [sample_entry sample_genesis_payload]) @ [sample_entry sample_end_payload]))) = Inr ()"
proof -
  have "length (sample_entry sample_genesis_payload) \<le> maxEntrySize" "length (sample_entry sample_end_payload) \<le> maxEntrySize"
    using sample_readable by (simp_all only: readable_def)
  then show
    "validateHistorySize (map (\<lambda>(i, entry). \<lparr>pnIndex = i, pnEntry = entry, pnProof = []\<rparr>) (enumerate 0 ([] @ [sample_entry sample_genesis_payload]))) = Inr ()"
    "validateHistorySize (map (\<lambda>(i, entry). \<lparr>pnIndex = i, pnEntry = entry, pnProof = []\<rparr>)
       (enumerate 0 (([] @ [sample_entry sample_genesis_payload]) @ [sample_entry sample_end_payload]))) = Inr ()"
    by (simp_all add: validateHistorySize_def)
qed

lemma sample_appends:
  "(case (verifyLifecycleVerifiedWithMigration sample_events (\<lambda>_. None) [hd sample_items] None (reference_String sample_ref),
          verifyLifecycleVerifiedWithMigration sample_events (\<lambda>_. None) sample_items None (reference_String sample_ref)) of
      (Inr (out, _), Inr (out', _)) \<Rightarrow> is_ok (afterReplay sample_events [] [hd sample_items] out)
         \<and> is_ok (afterReplay sample_events [[]] sample_items out')
    | _ \<Rightarrow> False)"
  by code_simp

lemma afterReplay_length: "length xs = length ys \<Longrightarrow> afterReplay E xs vs out = afterReplay E ys vs out"
  by (simp add: afterReplay_def)

theorem checked_appends_chain_witness:
  "\<exists>(head1 :: StreamHead) parsed. shSeq head1 = 0 \<and> parseEventFromEntry sample_events (sample_entry sample_end_payload) = Inr parsed
     \<and> cfSequence (peChain parsed) = Some 1 \<and> cfPreviousEventID (peChain parsed) = shEventID head1
     \<and> cfPreviousStateHash (peChain parsed) = lifecycleState_Hash sample_events (shState head1)"
proof -
  let ?g = "sample_entry sample_genesis_payload" and ?e = "sample_entry sample_end_payload"
  from sample_appends obtain out p out' p' head1 head2
    where "verifyLifecycleVerifiedWithMigration sample_events (\<lambda>_. None) [hd sample_items] None (reference_String sample_ref) = Inr (out, p)"
      "verifyLifecycleVerifiedWithMigration sample_events (\<lambda>_. None) sample_items None (reference_String sample_ref) = Inr (out', p')"
      "afterReplay sample_events [] [hd sample_items] out = Inr head1" "afterReplay sample_events [[]] sample_items out' = Inr head2"
    by (auto simp: is_ok_def split: sum.splits)
  then have "CheckAppend sample_events (\<lambda>_. None) None (Some sample_ref) [] ?g = Inr head1"
    "CheckAppend sample_events (\<lambda>_. None) None (Some sample_ref) ([] @ [?g]) ?e = Inr head2"
    using sample_sizes sample_checkEntries afterReplay_length [of "[?g]" "[[]]" sample_events sample_items out']
    unfolding CheckAppend_def by simp_all
  from checked_appends_chain [OF this] show ?thesis by - (rule exI [of _ head1], auto)
qed

end
