(* ===== verification/Merkle_Tree.thy ===== *)
theory Merkle_Tree
  imports Sdk_Errors
begin

text \<open>
  The Merkle trees of the \<open>c2sp-tlog\<close> binding: \<open>merkleRoot\<close> (\<open>checkpoint_store.go\<close>),
  \<open>hashTileRoot\<close> (\<open>hash_tiles.go\<close>), \<open>merkleLevels\<close> and the audit path that
  \<open>completeScan.provenEntry\<close> builds (\<open>scan_source.go\<close>), and \<open>verifyScanRoots\<close>.

  The hash functions are parameters, the record \<open>tlog_lib\<close>: \<open>sha256.Sum256\<close>, and
  \<open>RecordHash\<close> and \<open>NodeHash\<close> of the tlog package. Where a lemma says that a root fixes the
  entries below it, the assumption is that the hash function has no collision on the finite
  set of inputs that were hashed, never that it is injective on all inputs.
\<close>

section \<open>Definitions\<close>

record tlog_lib =
  Sum256 :: "bytes \<Rightarrow> bytes"
  RecordHash :: "bytes \<Rightarrow> bytes"
  NodeHash :: "bytes \<Rightarrow> bytes \<Rightarrow> bytes"

text \<open>
  The loop \<open>for split*2 < n { split *= 2 }\<close>, started at 1; a start of 0 never happens and
  would not end.
\<close>

function splitLoop :: "nat \<Rightarrow> nat \<Rightarrow> nat" where
  "splitLoop s n = (if 0 < s \<and> s * 2 < n then splitLoop (s * 2) n else s)"
  by pat_completeness auto
termination
  by (relation "measure (\<lambda>(s, n). n - s)") auto

declare splitLoop.simps [simp del]

lemma splitLoop_bounds: "0 < s \<Longrightarrow> s < n \<Longrightarrow> 0 < splitLoop s n \<and> splitLoop s n < n"
proof (induction s n rule: splitLoop.induct)
  case (1 s n)
  then show ?case by (subst (1 2) splitLoop.simps) auto
qed

lemma split_len:
  "xs \<noteq> [] \<Longrightarrow> length xs \<noteq> 1 \<Longrightarrow> 0 < splitLoop 1 (length xs) \<and> splitLoop 1 (length xs) < length xs"
  by (rule splitLoop_bounds) (cases xs, simp_all)+

text \<open>The interior node as \<open>merkleRoot\<close> and \<open>merkleLevels\<close> hash it: the byte 1, left, right.\<close>

definition shaNode :: "tlog_lib \<Rightarrow> bytes \<Rightarrow> bytes \<Rightarrow> bytes" where
  "shaNode H left right = Sum256 H (CHR 0x01 # left @ right)"

function merkleRoot :: "tlog_lib \<Rightarrow> bytes list \<Rightarrow> bytes" where
  "merkleRoot H entries =
     (if entries = [] then Sum256 H []
      else if length entries = 1 then RecordHash H (hd entries)
      else (let split = splitLoop 1 (length entries);
                left = merkleRoot H (take split entries);
                right = merkleRoot H (drop split entries)
            in shaNode H left right))"
  by pat_completeness auto
termination
  by (relation "measure (\<lambda>(H, es). length es)") (use split_len in \<open>force+\<close>)

text \<open>\<open>hashTileRoot\<close>, which is only called on a non-empty slice, over the library's node hash.\<close>

function hashTileRoot :: "('h \<Rightarrow> 'h \<Rightarrow> 'h) \<Rightarrow> 'h list \<Rightarrow> 'h" where
  "hashTileRoot node hashes =
     (if hashes = [] \<or> length hashes = 1 then hd hashes
      else (let split = splitLoop 1 (length hashes)
            in node (hashTileRoot node (take split hashes)) (hashTileRoot node (drop split hashes))))"
  by pat_completeness auto
termination
  by (relation "measure (\<lambda>(node, hs). length hs)") (use split_len in \<open>force+\<close>)

declare merkleRoot.simps [simp del] hashTileRoot.simps [simp del]

text \<open>One round of the loop of \<open>merkleLevels\<close>: neighbours are hashed, an odd last node moves up.\<close>

fun pairLevel :: "('h \<Rightarrow> 'h \<Rightarrow> 'h) \<Rightarrow> 'h list \<Rightarrow> 'h list" where
  "pairLevel node [] = []"
| "pairLevel node [x] = [x]"
| "pairLevel node (x # y # rest) = node x y # pairLevel node rest"

lemma length_pairLevel [simp]: "length (pairLevel node xs) = Suc (length xs) div 2"
  by (induction node xs rule: pairLevel.induct) auto

function levelsLoop :: "('h \<Rightarrow> 'h \<Rightarrow> 'h) \<Rightarrow> 'h list \<Rightarrow> 'h list list" where
  "levelsLoop node level =
     (if 1 < length level then level # levelsLoop node (pairLevel node level) else [level])"
  by pat_completeness auto
termination
  by (relation "measure (\<lambda>(node, xs). length xs)") auto

declare levelsLoop.simps [simp del]

definition merkleLevels :: "tlog_lib \<Rightarrow> bytes list \<Rightarrow> bytes list list" where
  "merkleLevels H entries =
     (if entries = [] then [[], [merkleRoot H []]]
      else levelsLoop (shaNode H) (map (RecordHash H) entries))"

text \<open>The sibling hashes \<open>provenEntry\<close> collects for an index, over all levels but the root.\<close>

fun pathLoop :: "'h list list \<Rightarrow> nat \<Rightarrow> 'h list" where
  "pathLoop [] position = []"
| "pathLoop (level # levels) position =
     (if position mod 2 = 1 then [level ! (position - 1)]
      else if position + 1 < length level then [level ! (position + 1)] else [])
     @ pathLoop levels (position div 2)"

definition provenHashes :: "bytes list list \<Rightarrow> nat \<Rightarrow> bytes list" where
  "provenHashes levels index = pathLoop (take (length levels - 1) levels) index"

record TrustedC2spCheckpoint =
  cpOrigin :: string
  cpTreeSize :: nat
  cpRootHash :: bytes
  cpWitnessTime :: gotime

definition checkpointAdvanceError ::
  "CheckpointAdvanceErrorKind \<Rightarrow> TrustedC2spCheckpoint \<Rightarrow> TrustedC2spCheckpoint \<Rightarrow> sdk_error option \<Rightarrow> sdk_error" where
  "checkpointAdvanceError kind old next cause =
     CheckpointAdvanceError kind (cpOrigin next) (cpTreeSize old) (cpTreeSize next)
       (cpRootHash old) (cpRootHash next) (kind = AdvanceRootConflict) cause"

definition verifyScanRoots ::
  "tlog_lib \<Rightarrow> bytes list \<Rightarrow> TrustedC2spCheckpoint \<Rightarrow> TrustedC2spCheckpoint \<Rightarrow> sdk_error + unit" where
  "verifyScanRoots H entries old next =
     (if length entries \<noteq> cpTreeSize next then
        Inl (NewVerificationError InvalidEvidence False ''dnsid: incomplete candidate checkpoint scan''
               (Some (PlainError ''complete scan returned a different number of entries'' None)))
      else if merkleRoot H entries \<noteq> cpRootHash next then
        Inl (NewVerificationError InvalidEvidence False
               ''dnsid: complete scan does not match candidate checkpoint root'' None)
      else if merkleRoot H (take (cpTreeSize old) entries) \<noteq> cpRootHash old then
        Inl (checkpointAdvanceError AdvanceConsistencyFailed old next
               (Some (PlainError ''complete scan contradicts trusted prefix root'' None)))
      else Inr ())"

section \<open>Reference definitions\<close>

text \<open>
  The tree of RFC 6962 over a list of leaf hashes is \<open>hashTileRoot\<close>. Its node inputs, the
  audit path of a leaf, and the root an audit path leads to, each by the split of the RFC.
\<close>

function node_inputs :: "('h \<Rightarrow> 'h \<Rightarrow> 'h) \<Rightarrow> 'h list \<Rightarrow> ('h \<times> 'h) list" where
  "node_inputs node hs =
     (if hs = [] \<or> length hs = 1 then []
      else (let k = splitLoop 1 (length hs)
            in (hashTileRoot node (take k hs), hashTileRoot node (drop k hs))
               # node_inputs node (take k hs) @ node_inputs node (drop k hs)))"
  by pat_completeness auto
termination
  by (relation "measure (\<lambda>(node, hs). length hs)") (use split_len in \<open>force+\<close>)

function audit_path :: "('h \<Rightarrow> 'h \<Rightarrow> 'h) \<Rightarrow> nat \<Rightarrow> 'h list \<Rightarrow> 'h list" where
  "audit_path node m hs =
     (if hs = [] \<or> length hs = 1 then []
      else (let k = splitLoop 1 (length hs)
            in if m < k then audit_path node m (take k hs) @ [hashTileRoot node (drop k hs)]
               else audit_path node (m - k) (drop k hs) @ [hashTileRoot node (take k hs)]))"
  by pat_completeness auto
termination
  by (relation "measure (\<lambda>(node, m, hs). length hs)") (use split_len in \<open>force+\<close>)

text \<open>The root for leaf \<open>h\<close> at index \<open>m\<close> of a tree of size \<open>n\<close>, with the node inputs it hashed.\<close>

function path_root :: "('h \<Rightarrow> 'h \<Rightarrow> 'h) \<Rightarrow> nat \<Rightarrow> nat \<Rightarrow> 'h \<Rightarrow> 'h list \<Rightarrow> ('h \<times> ('h \<times> 'h) list) option" where
  "path_root node n m h path =
     (if n \<le> 1 then (if path = [] then Some (h, []) else None)
      else if path = [] then None
      else (let k = splitLoop 1 n
            in if m < k
               then (case path_root node k m h (butlast path) of
                       None \<Rightarrow> None
                     | Some (l, ins) \<Rightarrow> Some (node l (last path), (l, last path) # ins))
               else (case path_root node (n - k) (m - k) h (butlast path) of
                       None \<Rightarrow> None
                     | Some (r, ins) \<Rightarrow> Some (node (last path) r, (last path, r) # ins))))"
  by pat_completeness auto
termination
  by (relation "measure (\<lambda>(node, n, m, h, path). length path)") auto

declare node_inputs.simps [simp del] audit_path.simps [simp del] path_root.simps [simp del]

fun chunks :: "nat \<Rightarrow> 'h list \<Rightarrow> 'h list list" where
  "chunks c [] = []"
| "chunks c (x # xs) = take (Suc c) (x # xs) # chunks c (drop c xs)"

definition halves :: "'h list \<Rightarrow> 'h list \<Rightarrow> bool" where
  "halves A B \<longleftrightarrow> A \<noteq> [] \<and> B \<noteq> [] \<and> splitLoop 1 (length A + length B) = length A"

definition sibling :: "nat \<Rightarrow> 'h list \<Rightarrow> 'h list" where
  "sibling m xs = (if m mod 2 = 1 then [xs ! (m - 1)]
     else if m + 1 < length xs then [xs ! (m + 1)] else [])"

definition sample_hashes :: tlog_lib where
  "sample_hashes = \<lparr>Sum256 = (\<lambda>b. CHR ''s'' # b), RecordHash = (\<lambda>b. CHR 0x00 # b),
     NodeHash = (\<lambda>l r. CHR ''s'' # CHR 0x01 # l @ r)\<rparr>"

definition sample_entries :: "bytes list" where
  "sample_entries = [''a'', ''b'', ''c'']"

section \<open>Lemmas\<close>

lemma splitLoop_pow:
  "s = 2 ^ i \<Longrightarrow> s < n \<Longrightarrow> \<exists>j. splitLoop s n = 2 ^ j \<and> 2 ^ j < n \<and> n \<le> 2 ^ Suc j"
proof (induction s n arbitrary: i rule: splitLoop.induct)
  case (1 s n)
  show ?case
  proof (cases "s * 2 < n")
    case True
    with 1 have "\<exists>j. splitLoop (s * 2) n = 2 ^ j \<and> 2 ^ j < n \<and> n \<le> 2 ^ Suc j"
      by (intro "1.IH" [of "Suc i"]) auto
    moreover have "splitLoop s n = splitLoop (s * 2) n"
      using True 1(2) by (subst splitLoop.simps) simp
    ultimately show ?thesis by simp
  next
    case False
    then have "splitLoop s n = s" by (subst splitLoop.simps) simp
    with False 1(2,3) show ?thesis by (intro exI [of _ i]) simp
  qed
qed

lemma split_pow:
  assumes "2 \<le> n"
  obtains j where "splitLoop 1 n = 2 ^ j" "2 ^ j < n" "n \<le> 2 ^ Suc j"
  using splitLoop_pow [of 1 0 n] assms by auto

lemma split_eqI:
  assumes "2 ^ j < n" and "n \<le> 2 ^ Suc j"
  shows "splitLoop 1 n = 2 ^ j"
proof -
  have "1 \<le> (2::nat) ^ j" by simp
  with assms(1) have "2 \<le> n" by linarith
  then obtain i where i: "splitLoop 1 n = 2 ^ i" "2 ^ i < n" "n \<le> 2 ^ Suc i" by (rule split_pow)
  have "(2::nat) ^ i < 2 ^ Suc j" "(2::nat) ^ j < 2 ^ Suc i" using assms i by linarith+
  then have "i < Suc j" "j < Suc i" by (simp_all only: power_strict_increasing_iff one_less_numeral_iff semiring_norm)
  with i(1) show ?thesis by simp
qed

lemma hashTileRoot_single [simp]: "hashTileRoot node [x] = x"
  by (simp add: hashTileRoot.simps)

lemma hashTileRoot_append:
  assumes "splitLoop 1 (length xs + length ys) = length xs" and "xs \<noteq> []" and "ys \<noteq> []"
  shows "hashTileRoot node (xs @ ys) = node (hashTileRoot node xs) (hashTileRoot node ys)"
  using assms by (subst hashTileRoot.simps) (auto simp: Let_def neq_Nil_conv)

subsection \<open>Chunks of a power of two\<close>

lemma chunks_def': "chunks c xs = (if xs = [] then [] else take (Suc c) xs # chunks c (drop (Suc c) xs))"
  by (cases xs) auto

lemma chunks_append:
  "Suc c dvd length xs \<Longrightarrow> chunks c (xs @ ys) = chunks c xs @ chunks c ys"
proof (induction c xs rule: chunks.induct)
  case (2 c x xs)
  then have "Suc c \<le> Suc (length xs)" by (intro dvd_imp_le) auto
  then have l: "c \<le> length xs" by simp
  have "Suc (length xs) = Suc c + (length xs - c)" using l by simp
  with "2.prems" have "Suc c dvd length (drop c xs)"
    by (metis dvd_add_right_iff dvd_refl length_Cons length_drop)
  with 2 l show ?case by simp
qed simp

lemma length_chunks: "length (chunks c xs) = (length xs + c) div Suc c"
proof (induction c xs rule: chunks.induct)
  case (2 c x xs)
  have "(Suc (length xs) + c) div Suc c = Suc (length xs div Suc c)"
    by (metis add_Suc add_Suc_shift div_add_self2 nat.distinct(1) Suc_eq_plus1 add.commute plus_1_eq_Suc)
  moreover have "(length xs - c + c) div Suc c = length xs div Suc c"
    by (cases "c \<le> length xs") auto
  ultimately show ?case using 2 by simp
qed simp

lemma hashTileRoot_chunks:
  assumes "xs \<noteq> []" and c: "Suc c = 2 ^ p"
  shows "hashTileRoot node (map (hashTileRoot node) (chunks c xs)) = hashTileRoot node xs"
  using assms(1)
proof (induction xs rule: measure_induct_rule [of length])
  case (less xs)
  show ?case
  proof (cases "length xs \<le> Suc c")
    case True
    then show ?thesis using less.prems by (simp add: chunks_def' [of c xs])
  next
    case False
    let ?n = "length xs"
    have "2 \<le> ?n" using False by simp
    then obtain j where j: "splitLoop 1 ?n = 2 ^ j" "2 ^ j < ?n" "?n \<le> 2 ^ Suc j" by (rule split_pow)
    define A B where AB: "A = take (2 ^ j) xs" "B = drop (2 ^ j) xs"
    have xs: "xs = A @ B" and lA: "length A = 2 ^ j" and lB: "length B = ?n - 2 ^ j"
      using j(2) by (simp_all add: AB)
    have "(2::nat) ^ p < 2 ^ Suc j" using False j(3) c by linarith
    then have pj: "p \<le> j" by (simp only: power_strict_increasing_iff one_less_numeral_iff semiring_norm less_Suc_eq_le)
    have dv: "Suc c dvd length A" using pj by (simp add: c lA le_imp_power_dvd)
    have ne: "A \<noteq> []" "B \<noteq> []" using lA lB j(2) by auto
    have lcA: "length (chunks c A) = 2 ^ (j - p)"
    proof -
      from pj have "length A = 2 ^ (j - p) * Suc c" by (simp add: lA c power_add [symmetric])
      moreover have "(m * Suc c + c) div Suc c = m" for m by (simp add: div_mult_self3 del: mult_Suc_right)
      ultimately show ?thesis by (simp only: length_chunks)
    qed
    have lcB: "1 \<le> length (chunks c B)" "length (chunks c B) \<le> 2 ^ (j - p)"
    proof -
      show "1 \<le> length (chunks c B)" using ne by (cases B) auto
      have "length B \<le> 2 ^ (j - p) * Suc c" using j(3) pj by (simp add: lB c power_add [symmetric])
      then have "(length B + c) div Suc c \<le> (2 ^ (j - p) * Suc c + c) div Suc c" by (intro div_le_mono) simp
      moreover have "(m * Suc c + c) div Suc c = m" for m by (simp add: div_mult_self3 del: mult_Suc_right)
      ultimately show "length (chunks c B) \<le> 2 ^ (j - p)" by (simp only: length_chunks)
    qed
    have sp: "splitLoop 1 (length (chunks c A) + length (chunks c B)) = length (chunks c A)"
      using lcA lcB by (intro split_eqI [of "j - p", folded lcA]) auto
    have "hashTileRoot node (map (hashTileRoot node) (chunks c xs))
        = node (hashTileRoot node (map (hashTileRoot node) (chunks c A)))
               (hashTileRoot node (map (hashTileRoot node) (chunks c B)))"
      using sp ne unfolding xs chunks_append [OF dv] map_append
      by (intro hashTileRoot_append) (auto simp: neq_Nil_conv)
    also have "\<dots> = node (hashTileRoot node A) (hashTileRoot node B)"
    proof -
      have "length A < ?n" "length B < ?n" using ne unfolding xs by simp_all
      with less.IH ne show ?thesis by simp
    qed
    also have "\<dots> = hashTileRoot node xs"
      unfolding xs by (rule hashTileRoot_append [symmetric]) (use ne j xs lA in simp_all)
    finally show ?thesis .
  qed
qed

lemma pairLevel_chunks: "pairLevel node xs = map (hashTileRoot node) (chunks 1 xs)"
proof (induction node xs rule: pairLevel.induct)
  case (3 node x y rest)
  have "hashTileRoot node [x, y] = node x y"
    using hashTileRoot_append [of "[x]" "[y]" node] split_eqI [of 0 2] by (simp add: numeral_2_eq_2)
  with 3 show ?case by simp
qed simp_all

lemma hashTileRoot_pairLevel:
  "xs \<noteq> [] \<Longrightarrow> hashTileRoot node (pairLevel node xs) = hashTileRoot node xs"
  unfolding pairLevel_chunks by (rule hashTileRoot_chunks [where p = 1]) simp_all

lemma pairLevel_Nil [simp]: "pairLevel node xs = [] \<longleftrightarrow> xs = []"
  by (induction node xs rule: pairLevel.induct) auto

lemma levelsLoop_last:
  "xs \<noteq> [] \<Longrightarrow> levelsLoop node xs \<noteq> [] \<and> last (levelsLoop node xs) = [hashTileRoot node xs]"
proof (induction node xs rule: levelsLoop.induct)
  case (1 node xs)
  show ?case
  proof (cases "1 < length xs")
    case True
    with 1 show ?thesis by (simp add: levelsLoop.simps [of node xs] hashTileRoot_pairLevel)
  next
    case False
    with 1 obtain x where "xs = [x]" by (cases xs) auto
    then show ?thesis by (simp add: levelsLoop.simps)
  qed
qed

lemma merkleRoot_hashTileRoot:
  "entries \<noteq> [] \<Longrightarrow> merkleRoot H entries = hashTileRoot (shaNode H) (map (RecordHash H) entries)"
proof (induction H entries rule: merkleRoot.induct)
  case (1 H entries)
  show ?case
  proof (cases "length entries = 1")
    case True
    then obtain x where "entries = [x]" by (cases entries) auto
    then show ?thesis by (simp add: merkleRoot.simps)
  next
    case False
    let ?k = "splitLoop 1 (length entries)"
    have b: "0 < ?k" "?k < length entries" using split_len [OF 1(3) False] by auto
    then show ?thesis
      using 1 False by (simp add: merkleRoot.simps [of H entries] Let_def take_map drop_map
          hashTileRoot.simps [of "shaNode H" "map (RecordHash H) entries"])
  qed
qed

lemma merkleLevels_last:
  "last (merkleLevels H entries) = [merkleRoot H entries]"
  using levelsLoop_last [of "map (RecordHash H) entries" "shaNode H"]
  by (cases "entries = []") (simp_all add: merkleLevels_def merkleRoot_hashTileRoot)

subsection \<open>Induction over the tree\<close>

lemma halves_length:
  assumes "halves A B"
  shows "2 \<le> length A + length B" "0 < length A" "0 < length B" "A \<noteq> []" "B \<noteq> []"
    "splitLoop 1 (length A + length B) = length A" "\<not> length A + length B \<le> Suc 0"
    "length A + length B \<noteq> Suc 0"
  using assms by (cases A; cases B; simp add: halves_def)+

lemma halves_exist:
  assumes "xs \<noteq> []" and "length xs \<noteq> 1"
  obtains A B where "xs = A @ B" and "halves A B"
proof
  let ?k = "splitLoop 1 (length xs)"
  show "xs = take ?k xs @ drop ?k xs" by simp
  show "halves (take ?k xs) (drop ?k xs)" using split_len [OF assms] assms by (auto simp: halves_def)
qed

lemma tree_induct [consumes 1, case_names leaf node]:
  assumes "xs \<noteq> []" and leaf: "\<And>x. P [x]"
    and node: "\<And>A B. halves A B \<Longrightarrow> P A \<Longrightarrow> P B \<Longrightarrow> P (A @ B)"
  shows "P xs"
  using assms(1)
proof (induction xs rule: measure_induct_rule [of length])
  case (less xs)
  show ?case
  proof (cases "length xs = 1")
    case True
    then obtain x where "xs = [x]" by (cases xs) auto
    with leaf show ?thesis by simp
  next
    case False
    then obtain A B where "xs = A @ B" "halves A B" using halves_exist less.prems by blast
    then show ?thesis using less.IH node by (auto simp: halves_def)
  qed
qed

lemma root_halves:
  "halves A B \<Longrightarrow> hashTileRoot node (A @ B) = node (hashTileRoot node A) (hashTileRoot node B)"
  by (rule hashTileRoot_append) (simp_all add: halves_def)

lemma inputs_halves:
  assumes "halves A B"
  shows "node_inputs node (A @ B) = (hashTileRoot node A, hashTileRoot node B) # node_inputs node A @ node_inputs node B"
  using halves_length [OF assms] by (subst node_inputs.simps) (auto simp: Let_def)

lemma node_inputs_single [simp]: "node_inputs node [x] = []"
  by (simp add: node_inputs.simps)

lemma audit_path_single [simp]: "audit_path node m [x] = []"
  by (simp add: audit_path.simps)

lemma audit_halves:
  assumes "halves A B"
  shows "m < length A \<Longrightarrow> audit_path node m (A @ B) = audit_path node m A @ [hashTileRoot node B]"
    and "\<not> m < length A \<Longrightarrow> audit_path node m (A @ B) = audit_path node (m - length A) B @ [hashTileRoot node A]"
  using halves_length [OF assms] by (subst audit_path.simps, auto simp: Let_def)+

lemma path_root_single: "path_root node (Suc 0) m h path = (if path = [] then Some (h, []) else None)"
  by (simp add: path_root.simps)

lemma path_root_halves:
  assumes "halves A B"
  shows "m < length A \<Longrightarrow> path_root node (length A + length B) m h path = Some (r, ins) \<longleftrightarrow>
      path \<noteq> [] \<and> (\<exists>l ins'. path_root node (length A) m h (butlast path) = Some (l, ins') \<and>
         r = node l (last path) \<and> ins = (l, last path) # ins')"
    and "\<not> m < length A \<Longrightarrow> path_root node (length A + length B) m h path = Some (r, ins) \<longleftrightarrow>
      path \<noteq> [] \<and> (\<exists>l ins'. path_root node (length B) (m - length A) h (butlast path) = Some (l, ins') \<and>
         r = node (last path) l \<and> ins = (last path, l) # ins')"
  using halves_length [OF assms]
  by (auto simp: path_root.simps [of node "length A + length B" m h path] Let_def
      split: option.splits if_splits)

subsection \<open>A root fixes its leaves\<close>

abbreviation node_inj :: "('h \<Rightarrow> 'h \<Rightarrow> 'h) \<Rightarrow> ('h \<times> 'h) set \<Rightarrow> bool" where
  "node_inj node S \<equiv> inj_on (\<lambda>(l, r). node l r) S"

lemma node_injD: "node_inj node S \<Longrightarrow> node a b = node c d \<Longrightarrow> (a, b) \<in> S \<Longrightarrow> (c, d) \<in> S \<Longrightarrow> a = c \<and> b = d"
  by (auto simp: inj_on_def)

lemma hashTileRoot_inj:
  assumes "xs \<noteq> []" and "length xs = length ys" and "hashTileRoot node xs = hashTileRoot node ys"
    and "node_inj node (set (node_inputs node xs) \<union> set (node_inputs node ys))"
  shows "xs = ys"
  using assms
proof (induction xs arbitrary: ys rule: tree_induct)
  case (leaf x)
  then show ?case by (cases ys) auto
next
  case (node A B)
  define C D where "C = take (length A) ys" and "D = drop (length A) ys"
  have ys: "ys = C @ D" and l: "length C = length A" "length D = length B"
    using node.prems(1) by (simp_all add: C_def D_def)
  then have CD: "halves C D" using node.hyps by (auto simp: halves_def)
  note u = root_halves [OF node.hyps, of node] root_halves [OF CD, of node]
    inputs_halves [OF node.hyps, of node] inputs_halves [OF CD, of node]
  have "hashTileRoot node A = hashTileRoot node C \<and> hashTileRoot node B = hashTileRoot node D"
    using node.prems(2) by (intro node_injD [OF node.prems(3)]) (simp_all add: ys u)
  moreover have "node_inj node (set (node_inputs node A) \<union> set (node_inputs node C))"
    "node_inj node (set (node_inputs node B) \<union> set (node_inputs node D))"
    by (rule inj_on_subset [OF node.prems(3)], auto simp: ys u)+
  ultimately have "A = C" "B = D" using node.IH l by simp_all
  then show ?case by (simp add: ys)
qed

subsection \<open>Audit paths\<close>

lemma path_root_audit_path:
  assumes "m < length xs"
  shows "\<exists>ins. path_root node (length xs) m (xs ! m) (audit_path node m xs) = Some (hashTileRoot node xs, ins)
     \<and> set ins \<subseteq> set (node_inputs node xs)"
proof -
  have "xs \<noteq> []" using assms by auto
  then show ?thesis using assms
  proof (induction xs arbitrary: m rule: tree_induct)
    case (leaf x)
    then show ?case by (simp add: path_root_single)
  next
    case (node A B)
    note u = root_halves [OF node.hyps, of node] inputs_halves [OF node.hyps, of node]
    show ?case
    proof (cases "m < length A")
      case True
      from node.IH(1) [OF True] show ?thesis
        using True by (force simp: u audit_halves [OF node.hyps] path_root_halves [OF node.hyps] nth_append)
    next
      case False
      then have "m - length A < length B" using node.prems by simp
      from node.IH(2) [OF this] show ?thesis
        using False by (force simp: u audit_halves [OF node.hyps] path_root_halves [OF node.hyps] nth_append)
    qed
  qed
qed

lemma path_root_binding:
  assumes "m < length xs" and "path_root node (length xs) m h path = Some (hashTileRoot node xs, ins)"
    and "node_inj node (set ins \<union> set (node_inputs node xs))"
  shows "h = xs ! m"
proof -
  have "xs \<noteq> []" using assms(1) by auto
  then show ?thesis using assms
  proof (induction xs arbitrary: m path ins rule: tree_induct)
    case (leaf x)
    then show ?case by (simp add: path_root_single split: if_splits)
  next
    case (node A B)
    note u = root_halves [OF node.hyps, of node] inputs_halves [OF node.hyps, of node]
    show ?case
    proof (cases "m < length A")
      case True
      with node.prems(2) obtain l ins' where l: "path_root node (length A) m h (butlast path) = Some (l, ins')"
        and r: "node (hashTileRoot node A) (hashTileRoot node B) = node l (last path)" and i: "ins = (l, last path) # ins'"
        by (auto simp: path_root_halves [OF node.hyps] u)
      have "hashTileRoot node A = l \<and> hashTileRoot node B = last path"
        by (rule node_injD [OF node.prems(3) r]) (simp_all add: u i)
      with l have "h = A ! m"
        by (intro node.IH(1) [OF True, where path = "butlast path" and ins = ins'])
          (simp, rule inj_on_subset [OF node.prems(3)], auto simp: u i)
      with True show ?thesis by (simp add: nth_append)
    next
      case False
      with node.prems(2) obtain l ins' where l: "path_root node (length B) (m - length A) h (butlast path) = Some (l, ins')"
        and r: "node (hashTileRoot node A) (hashTileRoot node B) = node (last path) l" and i: "ins = (last path, l) # ins'"
        by (auto simp: path_root_halves [OF node.hyps] u)
      have "hashTileRoot node A = last path \<and> hashTileRoot node B = l"
        by (rule node_injD [OF node.prems(3) r]) (simp_all add: u i)
      with l have "h = B ! (m - length A)"
        using False node.prems(1) by (intro node.IH(2) [where path = "butlast path" and ins = ins'])
          (simp, simp, rule inj_on_subset [OF node.prems(3)], auto simp: u i)
      with False show ?thesis by (simp add: nth_append)
    qed
  qed
qed

subsection \<open>The path read off the levels\<close>

lemma halves_pow:
  assumes "halves A B"
  obtains j where "length A = 2 ^ j" and "length B \<le> 2 ^ j"
proof -
  note h = halves_length [OF assms]
  from h(1) obtain j where j: "splitLoop 1 (length A + length B) = 2 ^ j" "length A + length B \<le> 2 ^ Suc j"
    by (rule split_pow)
  then show thesis using h(6) by (intro that [of j]) simp_all
qed

lemma halves_powI: "length A = 2 ^ j \<Longrightarrow> length B \<le> 2 ^ j \<Longrightarrow> B \<noteq> [] \<Longrightarrow> halves A B"
  using split_eqI [of j "length A + length B"] by (auto simp: halves_def)

lemma pairLevel_append: "even (length xs) \<Longrightarrow> pairLevel node (xs @ ys) = pairLevel node xs @ pairLevel node ys"
  by (induction node xs rule: pairLevel.induct) auto

lemma halves_pairLevel:
  assumes "halves A B" and "length A \<noteq> 1"
  shows "halves (pairLevel node A) (pairLevel node B)" and "even (length A)" and "2 \<le> length A"
proof -
  from assms(1) obtain j where j: "length A = 2 ^ j" "length B \<le> 2 ^ j" by (rule halves_pow)
  with assms(2) obtain i where i: "j = Suc i" by (cases j) auto
  show "halves (pairLevel node A) (pairLevel node B)"
    using j halves_length [OF assms(1)] by (intro halves_powI [of _ i]) (auto simp: i)
  show "even (length A)" by (simp add: j i)
  show "2 \<le> length A" by (simp add: j i)
qed

lemma sibling_append_left:
  assumes "even (length A)" and "m < length A"
  shows "sibling m (A @ B) = sibling m A"
proof (cases "m mod 2 = 1")
  case True
  have "m - 1 < length A" using assms(2) by linarith
  with True show ?thesis by (simp add: sibling_def nth_append)
next
  case False
  then have "even m" by presburger
  with assms have "m + 1 < length A" by presburger
  with False show ?thesis by (simp add: sibling_def nth_append)
qed

lemma sibling_append_right':
  assumes "even (length A)"
  shows "sibling (length A + d) (A @ B) = sibling d B"
proof -
  have "(length A + d) mod 2 = d mod 2" using assms by (simp add: mod_add_left_eq [symmetric] even_iff_mod_2_eq_zero)
  moreover have "length A + d - 1 = length A + (d - 1)" if "d mod 2 = 1" using that by (cases d) auto
  ultimately show ?thesis by (auto simp: sibling_def nth_append)
qed

lemma sibling_append_right:
  "even (length A) \<Longrightarrow> length A \<le> m \<Longrightarrow> sibling m (A @ B) = sibling (m - length A) B"
  using sibling_append_right' [of A "m - length A" B] by simp

lemma audit_path_pairLevel:
  assumes "2 \<le> length xs" and "m < length xs"
  shows "audit_path node m xs = sibling m xs @ audit_path node (m div 2) (pairLevel node xs)"
proof -
  have "xs \<noteq> []" using assms by auto
  then show ?thesis using assms
  proof (induction xs arbitrary: m rule: tree_induct)
    case (node A B)
    show ?case
    proof (cases "length A = 1")
      case True
      from node.hyps obtain j where "length A = 2 ^ j" "length B \<le> 2 ^ j" by (rule halves_pow)
      with True halves_length(3) [OF node.hyps] obtain a b where ab: "A = [a]" "B = [b]"
        by (cases A; cases B) auto
      have "m = 0 \<or> m = 1" using node.prems(2) ab by auto
      with audit_halves [OF node.hyps, of m node] show ?thesis by (auto simp: ab sibling_def)
    next
      case False
      note h = halves_pairLevel [OF node.hyps False]
      have pl: "pairLevel node (A @ B) = pairLevel node A @ pairLevel node B"
        using h(2) by (rule pairLevel_append)
      have len: "length (pairLevel node A) = length A div 2" using h(2) by simp
      have rB: "hashTileRoot node (pairLevel node B) = hashTileRoot node B"
        and rA: "hashTileRoot node (pairLevel node A) = hashTileRoot node A"
        using halves_length [OF node.hyps] by (simp_all add: hashTileRoot_pairLevel)
      show ?thesis
      proof (cases "m < length A")
        case True
        then have "m div 2 < length (pairLevel node A)" using h(2) len by (auto elim: evenE)
        with True node.IH(1) [OF h(3) True] h show ?thesis
          by (simp add: pl audit_halves [OF node.hyps] audit_halves [OF h(1) [of node]] rB sibling_append_left)
      next
        case m: False
        then have m2: "\<not> m div 2 < length (pairLevel node A)" "m div 2 - length (pairLevel node A) = (m - length A) div 2"
          using h(2) len by (auto elim: evenE)
        have "audit_path node (m - length A) B
            = sibling (m - length A) B @ audit_path node ((m - length A) div 2) (pairLevel node B)"
        proof (cases "2 \<le> length B")
          case True
          then show ?thesis using m node.prems(2) by (intro node.IH(2)) auto
        next
          case False
          then have "length B = 1" using halves_length(3) [OF node.hyps] by linarith
          then obtain b where "B = [b]" by (cases B) auto
          moreover have "m - length A = 0" using node.prems(2) \<open>B = [b]\<close> by simp
          ultimately show ?thesis by (simp add: sibling_def)
        qed
        with m m2 h show ?thesis
          by (simp add: pl audit_halves [OF node.hyps] audit_halves [OF h(1) [of node]] rA sibling_append_right)
      qed
    qed
  qed simp
qed

lemma pathLoop_levels:
  "m < length xs \<Longrightarrow> pathLoop (butlast (levelsLoop node xs)) m = audit_path node m xs"
proof (induction node xs arbitrary: m rule: levelsLoop.induct)
  case (1 node xs)
  show ?case
  proof (cases "1 < length xs")
    case True
    have ne: "levelsLoop node (pairLevel node xs) \<noteq> []"
      using levelsLoop_last [of "pairLevel node xs" node] True by fastforce
    have "m div 2 < length (pairLevel node xs)" using 1(2) by auto
    with 1(1) [OF True] True 1(2) ne show ?thesis
      by (simp add: levelsLoop.simps [of node xs] audit_path_pairLevel sibling_def)
  next
    case False
    with 1(2) obtain x where "xs = [x]" by (cases xs) auto
    then show ?thesis by (simp add: levelsLoop.simps)
  qed
qed

lemma provenHashes_audit_path:
  assumes "i < length entries"
  shows "provenHashes (merkleLevels H entries) i = audit_path (shaNode H) i (map (RecordHash H) entries)"
proof -
  from assms have "entries \<noteq> []" by auto
  with assms pathLoop_levels [of i "map (RecordHash H) entries" "shaNode H"] show ?thesis
    by (simp add: provenHashes_def merkleLevels_def butlast_conv_take)
qed

section \<open>Properties\<close>

text \<open>
  C22. The bottom-up levels of a scan end in the recursive RFC 6962 root: \<open>merkleLevels\<close>,
  which moves an odd last node up, and \<open>merkleRoot\<close>, which splits at the largest power of
  two, give the same root hash for every list of entries.
\<close>

theorem merkle_levels_root:
  "last (merkleLevels H entries) = [merkleRoot H entries]"
  by (rule merkleLevels_last)

text \<open>
  C26. The inclusion proof that \<open>provenEntry\<close> reads off the levels of a scan is the RFC 6962
  audit path of the entry: run from the entry's leaf hash at its index it leads to the
  Merkle root of the scanned entries, for every index of the tree.
\<close>

theorem proven_entry_path_complete:
  assumes "i < length entries"
  shows "\<exists>ins. path_root (shaNode H) (length entries) i (RecordHash H (entries ! i))
           (provenHashes (merkleLevels H entries) i) = Some (merkleRoot H entries, ins)"
proof -
  from assms have "entries \<noteq> []" by auto
  with assms path_root_audit_path [of i "map (RecordHash H) entries" "shaNode H"] show ?thesis
    by (auto simp: provenHashes_audit_path merkleRoot_hashTileRoot)
qed


text \<open>
  C13. A checkpoint advance that \<open>verifyScanRoots\<close> accepts is append-only: whatever entries
  the trusted root was computed from are a prefix of the scanned entries, unless two
  different inputs hashed for the two trees collide.
\<close>

theorem scan_roots_append_only:
  assumes "verifyScanRoots H entries old next = Inr ()"
    and "length trusted = cpTreeSize old" and "merkleRoot H trusted = cpRootHash old"
    and "0 < cpTreeSize old" and "cpTreeSize old \<le> cpTreeSize next"
    and "inj_on (\<lambda>(l, r). shaNode H l r)
           (set (node_inputs (shaNode H) (map (RecordHash H) trusted))
            \<union> set (node_inputs (shaNode H) (map (RecordHash H) (take (cpTreeSize old) entries))))"
    and "inj_on (RecordHash H) (set trusted \<union> set entries)"
  shows "\<exists>appended. entries = trusted @ appended \<and> length entries = cpTreeSize next
           \<and> merkleRoot H entries = cpRootHash next"
proof -
  let ?p = "take (cpTreeSize old) entries"
  from assms(1) have l: "length entries = cpTreeSize next" and n: "merkleRoot H entries = cpRootHash next"
    and o: "merkleRoot H ?p = cpRootHash old"
    by (simp_all add: verifyScanRoots_def split: if_splits)
  have ne: "trusted \<noteq> []" "?p \<noteq> []" using assms(2,4,5) l by auto
  have "map (RecordHash H) trusted = map (RecordHash H) ?p"
    using assms(2,3,5,6) o l ne
    by (intro hashTileRoot_inj [where node = "shaNode H"]) (simp_all add: merkleRoot_hashTileRoot [symmetric])
  then have "trusted = ?p"
    by (rule map_inj_on) (rule inj_on_subset [OF assms(7)], auto dest: in_set_takeD)
  then show ?thesis using l n by (metis append_take_drop_id)
qed

subsection \<open>Witnesses\<close>

lemma sample_record_inj: "inj_on (RecordHash sample_hashes) S"
  by (simp add: sample_hashes_def inj_on_def)

lemma sample_node_inputs:
  "node_inputs (shaNode sample_hashes) (map (RecordHash sample_hashes) sample_entries)
     = [(CHR ''s'' # CHR 0x01 # CHR 0x00 # ''a'' @ CHR 0x00 # ''b'', CHR 0x00 # ''c''),
        (CHR 0x00 # ''a'', CHR 0x00 # ''b'')]"
  "node_inputs (shaNode sample_hashes) (map (RecordHash sample_hashes) (take 2 sample_entries))
     = [(CHR 0x00 # ''a'', CHR 0x00 # ''b'')]"
  by code_simp+

lemma sample_inj:
  "inj_on (\<lambda>(l, r). shaNode sample_hashes l r)
     (set (node_inputs (shaNode sample_hashes) (map (RecordHash sample_hashes) sample_entries)))"
  unfolding sample_node_inputs by (simp add: sample_hashes_def shaNode_def)

theorem proven_entry_path_complete_witness:
  "\<exists>ins. path_root (shaNode sample_hashes) (length sample_entries) 1 (RecordHash sample_hashes (sample_entries ! 1))
     (provenHashes (merkleLevels sample_hashes sample_entries) 1) = Some (merkleRoot sample_hashes sample_entries, ins)"
  by (rule proven_entry_path_complete) (simp add: sample_entries_def)

lemma sample_path:
  "path_root (shaNode sample_hashes) (length sample_entries) 1 (RecordHash sample_hashes ''b'')
     [CHR 0x00 # ''a'', CHR 0x00 # ''c'']
   = Some (merkleRoot sample_hashes sample_entries,
       node_inputs (shaNode sample_hashes) (map (RecordHash sample_hashes) sample_entries))"
  by code_simp


theorem scan_roots_append_only_witness:
  "\<exists>appended. sample_entries = take 2 sample_entries @ appended"
proof -
  let ?old = "\<lparr>cpOrigin = ''o'', cpTreeSize = 2,
     cpRootHash = merkleRoot sample_hashes (take 2 sample_entries), cpWitnessTime = 1\<rparr>"
  let ?next = "\<lparr>cpOrigin = ''o'', cpTreeSize = 3,
     cpRootHash = merkleRoot sample_hashes sample_entries, cpWitnessTime = 2\<rparr>"
  have "\<exists>appended. sample_entries = take 2 sample_entries @ appended \<and> length sample_entries = cpTreeSize ?next
           \<and> merkleRoot sample_hashes sample_entries = cpRootHash ?next"
  proof (rule scan_roots_append_only)
    show "verifyScanRoots sample_hashes sample_entries ?old ?next = Inr ()"
      by (simp add: verifyScanRoots_def sample_entries_def)
    show "inj_on (\<lambda>(l, r). shaNode sample_hashes l r)
      (set (node_inputs (shaNode sample_hashes) (map (RecordHash sample_hashes) (take 2 sample_entries))) \<union>
       set (node_inputs (shaNode sample_hashes) (map (RecordHash sample_hashes) (take (cpTreeSize ?old) sample_entries))))"
      by (simp add: sample_node_inputs)
  qed (simp_all add: sample_record_inj, simp_all add: sample_entries_def)
  then show ?thesis by blast
qed

end
