(* ===== verification/Hash_Tiles.thy ===== *)
theory Hash_Tiles
  imports Merkle_Tree Log_Reference
begin

text \<open>
  Consistency of two checkpoints from hash tiles (\<open>log/c2sptlog/hash_tiles.go\<close>), with the
  bounded fetch of \<open>resource_fetcher.go\<close>. The fetcher is a parameter that may return any bytes
  or error; \<open>ctxErr\<close> is what \<open>ctx.Err()\<close> returns (a cancellation during the call reaches the
  model as an error of the fetcher). The cache of fetched tiles is threaded through.
  The loop over the map of cached tiles visits the keys present when it starts; Go may also
  visit keys inserted meanwhile, which \<open>authenticate\<close> has then already authenticated.

  The lemmas show that the tile root is the RFC 6962 root when the tiles are authentic, and
  that an accepted run makes every tile it used authentic, so that the trusted root is the
  root of a prefix of the candidate tree.
\<close>

section \<open>Definitions\<close>

type_synonym hashTileKey = "nat \<times> nat"

abbreviation "HashSize \<equiv> (32::nat)"

record tileSource =
  tsFetcher :: "(string \<Rightarrow> nat \<Rightarrow> sdk_error + bytes) option"
  tsMaxTreeSize :: nat

record checkpointTiles =
  ctLogPrefix :: string
  ctSize :: nat
  ctTiles :: "(hashTileKey \<times> bytes list) list"

definition invalidHashTile :: "string \<Rightarrow> sdk_error option \<Rightarrow> sdk_error" where
  "invalidHashTile message cause =
     NewVerificationError InvalidEvidence False (''dnsid: c2sp-tlog '' @ message) cause"

definition fetchBounded ::
  "(string \<Rightarrow> nat \<Rightarrow> sdk_error + bytes) option \<Rightarrow> string \<Rightarrow> nat \<Rightarrow> sdk_error + bytes" where
  "fetchBounded fetcher rawURL maximum =
     (case fetcher of
        None \<Rightarrow> Inl (ResourceFetchError ResourceFetchUnavailable 0 False
                      (Some (PlainError ''resource fetcher is required'' None)))
      | Some FetchBounded \<Rightarrow>
          rbind (FetchBounded rawURL maximum) (\<lambda>data.
            if length data > maximum
            then Inl (ResourceFetchError ResourceFetchResponseLimit 0 False None)
            else Inr data))"

fun responseLimit :: "sdk_error \<Rightarrow> bool" where
  "responseLimit (ResourceFetchError ResourceFetchResponseLimit _ _ _) = True"
| "responseLimit _ = False"

fun statusNotFound :: "sdk_error \<Rightarrow> bool" where
  "statusNotFound (ResourceFetchError ResourceFetchHTTPStatus status _ _) = (status = 404)"
| "statusNotFound _ = False"

definition fetchExact ::
  "tileSource \<Rightarrow> sdk_error option \<Rightarrow> string \<Rightarrow> nat \<Rightarrow> sdk_error + bytes" where
  "fetchExact src ctxErr path width =
     (case ctxErr of
        Some e \<Rightarrow> Inl e
      | None \<Rightarrow>
          if width = 0 \<or> width > 256 then Inl (invalidHashTile ''hash tile width outside 1..256'' None)
          else
            (case fetchBounded (tsFetcher src) path (width * HashSize) of
               Inl err \<Rightarrow>
                 (case errors_As is_ResourceFetchError err of
                    Some f \<Rightarrow> if responseLimit f
                              then Inl (invalidHashTile ''hash tile exceeds requested width'' (Some err))
                              else Inl (logVerificationError err True)
                  | None \<Rightarrow> Inl (logVerificationError err True))
             | Inr data \<Rightarrow>
                 if length data \<noteq> width * HashSize
                 then Inl (invalidHashTile ''hash tile has incorrect length'' None)
                 else Inr data))"

text \<open>The width of a tile, with the wrap-around of the unsigned subtraction.\<close>

definition tileWidth :: "nat \<Rightarrow> hashTileKey \<Rightarrow> nat" where
  "tileWidth sz key =
     min 256 ((sz div 256 ^ fst key + 2 ^ 64 - (snd key * 256) mod 2 ^ 64) mod 2 ^ 64)"

definition splitHashes :: "nat \<Rightarrow> bytes \<Rightarrow> bytes list" where
  "splitHashes width data = map (\<lambda>i. take HashSize (drop (i * HashSize) data)) [0..<width]"

definition fetch ::
  "tileSource \<Rightarrow> sdk_error option \<Rightarrow> checkpointTiles \<Rightarrow> hashTileKey
    \<Rightarrow> sdk_error + bytes list \<times> checkpointTiles" where
  "fetch src ctxErr t key =
     (case ctxErr of
        Some e \<Rightarrow> Inl e
      | None \<Rightarrow>
          (case map_of (ctTiles t) key of
             Some hashes \<Rightarrow> Inr (hashes, t)
           | None \<Rightarrow>
               (let width = tileWidth (ctSize t) key;
                    path = ctLogPrefix t @ ''/tile/'' @ FormatUint (fst key) @ ''/'' @ tileNumber (snd key);
                    requested = (if width < 256 then path @ ''.p/'' @ FormatUint width else path);
                    first = fetchExact src ctxErr requested width;
                    result = (case first of
                                Inr data \<Rightarrow> Inr data
                              | Inl err \<Rightarrow>
                                  if width < 256 \<and> (case errors_As is_ResourceFetchError err of
                                                      Some f \<Rightarrow> statusNotFound f | None \<Rightarrow> False)
                                  then rbind (fetchExact src ctxErr path 256) (\<lambda>data. Inr (take (width * HashSize) data))
                                  else Inl err)
                in rbind result (\<lambda>data.
                     let hashes = splitHashes width data
                     in Inr (hashes, t\<lparr>ctTiles := AList.update key hashes (ctTiles t)\<rparr>)))))"

definition zeroHash :: bytes where
  "zeroHash = replicate HashSize (CHR 0x00)"

text \<open>The loop of \<open>root\<close>: \<open>acc\<close> holds the root once there is one.\<close>

function rootLoop ::
  "tlog_lib \<Rightarrow> tileSource \<Rightarrow> sdk_error option \<Rightarrow> nat \<Rightarrow> nat \<Rightarrow> bytes option \<Rightarrow> checkpointTiles
    \<Rightarrow> sdk_error + bytes option \<times> checkpointTiles" where
  "rootLoop H src ctxErr level sz acc t =
     (if sz = 0 then Inr (acc, t)
      else
        (let width = sz mod 256
         in if width \<noteq> 0
            then rbind (fetch src ctxErr t (level, sz div 256)) (\<lambda>(hashes, t').
                   let nodes = take width hashes @ (case acc of None \<Rightarrow> [] | Some root \<Rightarrow> [root])
                   in rootLoop H src ctxErr (Suc level) (sz div 256) (Some (hashTileRoot (NodeHash H) nodes)) t')
            else rootLoop H src ctxErr (Suc level) (sz div 256) acc t))"
  by pat_completeness auto
termination
  by (relation "measure (\<lambda>(H, src, c, level, sz, acc, t). sz)") auto

declare rootLoop.simps [simp del]

definition root ::
  "tlog_lib \<Rightarrow> tileSource \<Rightarrow> sdk_error option \<Rightarrow> checkpointTiles \<Rightarrow> nat \<Rightarrow> sdk_error + bytes \<times> checkpointTiles" where
  "root H src ctxErr t sz =
     rbind (rootLoop H src ctxErr 0 sz None t) (\<lambda>(acc, t').
       Inr (case acc of None \<Rightarrow> zeroHash | Some r \<Rightarrow> r, t'))"

text \<open>\<open>authenticate\<close> climbs to the parent tile; \<open>None\<close> would be a climb that never ends.\<close>

partial_function (option) authenticate ::
  "tlog_lib \<Rightarrow> tileSource \<Rightarrow> sdk_error option \<Rightarrow> checkpointTiles \<Rightarrow> nat \<Rightarrow> nat
    \<Rightarrow> (sdk_error + checkpointTiles) option" where
  "authenticate H src ctxErr t level index =
     (case ctxErr of
        Some e \<Rightarrow> Some (Inl e)
      | None \<Rightarrow>
          (let available = ctSize t div 256 ^ level
           in if available mod 256 \<noteq> 0 \<and> index = available div 256 then Some (Inr t)
              else
                (case fetch src ctxErr t (level, index) of
                   Inl e \<Rightarrow> Some (Inl e)
                 | Inr (hashes, t1) \<Rightarrow>
                     (case fetch src ctxErr t1 (Suc level, index div 256) of
                        Inl e \<Rightarrow> Some (Inl e)
                      | Inr (parent, t2) \<Rightarrow>
                          if hashTileRoot (NodeHash H) hashes \<noteq> parent ! (index mod 256)
                          then Some (Inl (invalidHashTile ''hash tile fails candidate authentication'' None))
                          else authenticate H src ctxErr t2 (Suc level) (index div 256)))))"

fun authenticateAll ::
  "tlog_lib \<Rightarrow> tileSource \<Rightarrow> sdk_error option \<Rightarrow> checkpointTiles \<Rightarrow> hashTileKey list
    \<Rightarrow> (sdk_error + checkpointTiles) option" where
  "authenticateAll H src ctxErr t [] = Some (Inr t)"
| "authenticateAll H src ctxErr t (key # keys) =
     (case authenticate H src ctxErr t (fst key) (snd key) of
        None \<Rightarrow> None
      | Some (Inl e) \<Rightarrow> Some (Inl e)
      | Some (Inr t') \<Rightarrow> authenticateAll H src ctxErr t' keys)"

text \<open>\<open>verifyTileConsistency\<close>, which also returns the tiles it used.\<close>

definition verifyTiles ::
  "tlog_lib \<Rightarrow> tileSource \<Rightarrow> sdk_error option \<Rightarrow> string \<Rightarrow> TrustedC2spCheckpoint \<Rightarrow> TrustedC2spCheckpoint
    \<Rightarrow> (sdk_error + checkpointTiles) option" where
  "verifyTiles H src ctxErr prefix old next =
     (if cpTreeSize next > tsMaxTreeSize src
      then Some (Inl (invalidHashTile ''checkpoint exceeds configured tree-size maximum'' None))
      else
        (let t0 = \<lparr>ctLogPrefix = prefix, ctSize = cpTreeSize next, ctTiles = []\<rparr>
         in case root H src ctxErr t0 (cpTreeSize next) of
              Inl e \<Rightarrow> Some (Inl e)
            | Inr (r, t1) \<Rightarrow>
                if r \<noteq> cpRootHash next
                then Some (Inl (invalidHashTile ''hash tiles do not match candidate checkpoint root'' None))
                else
                  (case root H src ctxErr t1 (cpTreeSize old) of
                     Inl e \<Rightarrow> Some (Inl e)
                   | Inr (prefixRoot, t2) \<Rightarrow>
                       (case authenticateAll H src ctxErr t2 (map fst (ctTiles t2)) of
                          None \<Rightarrow> None
                        | Some (Inl e) \<Rightarrow> Some (Inl e)
                        | Some (Inr t3) \<Rightarrow>
                            if prefixRoot \<noteq> cpRootHash old
                            then Some (Inl (checkpointAdvanceError AdvanceConsistencyFailed old next
                                   (Some (PlainError ''authenticated hash tiles contradict trusted prefix root'' None))))
                            else Some (Inr t3)))))"

definition verifyTileConsistency ::
  "tlog_lib \<Rightarrow> tileSource \<Rightarrow> sdk_error option \<Rightarrow> string \<Rightarrow> TrustedC2spCheckpoint \<Rightarrow> TrustedC2spCheckpoint
    \<Rightarrow> (sdk_error + unit) option" where
  "verifyTileConsistency H src ctxErr prefix old next =
     map_option (\<lambda>r. rbind r (\<lambda>_. Inr ())) (verifyTiles H src ctxErr prefix old next)"

section \<open>Reference definitions\<close>

text \<open>
  The tree of leaf hashes \<open>L\<close>: the root of its subtree number \<open>i\<close> of 256 to the \<open>l\<close> leaves.
\<close>

definition subtree :: "('h \<Rightarrow> 'h \<Rightarrow> 'h) \<Rightarrow> 'h list \<Rightarrow> nat \<Rightarrow> nat \<Rightarrow> 'h" where
  "subtree node L l i = hashTileRoot node (take (256 ^ l) (drop (i * 256 ^ l) L))"

text \<open>The nodes a size selects in the tiles \<open>T\<close>, one list for each base-256 digit, and their fold.\<close>

function digitNodes :: "(hashTileKey \<Rightarrow> 'h list) \<Rightarrow> nat \<Rightarrow> nat \<Rightarrow> 'h list list" where
  "digitNodes T level sz =
     (if sz = 0 then []
      else take (sz mod 256) (T (level, sz div 256)) # digitNodes T (Suc level) (sz div 256))"
  by pat_completeness auto
termination
  by (relation "measure (\<lambda>(T, level, sz). sz)") auto

declare digitNodes.simps [simp del]

fun opt_list :: "'a option \<Rightarrow> 'a list" where
  "opt_list None = []"
| "opt_list (Some x) = [x]"

fun foldRoot :: "('h \<Rightarrow> 'h \<Rightarrow> 'h) \<Rightarrow> 'h list list \<Rightarrow> 'h option \<Rightarrow> 'h option" where
  "foldRoot node [] acc = acc"
| "foldRoot node (w # ws) acc =
     foldRoot node ws (if w = [] then acc else Some (hashTileRoot node (w @ opt_list acc)))"

fun foldInputs :: "('h \<Rightarrow> 'h \<Rightarrow> 'h) \<Rightarrow> 'h list list \<Rightarrow> 'h option \<Rightarrow> ('h \<times> 'h) list" where
  "foldInputs node [] acc = []"
| "foldInputs node (w # ws) acc =
     (if w = [] then foldInputs node ws acc
      else node_inputs node (w @ opt_list acc) @ foldInputs node ws (Some (hashTileRoot node (w @ opt_list acc))))"

definition tileMap :: "checkpointTiles \<Rightarrow> hashTileKey \<Rightarrow> bytes list" where
  "tileMap t key = (case map_of (ctTiles t) key of None \<Rightarrow> [] | Some hs \<Rightarrow> hs)"

text \<open>The pairs the verifier hashed, given the tiles it ended with.\<close>

definition verifierInputs :: "tlog_lib \<Rightarrow> checkpointTiles \<Rightarrow> (bytes \<times> bytes) set" where
  "verifierInputs H t =
     set (foldInputs (NodeHash H) (digitNodes (tileMap t) 0 (ctSize t)) None)
     \<union> (\<Union>(key, hs) \<in> set (ctTiles t). set (node_inputs (NodeHash H) hs))"

definition authTiles :: "('h \<Rightarrow> 'h \<Rightarrow> 'h) \<Rightarrow> 'h list \<Rightarrow> hashTileKey \<Rightarrow> 'h list" where
  "authTiles node L key = map (subtree node L (fst key)) [snd key * 256..<snd key * 256 + 256]"

abbreviation "cached t key \<equiv> map_of (ctTiles t) key"

definition extends :: "checkpointTiles \<Rightarrow> checkpointTiles \<Rightarrow> bool" where
  "extends t t' \<longleftrightarrow> ctSize t' = ctSize t \<and> ctLogPrefix t' = ctLogPrefix t \<and>
     (\<forall>key hs. cached t key = Some hs \<longrightarrow> cached t' key = Some hs)"

definition wellCached :: "checkpointTiles \<Rightarrow> bool" where
  "wellCached t \<longleftrightarrow> (\<forall>key hs. cached t key = Some hs \<longrightarrow>
     length hs = tileWidth (ctSize t) key \<and> 0 < tileWidth (ctSize t) key)"

definition inRange :: "nat \<Rightarrow> hashTileKey \<Rightarrow> bool" where
  "inRange n key \<longleftrightarrow> snd key * 256 < n div 256 ^ fst key"

definition goodTiles :: "checkpointTiles \<Rightarrow> bool" where
  "goodTiles t \<longleftrightarrow> wellCached t \<and> (\<forall>key. cached t key \<noteq> None \<longrightarrow> inRange (ctSize t) key)"

definition digit :: "nat \<Rightarrow> nat \<Rightarrow> nat" where
  "digit sz j = sz div 256 ^ j mod 256"

definition aboveDigit :: "nat \<Rightarrow> nat \<Rightarrow> nat" where
  "aboveDigit sz j = sz div 256 ^ Suc j"

definition digitsCached :: "checkpointTiles \<Rightarrow> nat \<Rightarrow> nat \<Rightarrow> bool" where
  "digitsCached t level sz \<longleftrightarrow> (\<forall>j. digit sz j \<noteq> 0 \<longrightarrow> cached t (level + j, aboveDigit sz j) \<noteq> None)"

definition authentic :: "(bytes \<Rightarrow> bytes \<Rightarrow> bytes) \<Rightarrow> bytes list \<Rightarrow> checkpointTiles \<Rightarrow> hashTileKey \<Rightarrow> bool" where
  "authentic node L t key \<longleftrightarrow> tileMap t key = take (tileWidth (ctSize t) key) (authTiles node L key)"

definition rightEdge :: "nat \<Rightarrow> hashTileKey \<Rightarrow> bool" where
  "rightEdge n key \<longleftrightarrow> n div 256 ^ fst key mod 256 \<noteq> 0 \<and> snd key = n div 256 ^ fst key div 256"

definition boundTiles :: "tlog_lib \<Rightarrow> bytes list \<Rightarrow> checkpointTiles \<Rightarrow> bool" where
  "boundTiles H L t \<longleftrightarrow> length L = ctSize t \<and> ctSize t < 2 ^ 64 \<and> goodTiles t \<and>
     node_inj (NodeHash H) (verifierInputs H t \<union> set (node_inputs (NodeHash H) L)) \<and>
     (\<forall>key. rightEdge (ctSize t) key \<longrightarrow> cached t key \<noteq> None \<longrightarrow> authentic (NodeHash H) L t key)"

definition authenticated :: "tlog_lib \<Rightarrow> checkpointTiles \<Rightarrow> hashTileKey \<Rightarrow> bool" where
  "authenticated H t key \<longleftrightarrow> (\<forall>T L. extends t T \<longrightarrow> boundTiles H L T \<longrightarrow> cached T key \<noteq> None
     \<longrightarrow> authentic (NodeHash H) L T key)"

definition sample_leaves :: "bytes list" where
  "sample_leaves = [replicate 32 (CHR ''a''), replicate 32 (CHR ''b''), replicate 32 (CHR ''c'')]"

definition sample_source :: tileSource where
  "sample_source = \<lparr>tsFetcher = Some (\<lambda>url limit.
       if url = ''p/tile/0/000.p/3'' then Inr (concat sample_leaves)
       else Inl (ResourceFetchError ResourceFetchHTTPStatus 404 False None)),
     tsMaxTreeSize = 1000\<rparr>"

definition sample_old :: TrustedC2spCheckpoint where
  "sample_old = \<lparr>cpOrigin = ''o'', cpTreeSize = 2,
     cpRootHash = hashTileRoot (NodeHash sample_hashes) (take 2 sample_leaves), cpWitnessTime = 1\<rparr>"

definition sample_next :: TrustedC2spCheckpoint where
  "sample_next = \<lparr>cpOrigin = ''o'', cpTreeSize = 3,
     cpRootHash = hashTileRoot (NodeHash sample_hashes) sample_leaves, cpWitnessTime = 2\<rparr>"

definition sample_tiles :: checkpointTiles where
  "sample_tiles = \<lparr>ctLogPrefix = ''p'', ctSize = 3, ctTiles = [((0, 0), sample_leaves)]\<rparr>"

section \<open>Lemmas\<close>

subsection \<open>Subtrees\<close>

lemma chunks_halves:
  assumes "halves A B" and c: "Suc c = 2 ^ p" and "Suc c < length A + length B"
  shows "chunks c (A @ B) = chunks c A @ chunks c B"
    and "halves (map f (chunks c A)) (map f (chunks c B))"
proof -
  from assms(1) obtain j where j: "length A = 2 ^ j" "length B \<le> 2 ^ j" by (rule halves_pow)
  have "(2::nat) ^ p < 2 ^ Suc j" using assms(3) j c by simp
  then have pj: "p \<le> j" by (simp only: power_strict_increasing_iff one_less_numeral_iff semiring_norm less_Suc_eq_le)
  have A: "length A = 2 ^ (j - p) * Suc c" using pj by (simp add: j c power_add [symmetric])
  then show "chunks c (A @ B) = chunks c A @ chunks c B" by (intro chunks_append) (metis dvd_triv_right)
  have q: "(m * Suc c + c) div Suc c = m" for m by (simp add: div_mult_self3 del: mult_Suc_right)
  have "length B \<le> 2 ^ (j - p) * Suc c" using j A by simp
  then have "(length B + c) div Suc c \<le> (2 ^ (j - p) * Suc c + c) div Suc c" by (intro div_le_mono) simp
  then have "length (chunks c B) \<le> 2 ^ (j - p)" by (simp only: length_chunks q)
  moreover have "length (chunks c A) = 2 ^ (j - p)" by (simp only: length_chunks A q)
  moreover have "chunks c B \<noteq> []" using halves_length(5) [OF assms(1)] by (cases B) auto
  ultimately show "halves (map f (chunks c A)) (map f (chunks c B))"
    by (intro halves_powI [of _ "j - p"]) simp_all
qed

lemma node_inputs_chunks:
  assumes "xs \<noteq> []" and c: "Suc c = 2 ^ p"
  shows "set (node_inputs node xs) = set (node_inputs node (map (hashTileRoot node) (chunks c xs)))
    \<union> (\<Union>b \<in> set (chunks c xs). set (node_inputs node b))"
  using assms(1)
proof (induction xs rule: tree_induct)
  case (leaf x)
  then show ?case by simp
next
  case (node A B)
  show ?case
  proof (cases "Suc c < length A + length B")
    case False
    then have "chunks c (A @ B) = [A @ B]"
      using halves_length [OF node.hyps] by (subst chunks_def') simp
    then show ?thesis by simp
  next
    case True
    note h = chunks_halves [OF node.hyps c True]
    have ne: "A \<noteq> []" "B \<noteq> []" using halves_length [OF node.hyps] by auto
    show ?thesis
      unfolding h(1) map_append inputs_halves [OF h(2)] inputs_halves [OF node.hyps]
      using node.IH hashTileRoot_chunks [OF ne(1) c, of node] hashTileRoot_chunks [OF ne(2) c, of node] by auto
  qed
qed

lemma chunks_exact:
  "length xs = m * Suc c \<Longrightarrow> chunks c xs = map (\<lambda>j. take (Suc c) (drop (j * Suc c) xs)) [0..<m]"
proof (induction m arbitrary: xs)
  case (Suc m)
  then have "xs \<noteq> []" by auto
  then have "chunks c xs = take (Suc c) xs # chunks c (drop (Suc c) xs)" by (subst chunks_def') simp
  also have "chunks c (drop (Suc c) xs) = map (\<lambda>j. take (Suc c) (drop (j * Suc c) (drop (Suc c) xs))) [0..<m]"
    using Suc by (intro Suc.IH) simp
  also have "\<dots> = map (\<lambda>j. take (Suc c) (drop (Suc j * Suc c) xs)) [0..<m]"
    by (simp add: ac_simps)
  also have "take (Suc c) xs # \<dots> = map (\<lambda>j. take (Suc c) (drop (j * Suc c) xs)) [0..<Suc m]"
    by (simp only: upt_conv_Cons [of 0 "Suc m"] zero_less_Suc map_Suc_upt [symmetric] list.map map_map o_def) simp
  finally show ?case .
qed simp

lemma pow256: "Suc (256 ^ l - 1) = 2 ^ (8 * l)"
  by (simp add: power_mult)

lemma subtree_Suc:
  assumes "Suc i * 256 ^ Suc l \<le> length L"
  shows "hashTileRoot node (map (subtree node L l) [i * 256..<i * 256 + 256]) = subtree node L (Suc l) i"
    and "set (node_inputs node (map (subtree node L l) [i * 256..<i * 256 + 256]))
           \<subseteq> set (node_inputs node (take (256 ^ Suc l) (drop (i * 256 ^ Suc l) L)))"
proof -
  let ?B = "take (256 ^ Suc l) (drop (i * 256 ^ Suc l) L)" and ?c = "256 ^ l - 1"
  have c: "Suc ?c = 256 ^ l" by simp
  have len: "length ?B = 256 * Suc ?c" using assms unfolding c by simp
  have "0 < length ?B" unfolding len by simp
  then have ne: "?B \<noteq> []" by (metis length_0_conv less_irrefl)
  have "chunks ?c ?B = map (\<lambda>j. take (Suc ?c) (drop (j * Suc ?c) ?B)) [0..<256]" by (rule chunks_exact [OF len])
  also have "\<dots> = map (\<lambda>j. take (256 ^ l) (drop ((i * 256 + j) * 256 ^ l) L)) [0..<256]"
  proof (rule map_cong)
    fix j assume "j \<in> set [0..<256]"
    then have "j * 256 ^ l + 256 ^ l \<le> 256 ^ Suc l" by (auto simp: algebra_simps)
    then have m: "min (256 ^ l) (256 ^ Suc l - j * 256 ^ l) = (256 ^ l :: nat)" by linarith
    show "take (Suc ?c) (drop (j * Suc ?c) ?B) = take (256 ^ l) (drop ((i * 256 + j) * 256 ^ l) L)"
      unfolding c drop_take take_take m by (simp add: algebra_simps)
  qed simp
  finally have ch: "chunks ?c ?B = map (\<lambda>j. take (256 ^ l) (drop ((i * 256 + j) * 256 ^ l) L)) [0..<256]" .
  have "map (hashTileRoot node) (chunks ?c ?B) = map (\<lambda>j. subtree node L l (i * 256 + j)) [0..<256]"
    unfolding ch by (simp add: subtree_def)
  also have "\<dots> = map (subtree node L l) [i * 256..<i * 256 + 256]"
    by (rule nth_equalityI) simp_all
  finally have m: "map (hashTileRoot node) (chunks ?c ?B) = map (subtree node L l) [i * 256..<i * 256 + 256]" .
  show "hashTileRoot node (map (subtree node L l) [i * 256..<i * 256 + 256]) = subtree node L (Suc l) i"
    unfolding m [symmetric] by (simp only: hashTileRoot_chunks [OF ne pow256] subtree_def)
  show "set (node_inputs node (map (subtree node L l) [i * 256..<i * 256 + 256])) \<subseteq> set (node_inputs node ?B)"
    unfolding m [symmetric] node_inputs_chunks [OF ne pow256 [of l], of node] by blast
qed

subsection \<open>The fold over the digits\<close>

lemma digitNodes_0 [simp]: "digitNodes T level 0 = []"
  by (simp add: digitNodes.simps)

lemma digitNodes_step:
  "0 < sz \<Longrightarrow> digitNodes T level sz
     = take (sz mod 256) (T (level, sz div 256)) # digitNodes T (Suc level) (sz div 256)"
  by (subst digitNodes.simps) simp

lemma map_subtree_blocks:
  assumes "m * 256 * 256 ^ l \<le> length L"
  shows "map (hashTileRoot node) (chunks 255 (map (subtree node L l) [0..<m * 256])) = map (subtree node L (Suc l)) [0..<m]"
    and "b \<in> set (chunks 255 (map (subtree node L l) [0..<m * 256])) \<Longrightarrow>
      \<exists>i < m. set (node_inputs node b) \<subseteq> set (node_inputs node (take (256 ^ Suc l) (drop (i * 256 ^ Suc l) L)))"
proof -
  have le: "Suc i * 256 ^ Suc l \<le> length L" if "i < m" for i
  proof -
    have "Suc i * (256 * 256 ^ l) \<le> m * (256 * 256 ^ l)" using that by (intro mult_le_mono1) simp
    then show ?thesis using assms by (simp add: mult.assoc)
  qed
  have "chunks 255 (map (subtree node L l) [0..<m * 256])
      = map (\<lambda>j. take (Suc 255) (drop (j * Suc 255) (map (subtree node L l) [0..<m * 256]))) [0..<m]"
    by (rule chunks_exact) simp
  also have "\<dots> = map (\<lambda>j. map (subtree node L l) [j * 256..<j * 256 + 256]) [0..<m]"
  proof (rule map_cong)
    fix j assume "j \<in> set [0..<m]"
    then have "j * 256 + 256 \<le> m * 256" by auto
    then show "take (Suc 255) (drop (j * Suc 255) (map (subtree node L l) [0..<m * 256])) = map (subtree node L l) [j * 256..<j * 256 + 256]"
      by (simp add: drop_map take_map take_upt)
  qed simp
  finally have ch: "chunks 255 (map (subtree node L l) [0..<m * 256])
      = map (\<lambda>j. map (subtree node L l) [j * 256..<j * 256 + 256]) [0..<m]" .
  show "map (hashTileRoot node) (chunks 255 (map (subtree node L l) [0..<m * 256])) = map (subtree node L (Suc l)) [0..<m]"
    unfolding ch by (simp add: subtree_Suc(1) [OF le])
  show "\<exists>i < m. set (node_inputs node b) \<subseteq> set (node_inputs node (take (256 ^ Suc l) (drop (i * 256 ^ Suc l) L)))"
    if "b \<in> set (chunks 255 (map (subtree node L l) [0..<m * 256]))"
    using that unfolding ch using subtree_Suc(2) [OF le] by fastforce
qed

lemma level_step:
  fixes node :: "'h \<Rightarrow> 'h \<Rightarrow> 'h" and L :: "'h list" and acc :: "'h option"
  assumes "q * 256 ^ l \<le> length L" and "0 < q \<or> acc \<noteq> None"
  defines "w \<equiv> take (q mod 256) (authTiles node L (l, q div 256))"
  defines "xs \<equiv> map (subtree node L l) [0..<q] @ opt_list acc"
  defines "acc' \<equiv> (if w = [] then acc else Some (hashTileRoot node (w @ opt_list acc)))"
  shows "hashTileRoot node xs = hashTileRoot node (map (subtree node L (Suc l)) [0..<q div 256] @ opt_list acc')"
    and "set (node_inputs node (map (subtree node L (Suc l)) [0..<q div 256] @ opt_list acc')) \<subseteq> set (node_inputs node xs)"
    and "w \<noteq> [] \<Longrightarrow> set (node_inputs node (w @ opt_list acc)) \<subseteq> set (node_inputs node xs)"
    and "q div 256 * 256 ^ Suc l \<le> length L"
    and "0 < q div 256 \<or> acc' \<noteq> None"
proof -
  let ?m = "q div 256" and ?F = "map (subtree node L l) [0..<q div 256 * 256]" and ?R = "w @ opt_list acc"
  have wl: "w = map (subtree node L l) [?m * 256..<q]"
  proof -
    have "q mod 256 \<le> 256" and "?m * 256 + q mod 256 = q" by simp_all
    then show ?thesis unfolding w_def authTiles_def by (simp add: take_map take_upt)
  qed
  have xs: "xs = ?F @ ?R"
  proof -
    have "[0..<q] = [0..<?m * 256] @ [?m * 256..<q]"
      using upt_add_eq_append [of 0 "?m * 256" "q - ?m * 256"] by simp
    then show ?thesis by (simp add: xs_def wl)
  qed
  have mq: "?m * 256 \<le> q" by simp
  have "?m * 256 * 256 ^ l \<le> q * 256 ^ l" using mq by (rule mult_le_mono1)
  then have le: "?m * 256 * 256 ^ l \<le> length L" using assms(1) by linarith
  then show "?m * 256 ^ Suc l \<le> length L" by (simp add: mult.assoc)
  have lw: "length w = q mod 256" by (simp add: wl minus_div_mult_eq_mod)
  have lR: "length ?R \<le> 256"
  proof -
    have "q mod 256 < 256" by simp
    then show ?thesis by (cases acc) (simp_all add: lw)
  qed
  show "0 < ?m \<or> acc' \<noteq> None"
  proof (cases "w = []")
    case True
    then have "q mod 256 = 0" using lw by simp
    then have "?m = 0 \<Longrightarrow> q = 0" by (metis div_mult_mod_eq mult_0 add_0)
    then show ?thesis using assms(2) True by (auto simp: acc'_def)
  qed (simp add: acc'_def)
  have ne: "xs \<noteq> []" using assms(2) by (auto simp: xs_def)
  have cR: "chunks 255 ?R = (if ?R = [] then [] else [?R])"
    using lR by (subst chunks_def') (auto simp: chunks_def' [of 255 "[]"])
  have dv: "Suc 255 dvd length ?F" by simp
  have acc': "map (hashTileRoot node) (chunks 255 ?R) = opt_list acc'"
    unfolding cR by (cases acc) (auto simp: acc'_def)
  have m: "map (hashTileRoot node) (chunks 255 xs) = map (subtree node L (Suc l)) [0..<?m] @ opt_list acc'"
    unfolding xs chunks_append [OF dv] map_append map_subtree_blocks(1) [OF le] acc' ..
  have c: "Suc 255 = 2 ^ (8::nat)" by simp
  show "hashTileRoot node xs = hashTileRoot node (map (subtree node L (Suc l)) [0..<?m] @ opt_list acc')"
    using hashTileRoot_chunks [OF ne c, of node] unfolding m by simp
  note ni = node_inputs_chunks [OF ne c, of node, unfolded m]
  show "set (node_inputs node (map (subtree node L (Suc l)) [0..<?m] @ opt_list acc')) \<subseteq> set (node_inputs node xs)"
    unfolding ni by blast
  show "set (node_inputs node ?R) \<subseteq> set (node_inputs node xs)" if "w \<noteq> []"
  proof -
    have "?R \<in> set (chunks 255 xs)" unfolding xs chunks_append [OF dv] using that by (simp add: cR)
    then show ?thesis unfolding ni by blast
  qed
qed

lemma foldRoot_auth:
  assumes "q * 256 ^ l \<le> length L" and "0 < q \<or> acc \<noteq> None"
  shows "foldRoot node (digitNodes (authTiles node L) l q) acc
     = Some (hashTileRoot node (map (subtree node L l) [0..<q] @ opt_list acc))"
    and "set (foldInputs node (digitNodes (authTiles node L) l q) acc)
     \<subseteq> set (node_inputs node (map (subtree node L l) [0..<q] @ opt_list acc))"
  using assms
proof (induction q arbitrary: l acc rule: less_induct)
  case (less q)
  {
    case 1
    show ?case
    proof (cases "q = 0")
      case True
      with 1 show ?thesis by (cases acc) auto
    next
      case False
      note s = level_step [OF 1]
      show ?thesis
        using False less.IH(1) [OF _ s(4,5)] s(1) by (simp add: digitNodes_step)
    qed
  next
    case 2
    show ?case
    proof (cases "q = 0")
      case True
      then show ?thesis by simp
    next
      case False
      note s = level_step [OF 2]
      let ?w = "take (q mod 256) (authTiles node L (l, q div 256))"
      have "set (foldInputs node (digitNodes (authTiles node L) (Suc l) (q div 256))
          (if ?w = [] then acc else Some (hashTileRoot node (?w @ opt_list acc))))
        \<subseteq> set (node_inputs node (map (subtree node L l) [0..<q] @ opt_list acc))"
        using less.IH(2) [OF _ s(4,5)] s(2) False by (meson div_less_dividend one_less_numeral_iff semiring_norm(76) subset_trans not_gr_zero)
      with s(3) False show ?thesis by (cases "?w = []") (simp_all add: digitNodes_step del: take_eq_Nil)
    qed
  }
qed

lemma opt_list_inj: "opt_list a = opt_list b \<Longrightarrow> a = b"
  by (cases a; cases b) auto

lemma foldRoot_inj:
  assumes "map length ws = map length vs" and "(a = None) = (b = None)"
    and "foldRoot node ws a = foldRoot node vs b"
    and "node_inj node (set (foldInputs node ws a) \<union> set (foldInputs node vs b))"
  shows "ws = vs \<and> a = b"
  using assms
proof (induction ws arbitrary: vs a b)
  case (Cons w ws)
  then obtain v vs' where vs: "vs = v # vs'" and l: "length w = length v" "map length ws = map length vs'"
    by (cases vs) auto
  show ?case
  proof (cases "w = []")
    case True
    then have "v = []" using l by simp
    with True Cons vs l show ?thesis by auto
  next
    case False
    then have v: "v \<noteq> []" using l by auto
    have "node_inj node (set (foldInputs node ws (Some (hashTileRoot node (w @ opt_list a)))) \<union>
      set (foldInputs node vs' (Some (hashTileRoot node (v @ opt_list b)))))"
      by (rule inj_on_subset [OF Cons.prems(4)]) (auto simp: vs False v)
    then have ih: "ws = vs'" "hashTileRoot node (w @ opt_list a) = hashTileRoot node (v @ opt_list b)"
      using Cons.IH [OF l(2), of "Some (hashTileRoot node (w @ opt_list a))" "Some (hashTileRoot node (v @ opt_list b))"]
        Cons.prems(3) False v by (simp_all add: vs)
    have len: "length (w @ opt_list a) = length (v @ opt_list b)"
      using l(1) Cons.prems(2) by (cases a; cases b) auto
    have "w @ opt_list a = v @ opt_list b"
      by (rule hashTileRoot_inj [OF _ len ih(2)])
        (simp add: False, rule inj_on_subset [OF Cons.prems(4)], auto simp: vs False v)
    then have "w = v \<and> opt_list a = opt_list b" using l(1) by simp
    then show ?thesis using ih vs opt_list_inj by blast
  qed
qed simp

lemma subtree_0: "i < length L \<Longrightarrow> subtree node L 0 i = L ! i"
  by (simp add: subtree_def) (metis hashTileRoot_single take_Suc_conv_app_nth drop_eq_Nil id_take_nth_drop
      Cons_nth_drop_Suc take_Suc_Cons take0 One_nat_def)

lemma map_subtree_0: "q \<le> length L \<Longrightarrow> map (subtree node L 0) [0..<q] = take q L"
  by (rule nth_equalityI) (simp_all add: subtree_0)

lemma foldRoot_prefix:
  assumes "0 < q" and "q \<le> length L"
  shows "foldRoot node (digitNodes (authTiles node L) 0 q) None = Some (hashTileRoot node (take q L))"
    and "set (foldInputs node (digitNodes (authTiles node L) 0 q) None) \<subseteq> set (node_inputs node (take q L))"
  using foldRoot_auth [of q 0 L None node] assms by (simp_all add: map_subtree_0)

subsection \<open>Fetching\<close>

lemma extends_refl [simp]: "extends t t"
  by (simp add: extends_def)

lemma extends_trans: "extends t t' \<Longrightarrow> extends t' t'' \<Longrightarrow> extends t t''"
  by (simp add: extends_def)

lemma fetchExact_ok:
  assumes "fetchExact src ctxErr path width = Inr data"
  shows "0 < width \<and> width \<le> 256 \<and> length data = width * HashSize \<and> ctxErr = None"
  using assms by (simp add: fetchExact_def split: option.splits if_splits sum.splits)

lemma fetchExact_zero:
  "fetchExact src None path 0 = Inl (invalidHashTile ''hash tile width outside 1..256'' None)"
  "errors_As is_ResourceFetchError (invalidHashTile m None) = None"
  by (simp_all add: fetchExact_def invalidHashTile_def NewVerificationError_def errors_As.simps)

lemma fetch_ok:
  assumes "fetch src ctxErr t key = Inr (hashes, t')"
  shows "extends t t'" and "cached t' key = Some hashes" and "wellCached t \<Longrightarrow> wellCached t'"
proof -
  have "extends t t' \<and> cached t' key = Some hashes \<and> (wellCached t \<longrightarrow> wellCached t')"
  proof (cases "cached t key")
    case (Some hs)
    then show ?thesis using assms by (auto simp: fetch_def split: option.splits)
  next
    case None
    let ?w = "tileWidth (ctSize t) key"
    from assms None obtain data where t': "t' = t\<lparr>ctTiles := AList.update key hashes (ctTiles t)\<rparr>"
      and h: "hashes = splitHashes ?w data"
      by (auto simp: fetch_def Let_def rbind_Inr_iff split: option.splits)
    have w: "0 < ?w"
      using assms None by (cases "?w = 0") (auto simp: fetch_def Let_def fetchExact_zero split: option.splits)
    have "length hashes = ?w" by (simp add: h splitHashes_def)
    then show ?thesis using None w by (auto simp: t' extends_def wellCached_def update_conv')
  qed
  then show "extends t t'" "cached t' key = Some hashes" "wellCached t \<Longrightarrow> wellCached t'" by auto
qed

lemma tileMap_extends: "extends t t' \<Longrightarrow> cached t key \<noteq> None \<Longrightarrow> tileMap t' key = tileMap t key"
  by (cases key) (auto simp: extends_def tileMap_def)

lemma tileWidth_inRange:
  assumes "inRange n key" and "n < 2 ^ 64"
  shows "tileWidth n key = min 256 (n div 256 ^ fst key - snd key * 256)"
proof -
  let ?a = "n div 256 ^ fst key" and ?b = "snd key * 256"
  have a: "?a < 2 ^ 64" using assms(2) by (meson div_le_dividend le_less_trans)
  have b: "?b < ?a" using assms(1) by (simp add: inRange_def)
  have "(?a + 2 ^ 64 - ?b mod 2 ^ 64) mod 2 ^ 64 = (?a - ?b + 2 ^ 64) mod 2 ^ 64" using a b by simp
  also have "\<dots> = ?a - ?b" using a by simp
  finally show ?thesis by (simp only: tileWidth_def)
qed

lemma fetch_good:
  assumes "fetch src ctxErr t key = Inr (hashes, t')" and "goodTiles t" and "inRange (ctSize t) key"
  shows "goodTiles t'"
proof -
  from fetch_ok [OF assms(1)] assms(2) have "wellCached t'" by (simp add: goodTiles_def)
  moreover have "cached t' k \<noteq> None \<Longrightarrow> cached t k \<noteq> None \<or> k = key" for k
    using assms(1) by (auto simp: fetch_def Let_def rbind_Inr_iff update_conv' split: option.splits if_splits)
  moreover have "ctSize t' = ctSize t" using fetch_ok(1) [OF assms(1)] by (simp add: extends_def)
  ultimately show ?thesis using assms(2,3) unfolding goodTiles_def by metis
qed

lemma nat_all_step: "(\<forall>j. P j) \<longleftrightarrow> P 0 \<and> (\<forall>j. P (Suc j))"
  by (metis not0_implies_Suc)

text \<open>Digit \<open>j\<close> of a size in base 256 and the number above it.\<close>

lemma digit_simps [simp]:
  "digit sz 0 = sz mod 256" "digit sz (Suc j) = digit (sz div 256) j"
  "aboveDigit sz 0 = sz div 256" "aboveDigit sz (Suc j) = aboveDigit (sz div 256) j" "digit 0 j = 0"
proof -
  have "sz div 256 ^ Suc j = sz div 256 div 256 ^ j" by (simp only: power_Suc div_mult2_eq)
  then show "digit sz (Suc j) = digit (sz div 256) j" by (simp only: digit_def)
  have "sz div 256 ^ Suc (Suc j) = sz div 256 div 256 ^ Suc j" by (subst power_Suc) (simp only: div_mult2_eq)
  then show "aboveDigit sz (Suc j) = aboveDigit (sz div 256) j" by (simp only: aboveDigit_def)
qed (simp_all add: digit_def aboveDigit_def)

lemma digitsCached_step:
  "digitsCached t level sz \<longleftrightarrow>
     (sz mod 256 \<noteq> 0 \<longrightarrow> cached t (level, sz div 256) \<noteq> None) \<and> digitsCached t (Suc level) (sz div 256)"
  unfolding digitsCached_def by (subst nat_all_step) (simp del: not_None_eq)

lemma digitNodes_cong:
  "(\<And>j. digit sz j \<noteq> 0 \<Longrightarrow> take (digit sz j) (T (level + j, aboveDigit sz j)) = take (digit sz j) (T' (level + j, aboveDigit sz j)))
    \<Longrightarrow> digitNodes T level sz = digitNodes T' level sz"
proof (induction T level sz rule: digitNodes.induct)
  case (1 T level sz)
  show ?case
  proof (cases "sz = 0")
    case False
    have "digitNodes T (Suc level) (sz div 256) = digitNodes T' (Suc level) (sz div 256)"
      using "1.prems" [of "Suc j" for j] by (intro "1.IH" [OF False]) simp
    moreover have "take (sz mod 256) (T (level, sz div 256)) = take (sz mod 256) (T' (level, sz div 256))"
      using "1.prems" [of 0] by (cases "sz mod 256 = 0") auto
    ultimately show ?thesis using False by (simp add: digitNodes_step)
  qed simp
qed

lemma digitNodes_lengths:
  "(\<And>j. digit sz j \<noteq> 0 \<Longrightarrow> length (take (digit sz j) (T (level + j, aboveDigit sz j)))
       = length (take (digit sz j) (T' (level + j, aboveDigit sz j))))
    \<Longrightarrow> map length (digitNodes T level sz) = map length (digitNodes T' level sz)"
proof (induction T level sz rule: digitNodes.induct)
  case (1 T level sz)
  show ?case
  proof (cases "sz = 0")
    case False
    have "map length (digitNodes T (Suc level) (sz div 256)) = map length (digitNodes T' (Suc level) (sz div 256))"
      using "1.prems" [of "Suc j" for j] by (intro "1.IH" [OF False]) simp
    moreover have "length (take (sz mod 256) (T (level, sz div 256))) = length (take (sz mod 256) (T' (level, sz div 256)))"
      using "1.prems" [of 0] by (cases "sz mod 256 = 0") auto
    ultimately show ?thesis using False by (simp add: digitNodes_step)
  qed simp
qed

lemma digitNodes_eqD:
  assumes "digitNodes T level sz = digitNodes T' level sz"
  shows "take (digit sz j) (T (level + j, aboveDigit sz j)) = take (digit sz j) (T' (level + j, aboveDigit sz j))"
  using assms
proof (induction j arbitrary: level sz)
  case 0
  then show ?case by (cases "sz = 0") (simp_all add: digitNodes_step)
next
  case (Suc j)
  show ?case
  proof (cases "sz = 0")
    case False
    with Suc.prems have "digitNodes T (Suc level) (sz div 256) = digitNodes T' (Suc level) (sz div 256)"
      by (simp add: digitNodes_step)
    from Suc.IH [OF this] show ?thesis by simp
  qed simp
qed

lemma tileMap_cached: "cached t key = Some hs \<Longrightarrow> tileMap t key = hs"
  by (simp add: tileMap_def)

lemma rootLoop_ok:
  assumes "rootLoop H src ctxErr level sz acc t = Inr (r, t')" and "goodTiles t" and "sz \<le> ctSize t div 256 ^ level"
  shows "extends t t' \<and> goodTiles t' \<and> digitsCached t' level sz
     \<and> r = foldRoot (NodeHash H) (digitNodes (tileMap t') level sz) acc"
  using assms
proof (induction H src ctxErr level sz acc t rule: rootLoop.induct)
  case (1 H src ctxErr level sz acc t)
  note IH = "1.IH" and prems = "1.prems"
  have le: "sz div 256 \<le> ctSize t div 256 ^ Suc level"
    using prems(3) by (metis div_le_mono div_mult2_eq power_Suc2)
  show ?case
  proof (cases "sz = 0")
    case True
    with prems show ?thesis by (simp add: rootLoop.simps digitsCached_def)
  next
    case nz: False
    show ?thesis
    proof (cases "sz mod 256 = 0")
      case True
      then have "rootLoop H src ctxErr (Suc level) (sz div 256) acc t = Inr (r, t')"
        using prems(1) nz by (simp add: rootLoop.simps [of H src ctxErr level])
      from IH(2) [OF nz refl _ this prems(2) le] True nz show ?thesis
        by (simp add: digitNodes_step digitsCached_step [of _ level])
    next
      case False
      let ?n = "\<lambda>hashes. take (sz mod 256) hashes @ (case acc of None \<Rightarrow> [] | Some x \<Rightarrow> [x])"
      from prems(1) nz False obtain hashes t1 where f: "fetch src ctxErr t (level, sz div 256) = Inr (hashes, t1)"
        and rec: "rootLoop H src ctxErr (Suc level) (sz div 256) (Some (hashTileRoot (NodeHash H) (?n hashes))) t1 = Inr (r, t')"
        by (auto simp: rootLoop.simps [of H src ctxErr level] Let_def rbind_Inr_iff)
      have "sz div 256 * 256 < sz" using False by (metis div_mult_mod_eq less_add_same_cancel1 neq0_conv)
      then have "inRange (ctSize t) (level, sz div 256)" using prems(3) by (simp add: inRange_def)
      note g = fetch_ok [OF f] fetch_good [OF f prems(2) this]
      have le1: "sz div 256 \<le> ctSize t1 div 256 ^ Suc level" using le g(1) by (simp add: extends_def)
      have ih: "extends t1 t' \<and> goodTiles t' \<and> digitsCached t' (Suc level) (sz div 256) \<and>
          r = foldRoot (NodeHash H) (digitNodes (tileMap t') (Suc level) (sz div 256)) (Some (hashTileRoot (NodeHash H) (?n hashes)))"
        using IH(1) [OF nz refl False refl rec g(4) le1] by simp
      then have c: "cached t' (level, sz div 256) = Some hashes" using g(2) by (auto simp: extends_def)
      have "hashes \<noteq> []"
      proof -
        from ih have "wellCached t'" by (simp add: goodTiles_def)
        with c show ?thesis unfolding wellCached_def by (metis length_greater_0_conv)
      qed
      then have "take (sz mod 256) hashes \<noteq> []" using False by simp
      moreover have "(case acc of None \<Rightarrow> [] | Some x \<Rightarrow> [x]) = opt_list acc" by (cases acc) auto
      ultimately show ?thesis
        using ih c g(1) nz by (simp add: digitNodes_step digitsCached_step [of _ level] tileMap_cached extends_trans del: take_eq_Nil)
    qed
  qed
qed

subsection \<open>Authentication\<close>

lemma chunk_mem:
  "i * Suc c < length xs \<Longrightarrow> take (Suc c) (drop (i * Suc c) xs) \<in> set (chunks c xs)"
proof (induction i arbitrary: xs)
  case 0
  then show ?case by (subst chunks_def') simp
next
  case (Suc i)
  then have "i * Suc c < length (drop (Suc c) xs)" by simp
  from Suc.IH [OF this] Suc.prems show ?case by (subst chunks_def') (auto simp: ac_simps)
qed

lemma block_inputs:
  assumes "Suc i * 256 ^ l \<le> length L"
  shows "set (node_inputs node (take (256 ^ l) (drop (i * 256 ^ l) L))) \<subseteq> set (node_inputs node L)"
proof -
  have c: "Suc (256 ^ l - 1) = 256 ^ l" by simp
  have "i * 256 ^ l < Suc i * 256 ^ l" by simp
  then have i: "i * 256 ^ l < length L" using assms by linarith
  then have ne: "L \<noteq> []" by auto
  have "take (256 ^ l) (drop (i * 256 ^ l) L) \<in> set (chunks (256 ^ l - 1) L)"
    using chunk_mem [of i "256 ^ l - 1" L, unfolded c] i by simp
  then show ?thesis unfolding node_inputs_chunks [OF ne pow256 [of l], of node] by blast
qed

lemma verifierInputs_tile:
  "cached t key = Some hs \<Longrightarrow> set (node_inputs (NodeHash H) hs) \<subseteq> verifierInputs H t"
  unfolding verifierInputs_def by (auto dest!: map_of_SomeD)

lemma not_rightEdge:
  assumes "inRange n (l, i)" and "\<not> rightEdge n (l, i)"
  shows "i < n div 256 ^ Suc l" and "inRange n (Suc l, i div 256)" and "Suc i * 256 ^ Suc l \<le> n"
proof -
  let ?a = "n div 256 ^ l"
  have r: "i * 256 < ?a" using assms(1) by (simp add: inRange_def)
  have e: "?a mod 256 = 0 \<or> i \<noteq> ?a div 256" using assms(2) by (auto simp: rightEdge_def)
  have "i \<le> ?a div 256" using r by (metis div_le_mono less_imp_le nonzero_mult_div_cancel_right zero_neq_numeral)
  moreover have "i \<noteq> ?a div 256"
  proof
    assume "i = ?a div 256"
    with e have "?a mod 256 = 0" by simp
    then have "i * 256 = ?a" using \<open>i = ?a div 256\<close> by (metis add_0_right div_mult_mod_eq)
    with r show False by simp
  qed
  moreover have d: "?a div 256 = n div 256 ^ Suc l" by (simp only: power_Suc2 div_mult2_eq)
  ultimately show i: "i < n div 256 ^ Suc l" by simp
  have "i div 256 * 256 \<le> i" by simp
  with i show "inRange n (Suc l, i div 256)" by (simp add: inRange_def)
  from i have "Suc i * 256 ^ Suc l \<le> n div 256 ^ Suc l * 256 ^ Suc l" by (intro mult_le_mono1) simp
  also have "\<dots> \<le> n" by simp
  finally show "Suc i * 256 ^ Suc l \<le> n" .
qed

lemma tile_binding:
  assumes L: "length L = ctSize t" "ctSize t < 2 ^ 64" and t: "goodTiles t" and k: "cached t (l, i) = Some hs"
    and nr: "\<not> rightEdge (ctSize t) (l, i)" and p: "authentic (NodeHash H) L t (Suc l, i div 256)"
    and h: "hashTileRoot (NodeHash H) hs = tileMap t (Suc l, i div 256) ! (i mod 256)"
    and inj: "node_inj (NodeHash H) (verifierInputs H t \<union> set (node_inputs (NodeHash H) L))"
  shows "authentic (NodeHash H) L t (l, i)"
proof -
  let ?n = "ctSize t" and ?node = "NodeHash H" and ?B = "map (subtree (NodeHash H) L l) [i * 256..<i * 256 + 256]"
  have r: "inRange ?n (l, i)" using t k by (auto simp: goodTiles_def)
  note nr = not_rightEdge [OF r nr]
  have wp: "tileWidth ?n (Suc l, i div 256) = min 256 (?n div 256 ^ Suc l - i div 256 * 256)"
    using tileWidth_inRange [OF nr(2) L(2)] by simp
  have "i mod 256 < ?n div 256 ^ Suc l - i div 256 * 256"
    using nr(1) by (metis add.commute div_mult_mod_eq less_diff_conv)
  then have "i mod 256 < tileWidth ?n (Suc l, i div 256)" unfolding wp by simp
  then have "tileMap t (Suc l, i div 256) ! (i mod 256) = subtree ?node L (Suc l) i"
    using p by (simp add: authentic_def authTiles_def)
  also have "\<dots> = hashTileRoot ?node ?B" using nr(3) L(1) by (simp only: subtree_Suc(1))
  finally have hB: "hashTileRoot ?node hs = hashTileRoot ?node ?B" using h by simp
  have w: "tileWidth ?n (l, i) = 256"
  proof -
    have "Suc i * 256 \<le> ?n div 256 ^ l"
    proof -
      have "Suc i \<le> ?n div 256 ^ Suc l" using nr(1) by simp
      then have "Suc i * 256 \<le> ?n div 256 ^ Suc l * 256" by (rule mult_le_mono1)
      also have "\<dots> = ?n div 256 ^ l div 256 * 256" by (simp only: power_Suc2 div_mult2_eq)
      also have "\<dots> \<le> ?n div 256 ^ l" by simp
      finally show ?thesis .
    qed
    then show ?thesis using tileWidth_inRange [OF r L(2)] by simp
  qed
  have lh: "length hs = 256" using t k w by (auto simp: goodTiles_def wellCached_def)
  have "hs = ?B"
  proof (rule hashTileRoot_inj [OF _ _ hB])
    show "hs \<noteq> []" using lh by auto
    show "length hs = length ?B" by (simp add: lh)
    have le: "Suc i * 256 ^ Suc l \<le> length L" using nr(3) unfolding L(1) .
    have "set (node_inputs ?node ?B) \<subseteq> set (node_inputs ?node L)"
      by (rule order_trans [OF subtree_Suc(2) [OF le] block_inputs [OF le]])
    then show "node_inj ?node (set (node_inputs ?node hs) \<union> set (node_inputs ?node ?B))"
      by (intro inj_on_subset [OF inj]) (use verifierInputs_tile [OF k, of H] in auto)
  qed
  then show ?thesis by (simp add: authentic_def authTiles_def w tileMap_cached [OF k])
qed

lemma authenticated_extends: "authenticated H t key \<Longrightarrow> extends t t' \<Longrightarrow> authenticated H t' key"
  unfolding authenticated_def using extends_trans by blast

lemma extends_size [simp]: "extends t t' \<Longrightarrow> ctSize t' = ctSize t"
  by (simp add: extends_def)

lemma extends_cached: "extends t t' \<Longrightarrow> cached t key = Some hs \<Longrightarrow> cached t' key = Some hs"
  unfolding extends_def by (metis)

lemma authenticate_ok:
  assumes "authenticate H src ctxErr t l i = Some (Inr t')" and "goodTiles t" and "inRange (ctSize t) (l, i)"
  shows "extends t t' \<and> goodTiles t' \<and> authenticated H t' (l, i)"
proof -
  let ?P = "\<lambda>H src ctxErr t l i r. goodTiles t \<longrightarrow> inRange (ctSize t) (l, i) \<longrightarrow>
      (case r of Inl e \<Rightarrow> True | Inr t' \<Rightarrow> extends t t' \<and> goodTiles t' \<and> authenticated H t' (l, i))"
  have "?P H src ctxErr t l i r" if "authenticate H src ctxErr t l i = Some r" for r
  proof (rule authenticate.raw_induct [where P = ?P, OF _ that], goal_cases)
    case (1 auth H src ctxErr t l i r)
    show ?case
    proof (cases "rightEdge (ctSize t) (l, i) \<or> isl r")
      case True
      then consider "isl r" | "r = Inr t" "rightEdge (ctSize t) (l, i)"
        using 1(2) by (cases r) (auto simp: rightEdge_def Let_def split: option.splits)
      then show ?thesis
        by cases (auto simp: authenticated_def boundTiles_def split: sum.splits)
    next
      case False
      then obtain t' where r: "r = Inr t'" by (cases r) auto
      from False 1(2) obtain hs t1 ps t2 where f1: "fetch src ctxErr t (l, i) = Inr (hs, t1)"
        and f2: "fetch src ctxErr t1 (Suc l, i div 256) = Inr (ps, t2)"
        and h: "hashTileRoot (NodeHash H) hs = ps ! (i mod 256)"
        and rec: "auth H src ctxErr t2 (Suc l) (i div 256) = Some (Inr t')"
        by (auto simp: r rightEdge_def Let_def split: option.splits sum.splits if_splits)
      show ?thesis
      proof (clarsimp simp: r)
        assume g: "goodTiles t" and ir: "inRange (ctSize t) (l, i)"
        note nr = not_rightEdge [OF ir] False
        have s1: "ctSize t1 = ctSize t" using fetch_ok(1) [OF f1] by simp
        have g1: "goodTiles t1" by (rule fetch_good [OF f1 g ir])
        have ir2: "inRange (ctSize t1) (Suc l, i div 256)" using nr s1 by simp
        have g2: "goodTiles t2" by (rule fetch_good [OF f2 g1 ir2])
        have s2: "ctSize t2 = ctSize t" using fetch_ok(1) [OF f2] s1 by simp
        from 1(1) [OF rec] g2 ir2 s1 s2 have e: "extends t2 t'" "goodTiles t'" "authenticated H t' (Suc l, i div 256)"
          by simp_all
        have ex: "extends t t'" using fetch_ok(1) [OF f1] fetch_ok(1) [OF f2] e(1) extends_trans by blast
        have c: "cached t' (l, i) = Some hs" "cached t' (Suc l, i div 256) = Some ps"
          using extends_cached fetch_ok(2) [OF f1] fetch_ok(1) [OF f2] e(1) fetch_ok(2) [OF f2] by blast+
        have "authenticated H t' (l, i)"
          unfolding authenticated_def
        proof (intro allI impI)
          fix T L assume T: "extends t' T" "boundTiles H L T"
          have cT: "cached T (l, i) = Some hs" "cached T (Suc l, i div 256) = Some ps"
            using c extends_cached [OF T(1)] by blast+
          have "authentic (NodeHash H) L T (Suc l, i div 256)"
            using e(3) T cT by (simp add: authenticated_def)
          moreover have "\<not> rightEdge (ctSize T) (l, i)" using nr T(1) ex by simp
          ultimately show "authentic (NodeHash H) L T (l, i)"
            using T(2) h cT by (intro tile_binding [OF _ _ _ cT(1)]) (auto simp: boundTiles_def tileMap_cached)
        qed
        with ex e(2) show "extends t t' \<and> goodTiles t' \<and> authenticated H t' (l, i)" by simp
      qed
    qed
  qed
  from this [OF assms(1)] assms(2,3) show ?thesis by simp
qed

lemma authenticateAll_ok:
  assumes "authenticateAll H src ctxErr t keys = Some (Inr t')" and "goodTiles t"
    and "\<forall>key \<in> set keys. inRange (ctSize t) key"
  shows "extends t t' \<and> goodTiles t' \<and> (\<forall>key \<in> set keys. authenticated H t' key)"
  using assms
proof (induction keys arbitrary: t)
  case (Cons key keys)
  from Cons.prems(1) obtain t1 where a: "authenticate H src ctxErr t (fst key) (snd key) = Some (Inr t1)"
    and rec: "authenticateAll H src ctxErr t1 keys = Some (Inr t')"
    by (auto split: option.splits sum.splits)
  from authenticate_ok [OF a Cons.prems(2)] Cons.prems(3)
  have k: "extends t t1" "goodTiles t1" "authenticated H t1 key" by auto
  from Cons.IH [OF rec k(2)] Cons.prems(3) k(1)
  have "extends t1 t'" "goodTiles t'" "\<forall>key \<in> set keys. authenticated H t' key" by simp_all
  with k authenticated_extends extends_trans show ?case by (metis set_ConsD)
qed simp

lemma rightEdge_digit: "rightEdge n (l, i) \<longleftrightarrow> digit n l \<noteq> 0 \<and> i = aboveDigit n l"
  by (simp add: rightEdge_def digit_def aboveDigit_def power_Suc2 div_mult2_eq del: power_Suc)

lemma aboveDigit_digit: "n div 256 ^ j = aboveDigit n j * 256 + digit n j"
proof -
  have "aboveDigit n j = n div 256 ^ j div 256" by (simp only: aboveDigit_def power_Suc2 div_mult2_eq)
  then show ?thesis by (simp add: digit_def)
qed

lemma rightEdge_width:
  assumes "digit n j \<noteq> 0" and "n < 2 ^ 64"
  shows "inRange n (j, aboveDigit n j)" and "tileWidth n (j, aboveDigit n j) = digit n j"
proof -
  show r: "inRange n (j, aboveDigit n j)" using assms(1) aboveDigit_digit [of n j] by (simp add: inRange_def)
  have "digit n j \<le> 256" by (simp add: digit_def less_imp_le)
  then show "tileWidth n (j, aboveDigit n j) = digit n j"
    using tileWidth_inRange [OF r assms(2)] aboveDigit_digit [of n j] by simp
qed

lemma rootLoop_Some:
  "rootLoop H src ctxErr level sz acc t = Inr (r, t') \<Longrightarrow> 0 < sz \<or> acc \<noteq> None \<Longrightarrow> r \<noteq> None"
proof (induction H src ctxErr level sz acc t rule: rootLoop.induct)
  case (1 H src ctxErr level sz acc t)
  show ?case
  proof (cases "sz = 0")
    case True
    with 1 show ?thesis by (simp add: rootLoop.simps)
  next
    case nz: False
    show ?thesis
    proof (cases "sz mod 256 = 0")
      case True
      then have "0 < sz div 256" using nz by (metis div_eq_0_iff mod_less neq0_conv zero_neq_numeral)
      with 1 nz True show ?thesis by (auto simp: rootLoop.simps [of H src ctxErr level])
    next
      case False
      with 1 nz show ?thesis
        by (auto simp: rootLoop.simps [of H src ctxErr level] Let_def rbind_Inr_iff)
    qed
  qed
qed

lemma root_ok:
  assumes "root H src ctxErr t sz = Inr (r, t')" and "goodTiles t" and "sz \<le> ctSize t" and "0 < sz"
  shows "extends t t' \<and> goodTiles t' \<and> digitsCached t' 0 sz
     \<and> foldRoot (NodeHash H) (digitNodes (tileMap t') 0 sz) None = Some r"
proof -
  from assms(1) obtain a where a: "rootLoop H src ctxErr 0 sz None t = Inr (a, t')"
    and r: "r = (case a of None \<Rightarrow> zeroHash | Some x \<Rightarrow> x)"
    by (auto simp: root_def rbind_Inr_iff split: prod.splits)
  have "a \<noteq> None" using rootLoop_Some [OF a] assms(4) by simp
  with rootLoop_ok [OF a assms(2)] assms(3) r show ?thesis by auto
qed

lemma digitNodes_extends:
  assumes "extends t t'" and "digitsCached t 0 sz"
  shows "digitNodes (tileMap t') 0 sz = digitNodes (tileMap t) 0 sz"
proof (rule digitNodes_cong)
  fix j assume "digit sz j \<noteq> 0"
  then have "cached t (0 + j, aboveDigit sz j) \<noteq> None" using assms(2) by (simp add: digitsCached_def)
  from tileMap_extends [OF assms(1) this]
  show "take (digit sz j) (tileMap t' (0 + j, aboveDigit sz j)) = take (digit sz j) (tileMap t (0 + j, aboveDigit sz j))"
    by simp
qed

lemma candidate_edge_authentic:
  assumes L: "length L = ctSize t" "ctSize t < 2 ^ 64" "0 < ctSize t" and t: "goodTiles t" "digitsCached t 0 (ctSize t)"
    and r: "foldRoot (NodeHash H) (digitNodes (tileMap t) 0 (ctSize t)) None = Some (hashTileRoot (NodeHash H) L)"
    and inj: "node_inj (NodeHash H) (verifierInputs H t \<union> set (node_inputs (NodeHash H) L))"
    and e: "rightEdge (ctSize t) (l, i)"
  shows "authentic (NodeHash H) L t (l, i)"
proof -
  let ?n = "ctSize t" and ?node = "NodeHash H"
  let ?ws = "digitNodes (tileMap t) 0 ?n" and ?vs = "digitNodes (authTiles ?node L) 0 ?n"
  have tl: "length (tileMap t (j, aboveDigit ?n j)) = digit ?n j" if "digit ?n j \<noteq> 0" for j
  proof -
    from that t(2) obtain hs where hs: "cached t (j, aboveDigit ?n j) = Some hs" by (auto simp: digitsCached_def)
    with t(1) have "length hs = tileWidth ?n (j, aboveDigit ?n j)" unfolding goodTiles_def wellCached_def by metis
    then show ?thesis using rightEdge_width(2) [OF that L(2)] by (simp add: tileMap_cached [OF hs])
  qed
  have d: "digit ?n j \<le> 256" for j by (simp add: digit_def less_imp_le)
  have len: "map length ?ws = map length ?vs"
    by (rule digitNodes_lengths) (use d in \<open>simp add: tl authTiles_def\<close>)
  have p: "foldRoot ?node ?vs None = Some (hashTileRoot ?node L)" "set (foldInputs ?node ?vs None) \<subseteq> set (node_inputs ?node L)"
    using foldRoot_prefix [of ?n L ?node] L by simp_all
  have "?ws = ?vs \<and> (None :: bytes option) = None"
  proof (rule foldRoot_inj [OF len refl])
    show "foldRoot ?node ?ws None = foldRoot ?node ?vs None" using r p(1) by simp
    show "node_inj ?node (set (foldInputs ?node ?ws None) \<union> set (foldInputs ?node ?vs None))"
      by (rule inj_on_subset [OF inj]) (use p(2) in \<open>auto simp: verifierInputs_def\<close>)
  qed
  then have eq: "?ws = ?vs" by simp
  from e have j: "digit ?n l \<noteq> 0" "i = aboveDigit ?n l" by (simp_all add: rightEdge_digit)
  have "take (digit ?n l) (tileMap t (l, i)) = take (digit ?n l) (authTiles ?node L (l, i))"
    using digitNodes_eqD [OF eq, of l] by (simp add: j)
  then show ?thesis using tl [OF j(1)] rightEdge_width(2) [OF j(1) L(2)] by (simp add: authentic_def j(2))
qed

lemma prefix_root_authentic:
  assumes L: "length L = ctSize t" "ctSize t < 2 ^ 64" and o: "0 < sz" "sz \<le> ctSize t"
    and a: "\<And>j. digit sz j \<noteq> 0 \<Longrightarrow> authentic node L t (j, aboveDigit sz j)"
  shows "foldRoot node (digitNodes (tileMap t) 0 sz) None = Some (hashTileRoot node (take sz L))"
proof -
  have "digitNodes (tileMap t) 0 sz = digitNodes (authTiles node L) 0 sz"
  proof (rule digitNodes_cong)
    fix j assume d: "digit sz j \<noteq> 0"
    have le: "aboveDigit sz j * 256 + digit sz j \<le> ctSize t div 256 ^ j"
      using aboveDigit_digit [of sz j] div_le_mono [OF o(2), of "256 ^ j"] by simp
    then have ir: "inRange (ctSize t) (j, aboveDigit sz j)" using d by (simp add: inRange_def)
    have "digit sz j \<le> 256" by (simp add: digit_def less_imp_le)
    then have "digit sz j \<le> tileWidth (ctSize t) (j, aboveDigit sz j)"
      using tileWidth_inRange [OF ir L(2)] le by simp
    then show "take (digit sz j) (tileMap t (0 + j, aboveDigit sz j)) = take (digit sz j) (authTiles node L (0 + j, aboveDigit sz j))"
      using a [OF d] by (simp add: authentic_def min_absorb1)
  qed
  then show ?thesis using foldRoot_prefix(1) [of sz L node] o L by simp
qed

section \<open>Properties\<close>

lemma verifyTiles_ok:
  assumes "verifyTiles H src ctxErr prefix old next = Some (Inr t)"
  obtains t1 t2 where "root H src ctxErr \<lparr>ctLogPrefix = prefix, ctSize = cpTreeSize next, ctTiles = []\<rparr> (cpTreeSize next)
      = Inr (cpRootHash next, t1)"
    and "root H src ctxErr t1 (cpTreeSize old) = Inr (cpRootHash old, t2)"
    and "authenticateAll H src ctxErr t2 (map fst (ctTiles t2)) = Some (Inr t)"
  using assms by (auto simp: verifyTiles_def Let_def split: if_splits sum.splits option.splits)

lemma goodTiles_empty [simp]: "goodTiles \<lparr>ctLogPrefix = p, ctSize = n, ctTiles = []\<rparr>"
  by (simp add: goodTiles_def wellCached_def)

text \<open>
  C7. A checkpoint advance accepted from hash tiles is append-only. Whatever a server
  returned for the tiles, if \<open>verifyTileConsistency\<close> accepts them then every tree of the
  candidate's size with the candidate's root has the trusted root as the root of its prefix
  of the trusted size, unless two different pairs hashed by the verifier or for that tree
  collide. In particular no forged tile below the right edge is accepted.
\<close>

theorem tile_consistency_append_only:
  assumes "verifyTiles H src ctxErr prefix old next = Some (Inr t)"
    and "length L = cpTreeSize next" and "hashTileRoot (NodeHash H) L = cpRootHash next"
    and "0 < cpTreeSize old" and "cpTreeSize old \<le> cpTreeSize next" and "cpTreeSize next < 2 ^ 64"
    and "inj_on (\<lambda>(l, r). NodeHash H l r) (verifierInputs H t \<union> set (node_inputs (NodeHash H) L))"
  shows "verifyTileConsistency H src ctxErr prefix old next = Some (Inr ())
    \<and> hashTileRoot (NodeHash H) (take (cpTreeSize old) L) = cpRootHash old"
proof -
  from assms(1) obtain t1 t2 where r1: "root H src ctxErr \<lparr>ctLogPrefix = prefix, ctSize = cpTreeSize next, ctTiles = []\<rparr>
        (cpTreeSize next) = Inr (cpRootHash next, t1)"
    and r2: "root H src ctxErr t1 (cpTreeSize old) = Inr (cpRootHash old, t2)"
    and au: "authenticateAll H src ctxErr t2 (map fst (ctTiles t2)) = Some (Inr t)"
    by (rule verifyTiles_ok)
  from root_ok [OF r1] assms(4,5) have o1: "ctSize t1 = cpTreeSize next" "goodTiles t1" "digitsCached t1 0 (cpTreeSize next)"
    "foldRoot (NodeHash H) (digitNodes (tileMap t1) 0 (cpTreeSize next)) None = Some (cpRootHash next)"
    by (auto dest: extends_size)
  from root_ok [OF r2 o1(2)] assms(4,5) o1(1) have o2: "extends t1 t2" "goodTiles t2" "digitsCached t2 0 (cpTreeSize old)"
    "foldRoot (NodeHash H) (digitNodes (tileMap t2) 0 (cpTreeSize old)) None = Some (cpRootHash old)"
    by simp_all
  have "\<forall>key \<in> set (map fst (ctTiles t2)). inRange (ctSize t2) key"
    using o2(2) unfolding goodTiles_def by (metis list.set_map map_of_eq_None_iff)
  with authenticateAll_ok [OF au o2(2)] have o3: "extends t2 t" "goodTiles t"
    "\<forall>key \<in> set (map fst (ctTiles t2)). authenticated H t key" by simp_all
  have e1: "extends t1 t" using o2(1) o3(1) by (rule extends_trans)
  have n: "ctSize t = cpTreeSize next" using e1 o1(1) by simp
  have dc: "digitsCached t 0 (ctSize t)"
    using o1(3) extends_cached [OF e1] n unfolding digitsCached_def by (metis not_None_eq)
  have ra: "authentic (NodeHash H) L t (l, i)" if "rightEdge (ctSize t) (l, i)" for l i
    by (rule candidate_edge_authentic [OF _ _ _ o3(2) dc _ assms(7) that])
      (use assms o1(4) digitNodes_extends [OF e1 o1(3)] n in simp_all)
  have bt: "boundTiles H L t"
    unfolding boundTiles_def using assms(2,6,7) n o3(2) ra by (auto simp del: not_None_eq)
  have au': "authentic (NodeHash H) L t (j, aboveDigit (cpTreeSize old) j)" if "digit (cpTreeSize old) j \<noteq> 0" for j
  proof -
    from that o2(3) obtain hs where hs: "cached t2 (j, aboveDigit (cpTreeSize old) j) = Some hs"
      by (auto simp: digitsCached_def)
    then have "(j, aboveDigit (cpTreeSize old) j) \<in> set (map fst (ctTiles t2))" by (force dest: map_of_SomeD)
    then have "authenticated H t (j, aboveDigit (cpTreeSize old) j)" using o3(3) by blast
    with bt extends_cached [OF o3(1) hs] show ?thesis
      unfolding authenticated_def by (metis extends_refl option.distinct(1))
  qed
  have "foldRoot (NodeHash H) (digitNodes (tileMap t) 0 (cpTreeSize old)) None = Some (hashTileRoot (NodeHash H) (take (cpTreeSize old) L))"
    by (rule prefix_root_authentic) (use assms n au' in auto)
  with o2(4) digitNodes_extends [OF o3(1) o2(3)] have "hashTileRoot (NodeHash H) (take (cpTreeSize old) L) = cpRootHash old"
    by simp
  then show ?thesis using assms(1) by (simp add: verifyTileConsistency_def)
qed

lemma authenticate_total:
  assumes "goodTiles t" and "inRange (ctSize t) (l, i)"
  shows "authenticate H src ctxErr t l i \<noteq> None"
  using assms
proof (induction "ctSize t div 256 ^ l" arbitrary: t l i rule: less_induct)
  case less
  show ?case
  proof (cases "rightEdge (ctSize t) (l, i) \<or> ctxErr \<noteq> None")
    case True
    then show ?thesis by (subst authenticate.simps) (auto simp: rightEdge_def split: option.splits)
  next
    case False
    then have c: "ctxErr = None" and nr: "\<not> rightEdge (ctSize t) (l, i)" by auto
    note nr' = not_rightEdge [OF less.prems(2) nr]
    have rec: "authenticate H src None t2 (Suc l) (i div 256) \<noteq> None"
      if f: "fetch src None t (l, i) = Inr (hs, t1)" "fetch src None t1 (Suc l, i div 256) = Inr (ps, t2)" for hs t1 ps t2
    proof -
      have s: "ctSize t1 = ctSize t" "ctSize t2 = ctSize t" using fetch_ok(1) [OF f(1)] fetch_ok(1) [OF f(2)] by simp_all
      have g: "goodTiles t2"
        by (rule fetch_good [OF f(2)]) (use fetch_good [OF f(1) less.prems] nr'(2) s in simp_all)
      have "0 < ctSize t div 256 ^ l" using less.prems(2) by (auto simp: inRange_def)
      then have "ctSize t div 256 ^ l div 256 < ctSize t div 256 ^ l" by (intro div_less_dividend) simp_all
      then have "ctSize t2 div 256 ^ Suc l < ctSize t div 256 ^ l" by (simp only: s power_Suc2 div_mult2_eq)
      from less.hyps [OF this g] nr'(2) s c show ?thesis by simp
    qed
    show ?thesis
      using rec c nr by (subst authenticate.simps) (auto simp: Let_def split: sum.splits)
  qed
qed

lemma verifyTileConsistency_total:
  assumes "cpTreeSize old \<le> cpTreeSize next" and "0 < cpTreeSize old"
  shows "verifyTileConsistency H src ctxErr prefix old next \<noteq> None"
proof -
  have all: "authenticateAll H src ctxErr t keys \<noteq> None" if "goodTiles t" "\<forall>key \<in> set keys. inRange (ctSize t) key" for t keys
    using that
  proof (induction keys arbitrary: t)
    case (Cons key keys)
    have "authenticate H src ctxErr t (fst key) (snd key) \<noteq> None"
      using Cons.prems by (intro authenticate_total) auto
    moreover have "authenticateAll H src ctxErr t' keys \<noteq> None"
      if "authenticate H src ctxErr t (fst key) (snd key) = Some (Inr t')" for t'
      using authenticate_ok [OF that Cons.prems(1)] Cons.prems(2) by (intro Cons.IH) auto
    ultimately show ?case by (auto split: sum.splits)
  qed simp
  have all2: "authenticateAll H src ctxErr t2 (map fst (ctTiles t2)) \<noteq> None"
    if "root H src ctxErr \<lparr>ctLogPrefix = prefix, ctSize = cpTreeSize next, ctTiles = []\<rparr> (cpTreeSize next) = Inr (r1, t1)"
      and "root H src ctxErr t1 (cpTreeSize old) = Inr (r2, t2)" for r1 t1 r2 t2
  proof -
    from root_ok [OF that(1)] assms have "goodTiles t1" "ctSize t1 = cpTreeSize next" by (auto dest: extends_size)
    with root_ok [OF that(2)] assms have g: "goodTiles t2" by simp
    then have "\<forall>key \<in> set (map fst (ctTiles t2)). inRange (ctSize t2) key"
      unfolding goodTiles_def by (metis list.set_map map_of_eq_None_iff)
    with g show ?thesis by (rule all)
  qed
  have "verifyTiles H src ctxErr prefix old next \<noteq> None"
  proof (cases "root H src ctxErr \<lparr>ctLogPrefix = prefix, ctSize = cpTreeSize next, ctTiles = []\<rparr> (cpTreeSize next)")
    case (Inr p)
    obtain r1 t1 where p: "p = (r1, t1)" by fastforce
    show ?thesis
    proof (cases "root H src ctxErr t1 (cpTreeSize old)")
      case (Inr q)
      obtain r2 t2 where q: "q = (r2, t2)" by fastforce
      have "authenticateAll H src ctxErr t2 (map fst (ctTiles t2)) \<noteq> None"
        using all2 Inr \<open>root H src ctxErr \<lparr>ctLogPrefix = prefix, ctSize = cpTreeSize next, ctTiles = []\<rparr> (cpTreeSize next) = Inr p\<close>
        unfolding p q by blast
      then show ?thesis
        using Inr \<open>root H src ctxErr \<lparr>ctLogPrefix = prefix, ctSize = cpTreeSize next, ctTiles = []\<rparr> (cpTreeSize next) = Inr p\<close>
        by (auto simp: verifyTiles_def Let_def p q split: option.splits sum.splits)
    qed (use Inr in \<open>simp add: verifyTiles_def Let_def p\<close>)
  qed (simp add: verifyTiles_def)
  then show ?thesis by (simp add: verifyTileConsistency_def)
qed

text \<open>
  C20. The tile check always ends: for a trusted size up to the candidate's the climb of
  \<open>authenticate\<close> reaches the right edge of the candidate tree, whatever the server returns, so
  the check gives an answer.
\<close>

theorem tile_consistency_terminates:
  assumes "cpTreeSize old \<le> cpTreeSize next" and "0 < cpTreeSize old"
  shows "verifyTileConsistency H src ctxErr prefix old next \<noteq> None"
  using assms by (rule verifyTileConsistency_total)

lemma sample_paths: "FormatUint 0 = ''0''" "FormatUint 3 = ''3''" "tileNumber 0 = ''000''"
  by code_simp+

lemma sample_fetch:
  "fetch sample_source None \<lparr>ctLogPrefix = ''p'', ctSize = 3, ctTiles = []\<rparr> (0, 0) = Inr (sample_leaves, sample_tiles)"
proof -
  have w: "tileWidth 3 (0, 0) = 3" by (simp add: tileWidth_def)
  have "fetchExact sample_source None ''p/tile/0/000.p/3'' 3 = Inr (concat sample_leaves)"
    by (simp add: fetchExact_def fetchBounded_def sample_source_def sample_leaves_def)
  moreover have "splitHashes 3 (concat sample_leaves) = sample_leaves" by code_simp
  ultimately show ?thesis by (simp add: fetch_def Let_def w sample_paths sample_tiles_def)
qed

lemma sample_fetch_cached: "fetch sample_source None sample_tiles (0, 0) = Inr (sample_leaves, sample_tiles)"
  by (simp add: fetch_def sample_tiles_def)

lemma sample_verifyTiles:
  "verifyTiles sample_hashes sample_source None ''p'' sample_old sample_next = Some (Inr sample_tiles)"
proof -
  have "root sample_hashes sample_source None \<lparr>ctLogPrefix = ''p'', ctSize = 3, ctTiles = []\<rparr> 3
      = Inr (hashTileRoot (NodeHash sample_hashes) sample_leaves, sample_tiles)"
    by (simp add: root_def rootLoop.simps sample_fetch Let_def) (simp add: sample_leaves_def)
  moreover have "root sample_hashes sample_source None sample_tiles 2
      = Inr (hashTileRoot (NodeHash sample_hashes) (take 2 sample_leaves), sample_tiles)"
    by (simp add: root_def rootLoop.simps sample_fetch_cached Let_def)
  moreover have "authenticateAll sample_hashes sample_source None sample_tiles [(0, 0)] = Some (Inr sample_tiles)"
    by (simp add: authenticate.simps sample_tiles_def)
  ultimately show ?thesis
    by (simp add: verifyTiles_def sample_old_def sample_next_def sample_source_def sample_tiles_def Let_def)
qed

lemma sample_node_inj:
  "\<forall>p \<in> S. length (snd p) = 32 \<Longrightarrow> inj_on (\<lambda>(l, r). NodeHash sample_hashes l r) S"
proof (rule inj_onI, clarify)
  fix a b c d
  assume l: "\<forall>p \<in> S. length (snd p) = 32" "(a, b) \<in> S" "(c, d) \<in> S" and e: "NodeHash sample_hashes a b = NodeHash sample_hashes c d"
  from l have "length b = length d" by (metis snd_conv)
  moreover have "a @ b = c @ d" using e by (simp add: sample_hashes_def)
  ultimately show "a = c \<and> b = d" by simp
qed

lemma sample_inputs:
  "list_all (\<lambda>p. length (snd p) = 32)
     (foldInputs (NodeHash sample_hashes) (digitNodes (tileMap sample_tiles) 0 3) None
      @ node_inputs (NodeHash sample_hashes) sample_leaves)"
  by code_simp

theorem tile_consistency_append_only_witness:
  "verifyTileConsistency sample_hashes sample_source None ''p'' sample_old sample_next = Some (Inr ())
    \<and> hashTileRoot (NodeHash sample_hashes) (take (cpTreeSize sample_old) sample_leaves) = cpRootHash sample_old"
proof (rule tile_consistency_append_only [OF sample_verifyTiles])
  show "inj_on (\<lambda>(l, r). NodeHash sample_hashes l r)
      (verifierInputs sample_hashes sample_tiles \<union> set (node_inputs (NodeHash sample_hashes) sample_leaves))"
    by (rule sample_node_inj) (use sample_inputs in \<open>auto simp: list_all_iff verifierInputs_def sample_tiles_def\<close>)
qed (simp_all add: sample_next_def sample_old_def sample_leaves_def)

theorem tile_consistency_terminates_witness:
  "verifyTileConsistency sample_hashes sample_source None ''p'' sample_old sample_next \<noteq> None"
  by (rule tile_consistency_terminates) (simp_all add: sample_next_def sample_old_def)

end
