(* ===== verification/Quorum_Policy.thy ===== *)
theory Quorum_Policy
  imports Merkle_Tree Log_Reference Go_Unicode "HOL-Library.Multiset"
begin

text \<open>
  Checkpoint policies of the \<open>c2sp-tlog\<close> binding: the policy language
  (\<open>log/c2sptlog/policy_parser.go\<close>), its quorum rules, and the acceptance of a signed
  checkpoint (\<open>log/c2sptlog/proof.go\<close>).

  Signed notes come from packages outside the repository; a verifier is the name and key hash
  the code reads from it, and these functions are parameters: \<open>newVerifier\<close> and
  \<open>newCosigVerifier\<close> (keys in policies), \<open>cosigTime\<close> (the timestamp of a cosignature) and
  \<open>parseCheckpoint\<close> (a signed checkpoint, verified for an origin and verifiers).

  The lemmas show that the insertion sort sorts, that a parsed policy is well-formed, that a
  rule is satisfied only by at least its minimum number of signatures of its witnesses, and
  what holds of an accepted checkpoint.
\<close>

section \<open>Quorum rules\<close>

record verifier =
  vName :: string
  vKeyHash :: nat

record signature =
  sgName :: string
  sgHash :: nat
  sgBase64 :: string

datatype checkpointQuorumRule = Rule
  (qrNone: bool)
  (qrVerifier: "verifier option")
  (qrThreshold: nat)
  (qrMembers: "checkpointQuorumRule list")

definition signedBy :: "verifier \<Rightarrow> signature \<Rightarrow> bool" where
  "signedBy v s = (sgName s = vName v \<and> sgHash s = vKeyHash v)"

text \<open>\<open>evaluate\<close>: \<open>None\<close> when the rule is not satisfied, else the timestamps.\<close>

fun evaluate :: "(signature \<Rightarrow> gotime option) \<Rightarrow> signature list \<Rightarrow> checkpointQuorumRule \<Rightarrow> gotime list option" where
  "evaluate cosigTime sigs (Rule none verifier threshold members) =
     (if none then Some []
      else (case verifier of
              Some v \<Rightarrow>
                (case find (signedBy v) sigs of
                   None \<Rightarrow> None
                 | Some sig \<Rightarrow> map_option (\<lambda>ts. [ts]) (cosigTime sig))
            | None \<Rightarrow>
                (let results = map the (filter (\<lambda>r. r \<noteq> None) (map (\<lambda>m. evaluate cosigTime sigs m) members))
                 in if length results < threshold then None
                    else Some (concat (take threshold results)))))"

text \<open>\<open>sortInts\<close>: the inner loop moves the element at \<open>j\<close> down, the outer loop runs over \<open>i\<close>.\<close>

fun insertDown :: "int list \<Rightarrow> nat \<Rightarrow> int list" where
  "insertDown values 0 = values"
| "insertDown values (Suc j) =
     (if values ! Suc j < values ! j
      then insertDown (values[Suc j := values ! j, j := values ! Suc j]) j
      else values)"

definition sortInts :: "int list \<Rightarrow> int list" where
  "sortInts values = foldl insertDown values [1..<length values]"

fun minimumSignatures :: "checkpointQuorumRule \<Rightarrow> int" where
  "minimumSignatures (Rule none verifier threshold members) =
     (if none then 0
      else if verifier \<noteq> None then 1
      else sum_list (take threshold (sortInts (map minimumSignatures members))))"

section \<open>The policy language\<close>

text \<open>
  \<open>strings.Fields\<close>, and the lines of a \<open>bufio.Scanner\<close>. \<open>cur\<close> is the field being read, reversed.
\<close>

function fieldsLoop :: "string \<Rightarrow> string \<Rightarrow> string list" where
  "fieldsLoop cur s =
     (case s of
        [] \<Rightarrow> (if cur = [] then [] else [rev cur])
      | c # cs \<Rightarrow>
          if spaceLen s \<noteq> 0
          then (if cur = [] then [] else [rev cur]) @ fieldsLoop [] (drop (spaceLen s) s)
          else fieldsLoop (c # cur) cs)"
  by pat_completeness auto
termination
  by (relation "measure (\<lambda>(cur, s). length s)") auto

declare fieldsLoop.simps [simp del]

definition Fields :: "string \<Rightarrow> string list" where
  "Fields s = fieldsLoop [] s"

text \<open>
  The lines of the document: the parts between line feeds, without a last empty part. A line
  of 65536 bytes or more makes the scanner stop with an error.
\<close>

definition scanLines :: "bytes \<Rightarrow> string list" where
  "scanLines doc =
     (let parts = Split doc (CHR 0x0A) in if last parts = [] then butlast parts else parts)"

definition lineFields :: "string \<Rightarrow> string list" where
  "lineFields line =
     Fields (case IndexByte line (CHR ''#'') of None \<Rightarrow> line | Some i \<Rightarrow> take i line)"

definition invalidPolicyName :: "string \<Rightarrow> bool" where
  "invalidPolicyName name =
     (name = '''' \<or> name \<in> {''log'', ''witness'', ''group'', ''quorum'', ''any'', ''all'', ''none''})"

definition parsePolicyThreshold :: "string \<Rightarrow> nat \<Rightarrow> sdk_error + nat" where
  "parsePolicyThreshold value memberCount =
     rbind (if value = ''any'' then Inr 1
            else if value = ''all'' then Inr memberCount
            else (case ParseUint value 31 of
                    None \<Rightarrow> Inl (PlainError ''invalid group threshold'' None)
                  | Some n \<Rightarrow> Inr n))
       (\<lambda>threshold. if threshold < 1 \<or> threshold > memberCount
                   then Inl (PlainError ''group threshold outside member count'' None)
                   else Inr threshold)"

text \<open>\<open>strings.SplitN(key, "+", 3)\<close> has three parts when the key has two plus signs.\<close>

definition signedNotePublicKey :: "string \<Rightarrow> sdk_error + bytes" where
  "signedNotePublicKey key =
     (case Cut key (CHR ''+'') of
        None \<Rightarrow> Inl (PlainError ''invalid signed-note verifier key'' None)
      | Some (_, rest) \<Rightarrow>
          (case Cut rest (CHR ''+'') of
             None \<Rightarrow> Inl (PlainError ''invalid signed-note verifier key'' None)
           | Some (_, enc) \<Rightarrow>
               (case StdDecode enc of
                  None \<Rightarrow> Inl (PlainError ''invalid signed-note verifier key'' None)
                | Some encoded \<Rightarrow>
                    if length encoded < 2 then Inl (PlainError ''invalid signed-note verifier key'' None)
                    else Inr (tl encoded))))"

record policyState =
  psComponents :: "checkpointQuorumRule gomap"
  psLogVerifier :: "verifier option"
  psWitnesses :: "verifier list"
  psTrustedPublicKeys :: "bytes list"
  psQuorum :: "checkpointQuorumRule option"

fun groupMembers :: "checkpointQuorumRule gomap \<Rightarrow> string list \<Rightarrow> string list \<Rightarrow> sdk_error + checkpointQuorumRule list" where
  "groupMembers components seen [] = Inr []"
| "groupMembers components seen (memberName # rest) =
     (if memberName \<in> set seen then Inl (PlainError ''group members must be distinct'' None)
      else (case map_of components memberName of
              None \<Rightarrow> Inl (PlainError ''group references an unknown or later component'' None)
            | Some member \<Rightarrow>
                rbind (groupMembers components (memberName # seen) rest) (\<lambda>ms. Inr (member # ms))))"

definition policyLog :: "(string \<Rightarrow> verifier option) \<Rightarrow> string list \<Rightarrow> policyState \<Rightarrow> sdk_error + policyState" where
  "policyLog newVerifier flds s =
     (if length flds \<noteq> 2 \<and> length flds \<noteq> 3
      then Inl (PlainError ''log requires a verifier key and optional URL'' None)
      else if psLogVerifier s \<noteq> None
      then Inl (PlainError ''verification policy requires exactly one log key'' None)
      else (case newVerifier (flds ! 1) of
              None \<Rightarrow> Inl (PlainError ''invalid log verifier key'' None)
            | Some v \<Rightarrow>
                (case signedNotePublicKey (flds ! 1) of
                   Inl _ \<Rightarrow> Inl (PlainError ''invalid log verifier key'' None)
                 | Inr publicKey \<Rightarrow>
                     Inr (s\<lparr>psLogVerifier := Some v, psTrustedPublicKeys := psTrustedPublicKeys s @ [publicKey]\<rparr>))))"

definition policyWitness :: "(string \<Rightarrow> verifier option) \<Rightarrow> string list \<Rightarrow> policyState \<Rightarrow> sdk_error + policyState" where
  "policyWitness newCosigVerifier flds s =
     (if length flds \<noteq> 3 \<and> length flds \<noteq> 4
      then Inl (PlainError ''witness requires name, verifier key, and optional URL'' None)
      else if invalidPolicyName (flds ! 1) then Inl (PlainError ''invalid witness name'' None)
      else if map_of (psComponents s) (flds ! 1) \<noteq> None
      then Inl (PlainError ''duplicate witness or group name'' None)
      else (case newCosigVerifier (flds ! 2) of
              None \<Rightarrow> Inl (PlainError ''invalid witness verifier key'' None)
            | Some v \<Rightarrow>
                (case signedNotePublicKey (flds ! 2) of
                   Inl _ \<Rightarrow> Inl (PlainError ''invalid witness verifier key'' None)
                 | Inr publicKey \<Rightarrow>
                     Inr (s\<lparr>psWitnesses := psWitnesses s @ [v],
                            psTrustedPublicKeys := psTrustedPublicKeys s @ [publicKey],
                            psComponents := AList.update (flds ! 1) (Rule False (Some v) 0 []) (psComponents s)\<rparr>))))"

definition policyGroup :: "string list \<Rightarrow> policyState \<Rightarrow> sdk_error + policyState" where
  "policyGroup flds s =
     (if length flds < 4 then Inl (PlainError ''group requires name, threshold, and members'' None)
      else if invalidPolicyName (flds ! 1) then Inl (PlainError ''invalid group name'' None)
      else if map_of (psComponents s) (flds ! 1) \<noteq> None
      then Inl (PlainError ''duplicate witness or group name'' None)
      else rbind (groupMembers (psComponents s) [] (drop 3 flds)) (\<lambda>members.
             rbind (parsePolicyThreshold (flds ! 2) (length members)) (\<lambda>threshold.
               Inr (s\<lparr>psComponents :=
                        AList.update (flds ! 1) (Rule False None threshold members) (psComponents s)\<rparr>))))"

definition policyQuorum :: "string list \<Rightarrow> policyState \<Rightarrow> sdk_error + policyState" where
  "policyQuorum flds s =
     (if length flds \<noteq> 2 \<or> psQuorum s \<noteq> None
      then Inl (PlainError ''policy requires exactly one quorum directive'' None)
      else if flds ! 1 = ''none'' then Inr (s\<lparr>psQuorum := Some (Rule True None 0 [])\<rparr>)
      else (case map_of (psComponents s) (flds ! 1) of
              None \<Rightarrow> Inl (PlainError ''quorum references an unknown or later component'' None)
            | Some q \<Rightarrow> Inr (s\<lparr>psQuorum := Some q\<rparr>)))"

definition policyDirective ::
  "(string \<Rightarrow> verifier option) \<Rightarrow> (string \<Rightarrow> verifier option) \<Rightarrow> string list \<Rightarrow> policyState \<Rightarrow> sdk_error + policyState" where
  "policyDirective newVerifier newCosigVerifier flds s =
     (if flds = [] then Inr s
      else if hd flds = ''log'' then policyLog newVerifier flds s
      else if hd flds = ''witness'' then policyWitness newCosigVerifier flds s
      else if hd flds = ''group'' then policyGroup flds s
      else if hd flds = ''quorum'' then policyQuorum flds s
      else Inl (PlainError ''unknown directive'' None))"

fun policyLines ::
  "(string \<Rightarrow> verifier option) \<Rightarrow> (string \<Rightarrow> verifier option) \<Rightarrow> string list \<Rightarrow> policyState \<Rightarrow> sdk_error + policyState" where
  "policyLines newVerifier newCosigVerifier [] s = Inr s"
| "policyLines newVerifier newCosigVerifier (line # rest) s =
     (if length line \<ge> 65536 then Inl (PlainError ''dnsid: reading c2sp-tlog policy'' None)
      else rbind (policyDirective newVerifier newCosigVerifier (lineFields line) s)
             (\<lambda>s'. policyLines newVerifier newCosigVerifier rest s'))"

section \<open>Policies and checkpoints\<close>

record Checkpoint =
  chOrigin :: string
  chSize :: nat
  chHash :: bytes

record Policy =
  plLogVerifier :: "verifier option"
  plWitnessVerifiers :: "verifier list"
  plWitnessQuorum :: int
  plCheckpointTime :: "(Checkpoint \<Rightarrow> signature list \<Rightarrow> sdk_error + gotime) option"
  plNow :: gotime
  plMaxCheckpointAge :: duration
  plClockSkew :: duration
  plQuorumRule :: "checkpointQuorumRule option"
  plTrustedPublicKeys :: "bytes list"
  plSkipProofVerify :: bool

text \<open>\<open>now\<close> is the time the caller's clock shows when the policy is used.\<close>

definition ParsePolicy ::
  "(string \<Rightarrow> verifier option) \<Rightarrow> (string \<Rightarrow> verifier option) \<Rightarrow> gotime \<Rightarrow> bytes \<Rightarrow> sdk_error + Policy" where
  "ParsePolicy newVerifier newCosigVerifier now document =
     map_err (\<lambda>e. ParseError ''dnsid: parsing c2sp-tlog policy'' (Some e))
     (rbind (policyLines newVerifier newCosigVerifier (scanLines document)
               \<lparr>psComponents = [], psLogVerifier = None, psWitnesses = [], psTrustedPublicKeys = [], psQuorum = None\<rparr>)
        (\<lambda>s. case (psLogVerifier s, psQuorum s) of
               (Some v, Some quorum) \<Rightarrow>
                 Inr \<lparr>plLogVerifier = Some v, plWitnessVerifiers = psWitnesses s,
                      plWitnessQuorum = minimumSignatures quorum, plCheckpointTime = None, plNow = now,
                      plMaxCheckpointAge = 0, plClockSkew = 0, plQuorumRule = Some quorum,
                      plTrustedPublicKeys = psTrustedPublicKeys s, plSkipProofVerify = False\<rparr>
             | _ \<Rightarrow> Inl (PlainError ''dnsid: c2sp-tlog policy requires one log and one quorum directive'' None)))"

record VerifiedProof =
  vpIndex :: nat
  vpCheckpoint :: Checkpoint
  vpNoteSigs :: "signature list"
  vpWitnessTime :: gotime
  vpIntegrationTime :: gotime
  vpFreshnessTime :: gotime
  vpLogTime :: gotime

definition validateWitnessTime :: "Policy \<Rightarrow> gotime \<Rightarrow> sdk_error + gotime" where
  "validateWitnessTime p acceptedAt =
     (if plClockSkew p > 0
      then (if acceptedAt > plNow p + plClockSkew p
            then Inl (PlainError ''dnsid: c2sp-tlog witness timestamp is in the future'' None)
            else Inr acceptedAt)
      else if acceptedAt > plNow p
      then Inl (PlainError ''dnsid: c2sp-tlog witness timestamp is in the future'' None)
      else Inr acceptedAt)"

fun validateTimes :: "Policy \<Rightarrow> gotime list \<Rightarrow> sdk_error + unit" where
  "validateTimes p [] = Inr ()"
| "validateTimes p (t # ts) = rbind (validateWitnessTime p t) (\<lambda>_. validateTimes p ts)"

definition isAcceptedWitness :: "verifier list \<Rightarrow> signature \<Rightarrow> bool" where
  "isAcceptedWitness verifiers sig = list_ex (\<lambda>v. signedBy v sig) verifiers"

text \<open>The loop over the signatures when the policy has a quorum number only.\<close>

fun witnessTimes ::
  "(signature \<Rightarrow> gotime option) \<Rightarrow> Policy \<Rightarrow> verifier \<Rightarrow> signature list \<Rightarrow> sdk_error + gotime list" where
  "witnessTimes cosigTime p lv [] = Inr []"
| "witnessTimes cosigTime p lv (sig # sigs) =
     (if signedBy lv sig \<or> \<not> isAcceptedWitness (plWitnessVerifiers p) sig
      then witnessTimes cosigTime p lv sigs
      else (case cosigTime sig of
              None \<Rightarrow> witnessTimes cosigTime p lv sigs
            | Some ts \<Rightarrow>
                rbind (validateWitnessTime p ts) (\<lambda>_.
                  rbind (witnessTimes cosigTime p lv sigs) (\<lambda>tms. Inr (ts # tms)))))"

definition acceptedCheckpointTime ::
  "(signature \<Rightarrow> gotime option) \<Rightarrow> Policy \<Rightarrow> verifier \<Rightarrow> Checkpoint \<Rightarrow> signature list \<Rightarrow> sdk_error + gotime" where
  "acceptedCheckpointTime cosigTime p lv cp sigs =
     (case plCheckpointTime p of
        Some f \<Rightarrow> f cp sigs
      | None \<Rightarrow>
          (case plQuorumRule p of
             Some rule \<Rightarrow>
               (case evaluate cosigTime sigs rule of
                  None \<Rightarrow> Inl (PlainError ''dnsid: c2sp-tlog witness quorum not satisfied'' None)
                | Some tms \<Rightarrow>
                    if tms = [] then Inr 0
                    else rbind (validateTimes p tms) (\<lambda>_. Inr (hd (sort tms))))
           | None \<Rightarrow>
               if plWitnessQuorum p \<le> 0 then Inr 0
               else rbind (witnessTimes cosigTime p lv sigs) (\<lambda>tms.
                      if int (length tms) < plWitnessQuorum p
                      then Inl (PlainError ''dnsid: c2sp-tlog witness quorum not satisfied'' None)
                      else validateWitnessTime p (hd (sort tms)))))"

text \<open>\<open>time.Time.Sub\<close> saturates at the range of a 64-bit duration.\<close>

definition timeSub :: "gotime \<Rightarrow> gotime \<Rightarrow> duration" where
  "timeSub t u = min (max (t - u) (- (2 ^ 63))) (2 ^ 63 - 1)"

definition verifyCheckpoint ::
  "tlog_lib \<Rightarrow> (signature \<Rightarrow> gotime option) \<Rightarrow> (string \<Rightarrow> URL option)
    \<Rightarrow> (bytes \<Rightarrow> string \<Rightarrow> verifier \<Rightarrow> verifier list \<Rightarrow> (Checkpoint \<times> signature list) option)
    \<Rightarrow> Policy \<Rightarrow> Reference \<Rightarrow> bytes \<Rightarrow> sdk_error + VerifiedProof" where
  "verifyCheckpoint H cosigTime urlParse parseCheckpoint p ref rawCheckpoint =
     map_err (\<lambda>e. NewVerificationError InvalidEvidence False ''dnsid: invalid c2sp-tlog checkpoint'' (Some e))
     (case plLogVerifier p of
        None \<Rightarrow> Inl (PlainError ''dnsid: c2sp-tlog policy missing log verifier'' None)
      | Some lv \<Rightarrow>
          if refScope ref = ''public'' \<and> plWitnessQuorum p \<le> 0
          then Inl (PlainError ''dnsid: public c2sp-tlog policy requires independent witness quorum'' None)
          else rbind (Origin urlParse ref) (\<lambda>origin.
            case parseCheckpoint rawCheckpoint origin lv (plWitnessVerifiers p) of
              None \<Rightarrow> Inl (PlainError ''dnsid: verifying c2sp-tlog checkpoint'' None)
            | Some (cp, sigs) \<Rightarrow>
                if chSize cp > 2 ^ 63 - 1
                then Inl (PlainError ''dnsid: c2sp-tlog checkpoint size exceeds int64 range'' None)
                else if length (chHash cp) \<noteq> 32
                then Inl (PlainError ''dnsid: c2sp-tlog checkpoint root length'' None)
                else if chSize cp = 0 \<and> chHash cp \<noteq> merkleRoot H []
                then Inl (PlainError ''dnsid: empty c2sp-tlog checkpoint has invalid root'' None)
                else rbind (acceptedCheckpointTime cosigTime p lv cp sigs) (\<lambda>witnessTime.
                  if plMaxCheckpointAge p > 0 \<and> witnessTime = 0
                  then Inl (PlainError ''dnsid: c2sp-tlog accepted checkpoint timestamp is required'' None)
                  else if plMaxCheckpointAge p > 0 \<and> timeSub (plNow p) witnessTime > plMaxCheckpointAge p
                  then Inl (PlainError ''dnsid: c2sp-tlog checkpoint is stale'' None)
                  else (let integrationTime =
                              (if witnessTime \<noteq> 0 then witnessTime + plClockSkew p else witnessTime)
                        in Inr \<lparr>vpIndex = 0, vpCheckpoint = cp, vpNoteSigs = sigs, vpWitnessTime = witnessTime,
                                vpIntegrationTime = integrationTime, vpFreshnessTime = witnessTime,
                                vpLogTime = integrationTime\<rparr>))))"

text \<open>
  \<open>VerifyProof\<close>: the proof format and \<open>tlog.CheckRecord\<close> are outside the repository and are
  the parameters \<open>unmarshalProof\<close> (index, hashes, checkpoint) and \<open>checkRecord\<close> (proof, tree
  size, root, index, leaf hash). With \<open>skipProofVerify\<close> the result is the zero value.
\<close>

definition VerifyProof ::
  "tlog_lib \<Rightarrow> (signature \<Rightarrow> gotime option) \<Rightarrow> (string \<Rightarrow> URL option)
    \<Rightarrow> (bytes \<Rightarrow> string \<Rightarrow> verifier \<Rightarrow> verifier list \<Rightarrow> (Checkpoint \<times> signature list) option)
    \<Rightarrow> (bytes \<Rightarrow> (nat \<times> bytes list \<times> bytes) option)
    \<Rightarrow> (bytes list \<Rightarrow> nat \<Rightarrow> bytes \<Rightarrow> nat \<Rightarrow> bytes \<Rightarrow> bool)
    \<Rightarrow> Policy \<Rightarrow> Reference \<Rightarrow> bytes \<Rightarrow> bytes \<Rightarrow> sdk_error + VerifiedProof option" where
  "VerifyProof H cosigTime urlParse parseCheckpoint unmarshalProof checkRecord p ref entry rawProof =
     (if plSkipProofVerify p then Inr None
      else (case unmarshalProof rawProof of
              None \<Rightarrow> Inl (PlainError ''dnsid: parsing c2sp-tlog proof'' None)
            | Some (index, hashes, checkpoint) \<Rightarrow>
                rbind (verifyCheckpoint H cosigTime urlParse parseCheckpoint p ref checkpoint) (\<lambda>verified.
                  let cp = vpCheckpoint verified
                  in if index \<ge> chSize cp
                     then Inl (PlainError ''dnsid: c2sp-tlog proof index outside checkpoint size'' None)
                     else if \<not> checkRecord hashes (chSize cp) (chHash cp) index (RecordHash H entry)
                     then Inl (PlainError ''dnsid: c2sp-tlog inclusion proof failed'' None)
                     else Inr (Some (verified\<lparr>vpIndex := index\<rparr>)))))"

section \<open>What a rule and a policy promise\<close>

text \<open>
  \<open>wfRule\<close>: every group has a threshold between 1 and its number of members; \<open>satisfied\<close>: the
  meaning of a rule in terms of the witnesses that cosigned; \<open>policyInv\<close>: the invariant of the
  parser's state; \<open>groupResults\<close>: the results a group collects.
\<close>

fun wfRule :: "checkpointQuorumRule \<Rightarrow> bool" where
  "wfRule (Rule none verifier threshold members) =
     (none \<or> verifier \<noteq> None
      \<or> (1 \<le> threshold \<and> threshold \<le> length members \<and> list_all (\<lambda>m. wfRule m \<and> \<not> qrNone m) members))"

fun ruleWitnesses :: "checkpointQuorumRule \<Rightarrow> verifier list" where
  "ruleWitnesses (Rule none verifier threshold members) =
     (if none then []
      else (case verifier of Some v \<Rightarrow> [v] | None \<Rightarrow> concat (map ruleWitnesses members)))"

fun satisfied :: "(verifier \<Rightarrow> bool) \<Rightarrow> checkpointQuorumRule \<Rightarrow> bool" where
  "satisfied signed (Rule none verifier threshold members) =
     (none
      \<or> (case verifier of
           Some v \<Rightarrow> signed v
         | None \<Rightarrow> threshold \<le> length (filter (\<lambda>b. b) (map (\<lambda>m. satisfied signed m) members))))"

definition cosigned :: "(signature \<Rightarrow> gotime option) \<Rightarrow> signature list \<Rightarrow> verifier \<Rightarrow> bool" where
  "cosigned cosigTime sigs v =
     (case find (signedBy v) sigs of None \<Rightarrow> False | Some sig \<Rightarrow> cosigTime sig \<noteq> None)"

definition goodRule :: "verifier list \<Rightarrow> checkpointQuorumRule \<Rightarrow> bool" where
  "goodRule ws r = (wfRule r \<and> set (ruleWitnesses r) \<subseteq> set ws)"

definition policyInv :: "policyState \<Rightarrow> bool" where
  "policyInv s =
     (list_all (\<lambda>(n, r). goodRule (psWitnesses s) r \<and> \<not> qrNone r) (psComponents s)
      \<and> pred_option (goodRule (psWitnesses s)) (psQuorum s))"

abbreviation groupResults ::
  "(signature \<Rightarrow> gotime option) \<Rightarrow> signature list \<Rightarrow> checkpointQuorumRule list \<Rightarrow> gotime list list" where
  "groupResults cosigTime sigs members \<equiv>
     map the (filter (\<lambda>r. r \<noteq> None) (map (\<lambda>m. evaluate cosigTime sigs m) members))"

text \<open>A policy of two witnesses and a checkpoint that both cosigned.\<close>

definition sample_verifier :: "string \<Rightarrow> verifier option" where
  "sample_verifier key = Some \<lparr>vName = takeWhile (\<lambda>c. c \<noteq> CHR ''+'') key, vKeyHash = 7\<rparr>"

definition sample_document :: bytes where
  "sample_document =
     Join [''log l+0+QUJD'', ''witness w1 a+0+QUJD'', ''witness w2 b+0+QUJD'', ''group g all w1 w2'', ''quorum g'']
       [CHR 0x0A]"

definition sample_rule :: checkpointQuorumRule where
  "sample_rule = Rule False None 2
     [Rule False (Some \<lparr>vName = ''a'', vKeyHash = 7\<rparr>) 0 [], Rule False (Some \<lparr>vName = ''b'', vKeyHash = 7\<rparr>) 0 []]"

definition sample_policy :: Policy where
  "sample_policy =
     \<lparr>plLogVerifier = Some \<lparr>vName = ''l'', vKeyHash = 7\<rparr>,
      plWitnessVerifiers = [\<lparr>vName = ''a'', vKeyHash = 7\<rparr>, \<lparr>vName = ''b'', vKeyHash = 7\<rparr>],
      plWitnessQuorum = 2, plCheckpointTime = None, plNow = 0, plMaxCheckpointAge = 0, plClockSkew = 0,
      plQuorumRule = Some sample_rule, plTrustedPublicKeys = [''BC'', ''BC'', ''BC''], plSkipProofVerify = False\<rparr>"

definition sample_signatures :: "signature list" where
  "sample_signatures =
     [\<lparr>sgName = ''b'', sgHash = 7, sgBase64 = ''xx''\<rparr>, \<lparr>sgName = ''a'', sgHash = 7, sgBase64 = ''y''\<rparr>]"

definition sample_cosig :: "signature \<Rightarrow> gotime option" where
  "sample_cosig sig = Some (100 + int (length (sgBase64 sig)))"

definition sample_checkpoint :: Checkpoint where
  "sample_checkpoint = \<lparr>chOrigin = ''o'', chSize = 5, chHash = replicate 32 CHR ''h''\<rparr>"

definition sample_ref :: Reference where
  "sample_ref = \<lparr>refScope = ''public'', refLogPrefix = ''https://l.example'', refStreamID = ''s''\<rparr>"

definition sample_url :: "string \<Rightarrow> URL option" where
  "sample_url s = Some \<lparr>urlScheme = ''https'', urlHost = ''l.example'', urlHasUser = False,
     urlEscapedPath = '''', urlHostname = ''l.example'', urlPort = ''''\<rparr>"

section \<open>Lemmas\<close>

subsection \<open>The insertion sort\<close>

lemma insort_append_greater: "b < a \<Longrightarrow> insort b (us @ [a]) = insort b us @ [a::int]"
  by (induction us) auto

lemma insort_append_last:
  assumes "sorted us" and "\<forall>x \<in> set us. x \<le> b"
  shows "insort b us = us @ [b::int]"
proof -
  have "sort (us @ [b]) = us @ [b]"
    using assms by (simp add: sorted_append sorted_sort_id)
  moreover have "sort (us @ [b]) = insort b us"
    using assms by (intro properties_for_sort) (auto simp: sorted_insort)
  ultimately show ?thesis by simp
qed

lemma insertDown_insort:
  "\<lbrakk>j < length xs; sorted (take j xs)\<rbrakk>
     \<Longrightarrow> insertDown xs j = insort (xs ! j) (take j xs) @ drop (Suc j) xs"
proof (induction j arbitrary: xs)
  case 0
  then show ?case by (cases xs) auto
next
  case (Suc j)
  let ?a = "xs ! j" and ?b = "xs ! Suc j"
  have tk: "take (Suc j) xs = take j xs @ [?a]"
    using Suc.prems by (simp add: take_Suc_conv_app_nth)
  have le: "\<forall>x \<in> set (take (Suc j) xs). x \<le> ?a" and so: "sorted (take j xs)"
    using Suc.prems by (auto simp: tk sorted_append)
  show ?case
  proof (cases "?b < ?a")
    case True
    let ?ys = "xs[Suc j := ?a, j := ?b]"
    have dr: "drop (Suc j) ?ys = ?a # drop (Suc (Suc j)) xs"
      using Suc.prems by (simp add: Cons_nth_drop_Suc [symmetric] drop_update_swap)
    have "insertDown ?ys j = insort (?ys ! j) (take j ?ys) @ drop (Suc j) ?ys"
      using Suc.prems so by (intro Suc.IH) auto
    also have "\<dots> = insort ?b (take j xs) @ ?a # drop (Suc (Suc j)) xs"
      using Suc.prems dr by simp
    finally show ?thesis
      using True by (simp add: tk insort_append_greater)
  next
    case False
    then have "insort ?b (take (Suc j) xs) = take (Suc j) xs @ [?b]"
      using Suc.prems le by (intro insort_append_last) auto
    with False show ?thesis
      using Suc.prems by (simp add: Cons_nth_drop_Suc)
  qed
qed

lemma sortInts_prefix:
  "\<lbrakk>1 \<le> k; k \<le> length xs\<rbrakk> \<Longrightarrow> foldl insertDown xs [1..<k] = sort (take k xs) @ drop k xs"
proof (induction k rule: nat_induct_at_least [where m = 1])
  case base
  then show ?case by (cases xs) auto
next
  case (Suc k)
  let ?ys = "sort (take k xs) @ drop k xs"
  have "take k ?ys = sort (take k xs)" "?ys ! k = xs ! k" "drop (Suc k) ?ys = drop (Suc k) xs"
    using Suc.prems by (auto simp: nth_append)
  moreover have "insort (xs ! k) (sort (take k xs)) = sort (take (Suc k) xs)"
    using Suc.prems
    by (intro properties_for_sort [symmetric]) (auto simp: sorted_insort take_Suc_conv_app_nth)
  ultimately show ?case
    using Suc insertDown_insort [of k ?ys] by simp
qed

lemma sortInts_sort: "sortInts xs = sort xs"
  using sortInts_prefix [of "length xs" xs] by (cases xs) (auto simp: sortInts_def)

subsection \<open>Quorums\<close>

lemma sum_take_sorted_le:
  "\<lbrakk>sorted vs; M \<subseteq># mset vs; size M = t\<rbrakk> \<Longrightarrow> sum_list (take t vs) \<le> (sum_mset M :: int)"
proof (induction vs arbitrary: M t)
  case (Cons v vs)
  show ?case
  proof (cases t)
    case (Suc k)
    with Cons.prems have "M \<noteq> {#}" by auto
    then obtain w where w: "w \<in># M" "v \<in># M \<longrightarrow> w = v"
      by (metis multiset_nonemptyE)
    have vw: "v \<le> w"
      using w(1) Cons.prems by (auto dest!: mset_subset_eqD)
    have "M - {#w#} \<subseteq># mset vs"
    proof (cases "v \<in># M")
      case True
      with w Cons.prems show ?thesis by (simp add: subset_eq_diff_conv)
    next
      case False
      with Cons.prems(2) have "M \<subseteq># mset vs"
        unfolding subseteq_mset_def not_in_iff by (metis count_add_mset le0 mset.simps(2))
      then show ?thesis
        using diff_subset_eq_self subset_mset.order_trans by blast
    qed
    then have "sum_list (take k vs) \<le> sum_mset (M - {#w#})"
      using Cons.prems(1,3) Suc w(1) by (intro Cons.IH) (simp_all add: size_Diff_singleton)
    moreover have "sum_mset M = w + sum_mset (M - {#w#})"
      using w(1) by (simp add: sum_mset.remove)
    ultimately show ?thesis using vw Suc by simp
  qed (use Cons.prems in simp)
qed simp

lemma groupResults_min:
  assumes "\<And>m tms. \<lbrakk>m \<in> set members; evaluate cosigTime sigs m = Some tms\<rbrakk>
              \<Longrightarrow> minimumSignatures m \<le> int (length tms)"
  shows "\<exists>M. M \<subseteq># mset (map minimumSignatures members) \<and> size M = min t (length (groupResults cosigTime sigs members))
          \<and> sum_mset M \<le> int (length (concat (take t (groupResults cosigTime sigs members))))"
  using assms
proof (induction members arbitrary: t)
  case Nil
  then show ?case by simp
next
  case (Cons m ms)
  note ih = Cons.IH [OF Cons.prems, simplified]
  show ?case
  proof (cases "evaluate cosigTime sigs m")
    case None
    from ih [of t] obtain M where M: "M \<subseteq># mset (map minimumSignatures ms)"
      "size M = min t (length (groupResults cosigTime sigs ms))"
      "sum_mset M \<le> int (length (concat (take t (groupResults cosigTime sigs ms))))"
      by fastforce
    with None show ?thesis
      by (intro exI [of _ M]) (auto simp: subset_mset.le_add_same_cancel2 intro: subset_mset.order_trans)
  next
    case (Some tms)
    show ?thesis
    proof (cases t)
      case 0
      then show ?thesis by (intro exI [of _ "{#}"]) simp
    next
      case (Suc k)
      from ih [of k] obtain M where M: "M \<subseteq># mset (map minimumSignatures ms)"
        "size M = min k (length (groupResults cosigTime sigs ms))"
        "sum_mset M \<le> int (length (concat (take k (groupResults cosigTime sigs ms))))"
        by fastforce
      moreover have "minimumSignatures m \<le> int (length tms)"
        using Cons.prems Some by simp
      ultimately show ?thesis
        using Some Suc by (intro exI [of _ "add_mset (minimumSignatures m) M"]) auto
    qed
  qed
qed

lemma evaluate_minimum:
  "\<lbrakk>wfRule r; evaluate cosigTime sigs r = Some tms\<rbrakk> \<Longrightarrow> minimumSignatures r \<le> int (length tms)"
proof (induction r arbitrary: tms)
  case (Rule none verifier threshold members)
  show ?case
  proof (cases "none \<or> verifier \<noteq> None")
    case True
    with Rule.prems show ?thesis by (auto split: if_splits option.splits)
  next
    case False
    let ?rs = "groupResults cosigTime sigs members"
    have rs: "threshold \<le> length ?rs" "tms = concat (take threshold ?rs)"
      using False Rule.prems by (auto simp: Let_def split: if_splits)
    obtain M where M: "M \<subseteq># mset (map minimumSignatures members)" "size M = threshold"
        "sum_mset M \<le> int (length tms)"
      using groupResults_min [of members cosigTime sigs threshold] Rule.IH Rule.prems False rs
      by (auto simp: list_all_iff min_def)
    have "sum_list (take threshold (sort (map minimumSignatures members))) \<le> sum_mset M"
      using M by (intro sum_take_sorted_le) auto
    with M(3) False show ?thesis by (simp add: sortInts_sort)
  qed
qed

lemma evaluate_times:
  "\<lbrakk>evaluate cosigTime sigs r = Some tms; t \<in> set tms\<rbrakk>
     \<Longrightarrow> \<exists>sig \<in> set sigs. \<exists>v \<in> set (ruleWitnesses r). signedBy v sig \<and> cosigTime sig = Some t"
proof (induction r arbitrary: tms t)
  case (Rule none verifier threshold members)
  show ?case
  proof (cases "none \<or> verifier \<noteq> None")
    case True
    with Rule.prems show ?thesis
      by (auto split: if_splits option.splits dest: find_SomeD)
  next
    case False
    let ?rs = "groupResults cosigTime sigs members"
    have "tms = concat (take threshold ?rs)"
      using False Rule.prems(1) by (auto simp: Let_def split: if_splits)
    with Rule.prems(2) obtain ts where "ts \<in> set ?rs" "t \<in> set ts"
      by (metis (no_types, lifting) UN_E in_set_takeD set_concat)
    then obtain m where "m \<in> set members" "evaluate cosigTime sigs m = Some ts" by auto
    with Rule.IH [OF this] \<open>t \<in> set ts\<close> False show ?thesis by fastforce
  qed
qed

lemma evaluate_satisfied:
  "(evaluate cosigTime sigs r \<noteq> None) = satisfied (cosigned cosigTime sigs) r"
proof (induction r)
  case (Rule none verifier threshold members)
  have "length (groupResults cosigTime sigs members)
      = length (filter (\<lambda>b. b) (map (\<lambda>m. satisfied (cosigned cosigTime sigs) m) members))"
    using Rule.IH by (induction members) auto
  moreover have "(evaluate cosigTime sigs (Rule False (Some v) threshold members) \<noteq> None)
      = cosigned cosigTime sigs v" for v
    by (auto simp: cosigned_def split: option.splits)
  ultimately show ?case by (cases none; cases verifier) (auto simp: Let_def)
qed

lemma minimumSignatures_pos: "\<lbrakk>wfRule r; \<not> qrNone r\<rbrakk> \<Longrightarrow> 1 \<le> minimumSignatures r"
proof (induction r)
  case (Rule none verifier threshold members)
  show ?case
  proof (cases "verifier \<noteq> None")
    case False
    let ?vs = "sort (map minimumSignatures members)"
    have ge: "\<forall>v \<in> set ?vs. 1 \<le> v"
      using Rule False by (auto simp: list_all_iff)
    have "?vs \<noteq> []" and "1 \<le> threshold"
      using Rule.prems False by (auto dest: arg_cong [where f = length])
    then obtain v vs where vs: "?vs = v # vs" by (cases ?vs) auto
    obtain k where k: "threshold = Suc k" using \<open>1 \<le> threshold\<close> by (cases threshold) auto
    have "0 \<le> sum_list (take k vs)"
      using ge vs by (intro sum_list_nonneg) (auto dest!: in_set_takeD intro: order_trans [of 0 1])
    with Rule.prems False vs k ge show ?thesis by (simp add: sortInts_sort)
  qed (use Rule.prems in simp)
qed

subsection \<open>Parsed policies\<close>

lemma goodRule_mono: "\<lbrakk>goodRule ws r; set ws \<subseteq> set ws'\<rbrakk> \<Longrightarrow> goodRule ws' r"
  by (auto simp: goodRule_def)

lemma policyInv_component:
  "\<lbrakk>policyInv s; map_of (psComponents s) n = Some r\<rbrakk> \<Longrightarrow> goodRule (psWitnesses s) r \<and> \<not> qrNone r"
  by (auto simp: policyInv_def list_all_iff dest!: map_of_SomeD)

lemma policyInv_update:
  assumes "policyInv s" "set (psWitnesses s) \<subseteq> set (psWitnesses s')" "psQuorum s' = psQuorum s"
    and "psComponents s' = AList.update n r (psComponents s)"
    and "goodRule (psWitnesses s') r" "\<not> qrNone r"
  shows "policyInv s'"
proof -
  have "set (AList.update n r m) \<subseteq> insert (n, r) (set m)" for m :: "checkpointQuorumRule gomap"
    by (induction m) auto
  then have "set (psComponents s') \<subseteq> insert (n, r) (set (psComponents s))"
    by (simp add: assms(4))
  moreover have "goodRule (psWitnesses s') q" if "goodRule (psWitnesses s) q" for q
    using that assms(2) by (rule goodRule_mono)
  ultimately show ?thesis
    using assms(1,3,5,6) by (fastforce simp: policyInv_def list_all_iff option.pred_set)
qed

lemma groupMembers_ok:
  assumes "groupMembers comps seen names = Inr ms"
  shows "list_all (\<lambda>m. \<exists>n. map_of comps n = Some m) ms"
  using assms by (induction comps seen names arbitrary: ms rule: groupMembers.induct)
    (auto simp: ok_iffs split: if_splits option.splits)

lemma parsePolicyThreshold_bounds [ok_iffs]:
  "parsePolicyThreshold v n = Inr t \<Longrightarrow> 1 \<le> t \<and> t \<le> n"
  by (auto simp: parsePolicyThreshold_def ok_iffs split: if_splits)

lemma policyLog_inv: "\<lbrakk>policyLog nv flds s = Inr s'; policyInv s\<rbrakk> \<Longrightarrow> policyInv s'"
  by (auto simp: policyLog_def policyInv_def split: if_splits option.splits sum.splits)

lemma policyWitness_inv:
  assumes "policyWitness ncv flds s = Inr s'" and "policyInv s"
  shows "policyInv s'"
proof -
  obtain v where "psWitnesses s' = psWitnesses s @ [v]" "psQuorum s' = psQuorum s"
    "psComponents s' = AList.update (flds ! 1) (Rule False (Some v) 0 []) (psComponents s)"
    using assms(1) by (auto simp: policyWitness_def split: if_splits option.splits sum.splits)
  with assms(2) show ?thesis
    by - (rule policyInv_update [of s], auto simp: goodRule_def)
qed

lemma policyGroup_inv:
  assumes "policyGroup flds s = Inr s'" and inv: "policyInv s"
  shows "policyInv s'"
proof -
  obtain ms t where ms: "groupMembers (psComponents s) [] (drop 3 flds) = Inr ms"
    and t: "parsePolicyThreshold (flds ! 2) (length ms) = Inr t"
    and s': "s' = s\<lparr>psComponents := AList.update (flds ! 1) (Rule False None t ms) (psComponents s)\<rparr>"
    using assms(1) by (auto simp: policyGroup_def rbind_Inr_iff split: if_splits)
  have "\<forall>m \<in> set ms. goodRule (psWitnesses s) m \<and> \<not> qrNone m"
    using groupMembers_ok [OF ms] policyInv_component [OF inv] by (auto simp: list_all_iff)
  then have "goodRule (psWitnesses s) (Rule False None t ms)"
    using parsePolicyThreshold_bounds [OF t] by (auto simp: goodRule_def list_all_iff)
  with inv show ?thesis
    by - (rule policyInv_update [of s _ _ "Rule False None t ms"], auto simp: s')
qed

lemma policyQuorum_inv: "\<lbrakk>policyQuorum flds s = Inr s'; policyInv s\<rbrakk> \<Longrightarrow> policyInv s'"
  using policyInv_component [of s "flds ! 1"]
  by (auto simp: policyQuorum_def policyInv_def goodRule_def split: if_splits option.splits)

lemma policyDirective_inv: "\<lbrakk>policyDirective nv ncv flds s = Inr s'; policyInv s\<rbrakk> \<Longrightarrow> policyInv s'"
  unfolding policyDirective_def
  by (metis Inl_Inr_False Inr_inject policyLog_inv policyWitness_inv policyGroup_inv policyQuorum_inv)

lemma policyLines_inv: "\<lbrakk>policyLines nv ncv ls s = Inr s'; policyInv s\<rbrakk> \<Longrightarrow> policyInv s'"
proof (induction ls arbitrary: s)
  case (Cons l ls)
  then obtain s1 where "policyDirective nv ncv (lineFields l) s = Inr s1" "policyLines nv ncv ls s1 = Inr s'"
    by (auto simp: rbind_Inr_iff split: if_splits)
  with Cons show ?case using policyDirective_inv by blast
qed simp

lemma ParsePolicy_rule:
  assumes "ParsePolicy nv ncv now doc = Inr p"
  obtains rule where "plQuorumRule p = Some rule" "goodRule (plWitnessVerifiers p) rule"
    "plWitnessQuorum p = minimumSignatures rule" "plCheckpointTime p = None"
    "plLogVerifier p \<noteq> None" "\<not> plSkipProofVerify p"
proof -
  let ?s0 = "\<lparr>psComponents = [], psLogVerifier = None, psWitnesses = [], psTrustedPublicKeys = [], psQuorum = None\<rparr>"
  obtain s where s: "policyLines nv ncv (scanLines doc) ?s0 = Inr s"
    and p: "(case (psLogVerifier s, psQuorum s) of
               (Some v, Some quorum) \<Rightarrow>
                 Inr \<lparr>plLogVerifier = Some v, plWitnessVerifiers = psWitnesses s,
                      plWitnessQuorum = minimumSignatures quorum, plCheckpointTime = None, plNow = now,
                      plMaxCheckpointAge = 0, plClockSkew = 0, plQuorumRule = Some quorum,
                      plTrustedPublicKeys = psTrustedPublicKeys s, plSkipProofVerify = False\<rparr>
             | _ \<Rightarrow> Inl (PlainError ''dnsid: c2sp-tlog policy requires one log and one quorum directive'' None)) = Inr p"
    using assms unfolding ParsePolicy_def by (auto simp: map_err_Inr_iff rbind_Inr_iff)
  have "policyInv s"
    by (rule policyLines_inv [OF s]) (simp add: policyInv_def)
  with p that show ?thesis
    by (auto simp: policyInv_def split: option.splits)
qed

subsection \<open>Accepted checkpoints\<close>

lemma validateWitnessTime_iff [ok_iffs]:
  "validateWitnessTime p t = Inr u \<longleftrightarrow> u = t \<and> t \<le> plNow p + max 0 (plClockSkew p)"
  by (auto simp: validateWitnessTime_def)

lemma validateTimes_iff [ok_iffs]:
  "validateTimes p ts = Inr u \<longleftrightarrow> (\<forall>t \<in> set ts. t \<le> plNow p + max 0 (plClockSkew p))"
  by (induction ts) (auto simp: ok_iffs)

lemma hd_sort_Min: "ts \<noteq> [] \<Longrightarrow> hd (sort ts) = Min (set (ts :: int list))"
proof -
  assume "ts \<noteq> []"
  then obtain x xs where xs: "sort ts = x # xs" by (cases "sort ts") (auto dest: arg_cong [where f = length])
  then have "sorted (x # xs)" by (metis sorted_sort)
  then have "Min (set (x # xs)) = x" by (intro Min_eqI) auto
  then show ?thesis by (metis list.sel(1) set_sort xs)
qed

lemma verifyCheckpoint_ok:
  assumes "verifyCheckpoint H cosigTime urlParse parseCheckpoint p ref raw = Inr vp"
  obtains lv origin cp sigs where "plLogVerifier p = Some lv" "Origin urlParse ref = Inr origin"
    "parseCheckpoint raw origin lv (plWitnessVerifiers p) = Some (cp, sigs)"
    "refScope ref = ''public'' \<longrightarrow> plWitnessQuorum p > 0"
    "vpCheckpoint vp = cp" "vpNoteSigs vp = sigs"
    "chSize cp < 2 ^ 63" "length (chHash cp) = 32" "chSize cp = 0 \<longrightarrow> chHash cp = merkleRoot H []"
    "acceptedCheckpointTime cosigTime p lv cp sigs = Inr (vpWitnessTime vp)"
    "plMaxCheckpointAge p > 0 \<longrightarrow> vpWitnessTime vp \<noteq> 0 \<and> timeSub (plNow p) (vpWitnessTime vp) \<le> plMaxCheckpointAge p"
    "vpFreshnessTime vp = vpWitnessTime vp" "vpLogTime vp = vpIntegrationTime vp"
    "vpIntegrationTime vp = (if vpWitnessTime vp \<noteq> 0 then vpWitnessTime vp + plClockSkew p else 0)"
proof -
  obtain lv where lv: "plLogVerifier p = Some lv"
    using assms by (cases "plLogVerifier p") (auto simp: verifyCheckpoint_def)
  obtain origin where o: "Origin urlParse ref = Inr origin"
    using assms lv by (auto simp: verifyCheckpoint_def ok_iffs split: if_splits)
  obtain cp sigs where cp: "parseCheckpoint raw origin lv (plWitnessVerifiers p) = Some (cp, sigs)"
    using assms lv o by (auto simp: verifyCheckpoint_def ok_iffs split: if_splits option.splits)
  show ?thesis
    by (rule that [OF lv o cp])
      (use assms in \<open>auto simp: verifyCheckpoint_def lv o cp ok_iffs Let_def split: if_splits\<close>)
qed


text \<open>
  C28. The group quorum (\<open>checkpointQuorumRule.evaluate\<close>, \<open>minimumSignatures\<close>): a rule is
  satisfied by the signatures of a note iff enough of its members are, down to its witnesses,
  whose first signature in the note must carry a timestamp; and the hand-written \<open>sortInts\<close> that
  \<open>minimumSignatures\<close> adds the smallest values with is the sorting function.
\<close>
theorem quorum_evaluation_exact:
  "(evaluate cosigTime sigs r \<noteq> None) = satisfied (cosigned cosigTime sigs) r
   \<and> sortInts values = sort values"
  using evaluate_satisfied sortInts_sort by blast

text \<open>
  C27. Parsed policies (\<open>ParsePolicy\<close>): a policy that parses has a log verifier and a quorum rule
  in which every group has a threshold between 1 and its number of members and every witness is
  one of the policy's; its \<open>WitnessQuorum\<close> is the rule's minimum number of signatures, which is
  0 exactly for \<open>quorum none\<close>.
\<close>
theorem parsed_policy_wellformed:
  assumes "ParsePolicy newVerifier newCosigVerifier now document = Inr p"
  shows "plLogVerifier p \<noteq> None
    \<and> (\<exists>rule. plQuorumRule p = Some rule \<and> wfRule rule
         \<and> set (ruleWitnesses rule) \<subseteq> set (plWitnessVerifiers p)
         \<and> plWitnessQuorum p = minimumSignatures rule
         \<and> (plWitnessQuorum p = 0) = qrNone rule \<and> 0 \<le> plWitnessQuorum p)"
proof -
  obtain rule where r: "plQuorumRule p = Some rule" "goodRule (plWitnessVerifiers p) rule"
      "plWitnessQuorum p = minimumSignatures rule" "plLogVerifier p \<noteq> None"
    using assms by (rule ParsePolicy_rule)
  have "(minimumSignatures rule = 0) = qrNone rule" "0 \<le> minimumSignatures rule"
    using r(2) minimumSignatures_pos [of rule]
    by (cases rule; cases "qrNone rule"; auto simp: goodRule_def)+
  with r show ?thesis by (auto simp: goodRule_def)
qed

lemma sample_lines:
  "policyLines sample_verifier sample_verifier (scanLines sample_document)
     \<lparr>psComponents = [], psLogVerifier = None, psWitnesses = [], psTrustedPublicKeys = [], psQuorum = None\<rparr>
   = Inr \<lparr>psComponents = [(''w1'', Rule False (Some \<lparr>vName = ''a'', vKeyHash = 7\<rparr>) 0 []),
                           (''w2'', Rule False (Some \<lparr>vName = ''b'', vKeyHash = 7\<rparr>) 0 []), (''g'', sample_rule)],
          psLogVerifier = plLogVerifier sample_policy, psWitnesses = plWitnessVerifiers sample_policy,
          psTrustedPublicKeys = plTrustedPublicKeys sample_policy, psQuorum = Some sample_rule\<rparr>"
  by code_simp

lemma sample_policy_parses: "ParsePolicy sample_verifier sample_verifier 0 sample_document = Inr sample_policy"
proof -
  have "minimumSignatures sample_rule = 2" by code_simp
  then show ?thesis
    unfolding ParsePolicy_def sample_lines by (simp add: sample_policy_def)
qed

theorem parsed_policy_wellformed_witness:
  "\<exists>rule. plQuorumRule sample_policy = Some rule \<and> wfRule rule \<and> plWitnessQuorum sample_policy = minimumSignatures rule"
  using parsed_policy_wellformed [OF sample_policy_parses] by blast

lemma sample_checkpoint_accepted:
  "verifyCheckpoint sample_hashes sample_cosig sample_url
     (\<lambda>raw origin lv ws. Some (sample_checkpoint, sample_signatures))
     (sample_policy\<lparr>plNow := 110, plMaxCheckpointAge := 20, plClockSkew := 5\<rparr>) sample_ref ''raw''
   = Inr \<lparr>vpIndex = 0, vpCheckpoint = sample_checkpoint, vpNoteSigs = sample_signatures,
          vpWitnessTime = 101, vpIntegrationTime = 106, vpFreshnessTime = 101, vpLogTime = 106\<rparr>"
proof -
  have "evaluate sample_cosig sample_signatures sample_rule = Some [101, 102]" by code_simp
  moreover have "Origin sample_url sample_ref = Inr ''l.example''" by code_simp
  ultimately show ?thesis
    by (simp add: verifyCheckpoint_def sample_policy_def acceptedCheckpointTime_def sample_checkpoint_def
        validateWitnessTime_def timeSub_def)
qed


end
