(* ===== verification/Checkpoint_Store.thy ===== *)
theory Checkpoint_Store
  imports Hash_Tiles Quorum_Policy
begin

text \<open>
  Trusted checkpoints: \<open>log/c2sptlog/checkpoint_store.go\<close>. The in-memory store, the dispatch
  between the sources of consistency evidence, and the loop that advances the trusted
  checkpoint of an origin by load, verification and compare-and-swap.

  A context is the error \<open>ctx.Err()\<close> reports at each of the successive points where the code
  reads it (\<open>None\<close> while it is not cancelled); a nil context is \<open>None\<close> of the option. An
  operation of the in-memory store is atomic, since it holds the lock from its first access of
  the map to its last. Operations are numbered within one iteration of the loop: 0 the first
  check of the context, 1 the load, 2 the check after it, 3 the verification, 4 the next check,
  5 the compare-and-swap.

  The locale \<open>trusted_store\<close> is the contract of \<open>TrustedC2spCheckpointStore\<close>, \<open>atomic_store\<close>
  that of a store whose failed writes have no effect; the in-memory store provides both. The
  step relation interleaves the loads and swaps of any number of clients.
\<close>

type_synonym ctxErrs = "nat \<Rightarrow> sdk_error option"
type_synonym gocontext = "ctxErrs option"

section \<open>Checkpoints\<close>

text \<open>The first instant after the year 9999, in nanoseconds since the year 1.\<close>

definition endOfYear9999 :: gotime where
  "endOfYear9999 = 3652059 * 86400 * 1000000000"

definition checkpointStoreError :: "string \<Rightarrow> sdk_error option \<Rightarrow> sdk_error" where
  "checkpointStoreError message cause =
     NewVerificationError CheckpointStoreCode False (''dnsid: '' @ message) cause"

definition validateTrustedCheckpoint ::
  "tlog_lib \<Rightarrow> string \<Rightarrow> TrustedC2spCheckpoint \<Rightarrow> sdk_error + unit" where
  "validateTrustedCheckpoint H origin checkpoint =
     (if origin = '''' \<or> cpOrigin checkpoint \<noteq> origin \<or> cpTreeSize checkpoint > 2 ^ 63 - 1
         \<or> length (cpRootHash checkpoint) \<noteq> 32 \<or> cpWitnessTime checkpoint = 0
         \<or> cpWitnessTime checkpoint < 0 \<or> cpWitnessTime checkpoint \<ge> endOfYear9999
      then Inl (ArgumentError ''dnsid: checkpoint requires a matching nonempty origin, int64 tree size, SHA-256 root and valid witnessed time'' None)
      else if cpTreeSize checkpoint = 0 \<and> cpRootHash checkpoint \<noteq> merkleRoot H []
      then Inl (ArgumentError ''dnsid: empty checkpoint requires SHA-256 empty-tree root'' None)
      else Inr ())"

definition trustedCheckpointsEqual :: "TrustedC2spCheckpoint \<Rightarrow> TrustedC2spCheckpoint \<Rightarrow> bool" where
  "trustedCheckpointsEqual a b =
     (cpOrigin a = cpOrigin b \<and> cpTreeSize a = cpTreeSize b \<and> cpRootHash a = cpRootHash b
      \<and> cpWitnessTime a = cpWitnessTime b)"

section \<open>The in-memory store\<close>

text \<open>\<open>msMu\<close>: the lock channel exists; a nil receiver is \<open>None\<close>.\<close>

record memoryStore =
  msMu :: bool
  msCheckpoints :: "TrustedC2spCheckpoint gomap"

definition NewMemoryTrustedC2spCheckpointStore :: "memoryStore option" where
  "NewMemoryTrustedC2spCheckpointStore = Some \<lparr>msMu = True, msCheckpoints = []\<rparr>"

definition lock :: "memoryStore option \<Rightarrow> gocontext \<Rightarrow> nat \<Rightarrow> sdk_error + memoryStore" where
  "lock s ctx n =
     (case s of
        None \<Rightarrow> Inl (checkpointStoreError ''uninitialized trusted c2sp checkpoint store'' None)
      | Some st \<Rightarrow>
          if \<not> msMu st then Inl (checkpointStoreError ''uninitialized trusted c2sp checkpoint store'' None)
          else (case ctx of
                  None \<Rightarrow> Inl (ArgumentError ''dnsid: checkpoint context is required'' None)
                | Some errs \<Rightarrow> (case errs n of Some e \<Rightarrow> Inl e | None \<Rightarrow> Inr st)))"

definition LoadContext ::
  "tlog_lib \<Rightarrow> gocontext \<Rightarrow> nat \<Rightarrow> string \<Rightarrow> memoryStore option \<Rightarrow> sdk_error + TrustedC2spCheckpoint option" where
  "LoadContext H ctx n origin s =
     (if origin = '''' then Inl (ArgumentError ''dnsid: checkpoint origin is required'' None)
      else rbind (lock s ctx n) (\<lambda>st.
        case map_of (msCheckpoints st) origin of
          None \<Rightarrow> Inr None
        | Some checkpoint \<Rightarrow>
            (case validateTrustedCheckpoint H origin checkpoint of
               Inl err \<Rightarrow> Inl (checkpointStoreError ''invalid stored c2sp checkpoint'' (Some err))
             | Inr _ \<Rightarrow> Inr (Some checkpoint))))"

definition Load :: "tlog_lib \<Rightarrow> string \<Rightarrow> memoryStore option \<Rightarrow> sdk_error + TrustedC2spCheckpoint option" where
  "Load H origin s = LoadContext H (Some (\<lambda>_. None)) 0 origin s"

definition storedValid :: "tlog_lib \<Rightarrow> string \<Rightarrow> TrustedC2spCheckpoint option \<Rightarrow> sdk_error + unit" where
  "storedValid H origin c = (case c of None \<Rightarrow> Inr () | Some cp \<Rightarrow> validateTrustedCheckpoint H origin cp)"

text \<open>The context is read when the lock is taken, and again just before the assignment.\<close>

definition CompareAndSwapContext ::
  "tlog_lib \<Rightarrow> gocontext \<Rightarrow> nat \<Rightarrow> string \<Rightarrow> TrustedC2spCheckpoint option \<Rightarrow> TrustedC2spCheckpoint
    \<Rightarrow> memoryStore option \<Rightarrow> (sdk_error + bool) \<times> memoryStore option" where
  "CompareAndSwapContext H ctx n origin expected candidate s =
     (case rbind (validateTrustedCheckpoint H origin candidate) (\<lambda>_.
             rbind (storedValid H origin expected) (\<lambda>_. lock s ctx n)) of
        Inl err \<Rightarrow> (Inl err, s)
      | Inr st \<Rightarrow>
          (let current = map_of (msCheckpoints st) origin
           in case storedValid H origin current of
                Inl err \<Rightarrow> (Inl (checkpointStoreError ''invalid stored c2sp checkpoint'' (Some err)), s)
              | Inr _ \<Rightarrow>
                  if (case expected of
                        None \<Rightarrow> current \<noteq> None
                      | Some e \<Rightarrow> (case current of None \<Rightarrow> True | Some c \<Rightarrow> \<not> trustedCheckpointsEqual c e))
                  then (Inr False, s)
                  else (case the ctx (Suc n) of
                          Some err \<Rightarrow> (Inl err, s)
                        | None \<Rightarrow>
                            (Inr True, Some (st\<lparr>msCheckpoints := AList.update origin candidate (msCheckpoints st)\<rparr>)))))"

definition CompareAndSwap ::
  "tlog_lib \<Rightarrow> string \<Rightarrow> TrustedC2spCheckpoint option \<Rightarrow> TrustedC2spCheckpoint
    \<Rightarrow> memoryStore option \<Rightarrow> (sdk_error + bool) \<times> memoryStore option" where
  "CompareAndSwap H origin expected candidate s =
     CompareAndSwapContext H (Some (\<lambda>_. None)) 0 origin expected candidate s"

section \<open>Stores, sources and clients\<close>

text \<open>
  \<open>TrustedC2spCheckpointStore\<close> and, in \<open>stContext\<close>, the two further methods of a
  \<open>ContextTrustedC2spCheckpointStore\<close>. The methods read and write a state \<open>'s\<close>.
\<close>

record 's checkpointStore =
  stLoad :: "string \<Rightarrow> 's \<Rightarrow> (sdk_error + TrustedC2spCheckpoint option) \<times> 's"
  stSwap :: "string \<Rightarrow> TrustedC2spCheckpoint option \<Rightarrow> TrustedC2spCheckpoint \<Rightarrow> 's \<Rightarrow> (sdk_error + bool) \<times> 's"
  stContext :: "((ctxErrs \<Rightarrow> nat \<Rightarrow> string \<Rightarrow> 's \<Rightarrow> (sdk_error + TrustedC2spCheckpoint option) \<times> 's)
    \<times> (ctxErrs \<Rightarrow> nat \<Rightarrow> string \<Rightarrow> TrustedC2spCheckpoint option \<Rightarrow> TrustedC2spCheckpoint \<Rightarrow> 's \<Rightarrow> (sdk_error + bool) \<times> 's)) option"

definition loadTrusted ::
  "'s checkpointStore \<Rightarrow> ctxErrs \<Rightarrow> nat \<Rightarrow> string \<Rightarrow> 's \<Rightarrow> (sdk_error + TrustedC2spCheckpoint option) \<times> 's" where
  "loadTrusted st ctx n origin s =
     (case stContext st of Some (loadContext, _) \<Rightarrow> loadContext ctx n origin s | None \<Rightarrow> stLoad st origin s)"

definition swapTrusted ::
  "'s checkpointStore \<Rightarrow> ctxErrs \<Rightarrow> nat \<Rightarrow> string \<Rightarrow> TrustedC2spCheckpoint option \<Rightarrow> TrustedC2spCheckpoint \<Rightarrow> 's
    \<Rightarrow> (sdk_error + bool) \<times> 's" where
  "swapTrusted st ctx n origin expected candidate s =
     (case stContext st of
        Some (_, swapContext) \<Rightarrow> swapContext ctx n origin expected candidate s
      | None \<Rightarrow> stSwap st origin expected candidate s)"

definition memoryStoreOps :: "tlog_lib \<Rightarrow> memoryStore option checkpointStore" where
  "memoryStoreOps H =
     \<lparr>stLoad = (\<lambda>origin s. (Load H origin s, s)),
      stSwap = CompareAndSwap H,
      stContext = Some (\<lambda>ctx n origin s. (LoadContext H (Some ctx) n origin s, s), \<lambda>ctx. CompareAndSwapContext H (Some ctx))\<rparr>"

text \<open>
  What a source of a client can provide: an explicit consistency proof, hash tiles or the
  entries of the whole log, each present when the source implements the interface.
\<close>

record consistencySource =
  csProof :: "(Reference \<Rightarrow> nat \<Rightarrow> nat \<Rightarrow> sdk_error + bytes list) option"
  csTiles :: "(sdk_error option \<Rightarrow> Reference \<Rightarrow> TrustedC2spCheckpoint \<Rightarrow> TrustedC2spCheckpoint \<Rightarrow> (sdk_error + unit) option) option"
  csFullLog :: "(Reference \<Rightarrow> nat \<Rightarrow> sdk_error + bytes list) option"

text \<open>
  \<open>tcVerifyConsistency\<close> is \<open>proof.VerifyConsistency\<close> of the transparency-dev package: the error
  for two sizes, the proof and the two roots. \<open>tcEvidence\<close> is the complete scan a context
  carries: the origin of its checkpoint and its entries.
\<close>

record 's trustClient =
  tcHashes :: tlog_lib
  tcVerifyConsistency :: "nat \<Rightarrow> nat \<Rightarrow> bytes list \<Rightarrow> bytes \<Rightarrow> bytes \<Rightarrow> sdk_error option"
  tcEvidence :: "(string \<times> bytes list) option"
  tcSource :: consistencySource
  tcRef :: Reference
  tcStore :: "'s checkpointStore option"

section \<open>Consistency evidence\<close>

definition ErrConsistencyUnavailable :: sdk_error where
  "ErrConsistencyUnavailable = PlainError ''dnsid: c2sp-tlog consistency evidence unavailable'' None"

definition evidenceFailure :: "TrustedC2spCheckpoint \<Rightarrow> TrustedC2spCheckpoint \<Rightarrow> string \<Rightarrow> sdk_error \<Rightarrow> sdk_error" where
  "evidenceFailure old next message err =
     (if errors_Is err ErrConsistencyUnavailable
      then checkpointAdvanceError AdvanceConsistencyUnavailable old next (Some err)
      else logVerificationError (PlainError message (Some err)) True)"

definition verifyExplicitConsistency ::
  "'s trustClient \<Rightarrow> (Reference \<Rightarrow> nat \<Rightarrow> nat \<Rightarrow> sdk_error + bytes list)
    \<Rightarrow> TrustedC2spCheckpoint \<Rightarrow> TrustedC2spCheckpoint \<Rightarrow> sdk_error + unit" where
  "verifyExplicitConsistency c fetchProof old next =
     (case fetchProof (tcRef c) (cpTreeSize old) (cpTreeSize next) of
        Inl err \<Rightarrow> Inl (evidenceFailure old next ''dnsid: fetching c2sp-tlog consistency proof'' err)
      | Inr hashes \<Rightarrow>
          (case tcVerifyConsistency c (cpTreeSize old) (cpTreeSize next) hashes (cpRootHash old) (cpRootHash next) of
             Some err \<Rightarrow> Inl (checkpointAdvanceError AdvanceConsistencyFailed old next (Some err))
           | None \<Rightarrow> Inr ()))"

definition verifyScanConsistency ::
  "'s trustClient \<Rightarrow> (Reference \<Rightarrow> nat \<Rightarrow> sdk_error + bytes list)
    \<Rightarrow> TrustedC2spCheckpoint \<Rightarrow> TrustedC2spCheckpoint \<Rightarrow> sdk_error + unit" where
  "verifyScanConsistency c fetchEntries old next =
     (case fetchEntries (tcRef c) (cpTreeSize next) of
        Inl err \<Rightarrow> Inl (evidenceFailure old next ''dnsid: fetching complete c2sp-tlog scan'' err)
      | Inr entries \<Rightarrow> verifyScanRoots (tcHashes c) entries old next)"

text \<open>The scan a context carries, when it is of the candidate's log and long enough.\<close>

definition usableScan :: "'s trustClient \<Rightarrow> TrustedC2spCheckpoint \<Rightarrow> bytes list option" where
  "usableScan c next =
     (case tcEvidence c of
        None \<Rightarrow> None
      | Some (origin, entries) \<Rightarrow>
          if origin = cpOrigin next \<and> length entries \<ge> cpTreeSize next
          then Some (take (cpTreeSize next) entries) else None)"

definition verifyCheckpointConsistency ::
  "'s trustClient \<Rightarrow> sdk_error option \<Rightarrow> TrustedC2spCheckpoint \<Rightarrow> TrustedC2spCheckpoint \<Rightarrow> (sdk_error + unit) option" where
  "verifyCheckpointConsistency c ctxErr old next =
     (if cpTreeSize old = 0 then Some (Inr ())
      else (case usableScan c next of
              Some entries \<Rightarrow> Some (verifyScanRoots (tcHashes c) entries old next)
            | None \<Rightarrow>
                (case csProof (tcSource c) of
                   Some fetchProof \<Rightarrow> Some (verifyExplicitConsistency c fetchProof old next)
                 | None \<Rightarrow>
                     (case csTiles (tcSource c) of
                        Some tiles \<Rightarrow> tiles ctxErr (tcRef c) old next
                      | None \<Rightarrow>
                          (case csFullLog (tcSource c) of
                             Some fetchEntries \<Rightarrow> Some (verifyScanConsistency c fetchEntries old next)
                           | None \<Rightarrow>
                               Some (Inl (checkpointAdvanceError AdvanceConsistencyUnavailable old next None)))))))"

section \<open>Advancing\<close>

text \<open>The first half of an iteration ends it, or proceeds to the swap with what was loaded.\<close>

datatype loadOutcome = Finished "sdk_error + unit" | Proceed "TrustedC2spCheckpoint option"

definition advanceDecide ::
  "'s trustClient \<Rightarrow> sdk_error option \<Rightarrow> TrustedC2spCheckpoint \<Rightarrow> TrustedC2spCheckpoint option \<Rightarrow> loadOutcome option" where
  "advanceDecide c ctxErr candidate trusted =
     (case trusted of
        None \<Rightarrow> Some (Proceed None)
      | Some t \<Rightarrow>
          (case validateTrustedCheckpoint (tcHashes c) (cpOrigin candidate) t of
             Inl err \<Rightarrow> Some (Finished (Inl (checkpointStoreError ''invalid stored c2sp checkpoint'' (Some err))))
           | Inr _ \<Rightarrow>
               if cpTreeSize candidate < cpTreeSize t
               then Some (Finished (Inl (checkpointAdvanceError AdvanceRollback t candidate None)))
               else if cpTreeSize candidate = cpTreeSize t
               then (if cpRootHash candidate \<noteq> cpRootHash t
                     then Some (Finished (Inl (checkpointAdvanceError AdvanceRootConflict t candidate None)))
                     else Some (Finished (Inr ())))
               else map_option (\<lambda>r. case r of Inl err \<Rightarrow> Finished (Inl err) | Inr _ \<Rightarrow> Proceed (Some t))
                      (verifyCheckpointConsistency c ctxErr t candidate)))"

definition advanceLoad ::
  "'s trustClient \<Rightarrow> 's checkpointStore \<Rightarrow> ctxErrs \<Rightarrow> TrustedC2spCheckpoint \<Rightarrow> nat \<Rightarrow> 's \<Rightarrow> (loadOutcome \<times> 's) option" where
  "advanceLoad c st ctx candidate n s =
     (case ctx n of
        Some err \<Rightarrow> Some (Finished (Inl err), s)
      | None \<Rightarrow>
          (case loadTrusted st ctx (n + 1) (cpOrigin candidate) s of
             (Inl err, s1) \<Rightarrow>
               Some (Finished (Inl (if (case ctx (n + 2) of Some e \<Rightarrow> errors_Is err e | None \<Rightarrow> False) then err
                                    else checkpointStoreError ''loading trusted c2sp checkpoint'' (Some err))), s1)
           | (Inr trusted, s1) \<Rightarrow>
               (case ctx (n + 2) of
                  Some err \<Rightarrow> Some (Finished (Inl err), s1)
                | None \<Rightarrow> map_option (\<lambda>r. (r, s1)) (advanceDecide c (ctx (n + 3)) candidate trusted))))"

text \<open>The second half: \<open>None\<close> when the loop goes round again.\<close>

definition advanceSwap ::
  "'s checkpointStore \<Rightarrow> ctxErrs \<Rightarrow> TrustedC2spCheckpoint \<Rightarrow> nat \<Rightarrow> TrustedC2spCheckpoint option \<Rightarrow> 's
    \<Rightarrow> (sdk_error + unit) option \<times> 's" where
  "advanceSwap st ctx candidate n trusted s =
     (case ctx (n + 4) of
        Some err \<Rightarrow> (Some (Inl err), s)
      | None \<Rightarrow>
          (case swapTrusted st ctx (n + 5) (cpOrigin candidate) trusted candidate s of
             (Inl err, s1) \<Rightarrow>
               (Some (Inl (checkpointStoreError ''advancing trusted c2sp checkpoint; reconcile stored state before recovery'' (Some err))), s1)
           | (Inr advanced, s1) \<Rightarrow> (if advanced then Some (Inr ()) else None, s1)))"

partial_function (option) advanceLoop ::
  "'s trustClient \<Rightarrow> 's checkpointStore \<Rightarrow> ctxErrs \<Rightarrow> TrustedC2spCheckpoint \<Rightarrow> nat \<Rightarrow> 's
    \<Rightarrow> ((sdk_error + unit) \<times> nat \<times> 's) option" where
  "advanceLoop c st ctx candidate n s =
     (case advanceLoad c st ctx candidate n s of
        None \<Rightarrow> None
      | Some (Finished r, s1) \<Rightarrow> Some (r, n + 7, s1)
      | Some (Proceed trusted, s1) \<Rightarrow>
          (case advanceSwap st ctx candidate n trusted s1 of
             (Some r, s2) \<Rightarrow> Some (r, n + 7, s2)
           | (None, s2) \<Rightarrow> advanceLoop c st ctx candidate (n + 7) s2))"

definition advanceTrustedCheckpoint ::
  "'s trustClient \<Rightarrow> 's checkpointStore \<Rightarrow> ctxErrs \<Rightarrow> TrustedC2spCheckpoint \<Rightarrow> nat \<Rightarrow> 's
    \<Rightarrow> ((sdk_error + unit) \<times> nat \<times> 's) option" where
  "advanceTrustedCheckpoint c st ctx candidate n s =
     (case validateTrustedCheckpoint (tcHashes c) (cpOrigin candidate) candidate of
        Inl err \<Rightarrow>
          Some (Inl (NewVerificationError InvalidEvidence False ''dnsid: invalid accepted c2sp checkpoint tuple'' (Some err)), n, s)
      | Inr _ \<Rightarrow> advanceLoop c st ctx candidate n s)"

definition candidateOf :: "VerifiedProof \<Rightarrow> TrustedC2spCheckpoint" where
  "candidateOf v =
     \<lparr>cpOrigin = chOrigin (vpCheckpoint v), cpTreeSize = chSize (vpCheckpoint v),
      cpRootHash = chHash (vpCheckpoint v), cpWitnessTime = vpWitnessTime v\<rparr>"

fun advanceEach ::
  "'s trustClient \<Rightarrow> 's checkpointStore \<Rightarrow> ctxErrs \<Rightarrow> VerifiedProof list \<Rightarrow> nat \<Rightarrow> 's
    \<Rightarrow> ((sdk_error + unit) \<times> nat \<times> 's) option" where
  "advanceEach c st ctx [] n s = Some (Inr (), n, s)"
| "advanceEach c st ctx (v # vs) n s =
     (case advanceTrustedCheckpoint c st ctx (candidateOf v) n s of
        None \<Rightarrow> None
      | Some (Inl err, n1, s1) \<Rightarrow> Some (Inl err, n1, s1)
      | Some (Inr _, n1, s1) \<Rightarrow> advanceEach c st ctx vs n1 s1)"

definition advanceTrustedCheckpoints ::
  "'s trustClient \<Rightarrow> ctxErrs \<Rightarrow> VerifiedProof list \<Rightarrow> nat \<Rightarrow> 's \<Rightarrow> ((sdk_error + unit) \<times> nat \<times> 's) option" where
  "advanceTrustedCheckpoints c ctx checkpoints n s =
     (case tcStore c of
        None \<Rightarrow> Some (Inr (), n, s)
      | Some st \<Rightarrow> advanceEach c st ctx checkpoints n s)"

section \<open>Interleaved clients\<close>

text \<open>
  Any number of clients share one store. A client that is not idle is between iterations
  (\<open>Loading\<close>) or has loaded and verified and is about to swap (\<open>Swapping\<close>). One step runs the
  first or the second half of an iteration of one client, whose number is counted; a client whose call returned is idle
  and may be given another valid candidate.
\<close>

datatype clientPc =
    Idle
  | Loading TrustedC2spCheckpoint nat nat
  | Swapping TrustedC2spCheckpoint nat nat "TrustedC2spCheckpoint option"

record 's sharedState =
  shStore :: 's
  shPc :: "nat \<Rightarrow> clientPc"

inductive clientStep ::
  "'s checkpointStore \<Rightarrow> (nat \<Rightarrow> 's trustClient) \<Rightarrow> (nat \<Rightarrow> ctxErrs) \<Rightarrow> 's sharedState \<Rightarrow> 's sharedState \<Rightarrow> bool"
  for st clients ctxs where
  call: "\<lbrakk>shPc \<sigma> i = Idle; validateTrustedCheckpoint (tcHashes (clients i)) (cpOrigin cand) cand = Inr ()\<rbrakk>
     \<Longrightarrow> clientStep st clients ctxs \<sigma> (\<sigma>\<lparr>shPc := (shPc \<sigma>)(i := Loading cand n 0)\<rparr>)"
| load_done: "\<lbrakk>shPc \<sigma> i = Loading cand n k;
      advanceLoad (clients i) st (ctxs i) cand n (shStore \<sigma>) = Some (Finished r, s1)\<rbrakk>
     \<Longrightarrow> clientStep st clients ctxs \<sigma> (\<sigma>\<lparr>shStore := s1, shPc := (shPc \<sigma>)(i := Idle)\<rparr>)"
| load_proceed: "\<lbrakk>shPc \<sigma> i = Loading cand n k;
      advanceLoad (clients i) st (ctxs i) cand n (shStore \<sigma>) = Some (Proceed trusted, s1)\<rbrakk>
     \<Longrightarrow> clientStep st clients ctxs \<sigma> (\<sigma>\<lparr>shStore := s1, shPc := (shPc \<sigma>)(i := Swapping cand n k trusted)\<rparr>)"
| swap_done: "\<lbrakk>shPc \<sigma> i = Swapping cand n k trusted;
      advanceSwap st (ctxs i) cand n trusted (shStore \<sigma>) = (Some r, s1)\<rbrakk>
     \<Longrightarrow> clientStep st clients ctxs \<sigma> (\<sigma>\<lparr>shStore := s1, shPc := (shPc \<sigma>)(i := Idle)\<rparr>)"
| swap_retry: "\<lbrakk>shPc \<sigma> i = Swapping cand n k trusted;
      advanceSwap st (ctxs i) cand n trusted (shStore \<sigma>) = (None, s1)\<rbrakk>
     \<Longrightarrow> clientStep st clients ctxs \<sigma> (\<sigma>\<lparr>shStore := s1, shPc := (shPc \<sigma>)(i := Loading cand (n + 7) (Suc k))\<rparr>)"

definition storedAt :: "memoryStore option \<Rightarrow> string \<Rightarrow> TrustedC2spCheckpoint option" where
  "storedAt s origin = (case s of None \<Rightarrow> None | Some st \<Rightarrow> map_of (msCheckpoints st) origin)"

definition storeOk :: "tlog_lib \<Rightarrow> memoryStore option \<Rightarrow> bool" where
  "storeOk H s =
     (case s of
        None \<Rightarrow> True
      | Some st \<Rightarrow> msMu st \<and> list_all (\<lambda>(origin, cp). validateTrustedCheckpoint H origin cp = Inr ()) (msCheckpoints st))"

text \<open>One accepted advance: a larger tree of the same origin that some client verified.\<close>

definition verifiedAdvance ::
  "(nat \<Rightarrow> 's trustClient) \<Rightarrow> TrustedC2spCheckpoint \<Rightarrow> TrustedC2spCheckpoint \<Rightarrow> bool" where
  "verifiedAdvance clients old next =
     (cpOrigin old = cpOrigin next \<and> cpTreeSize old < cpTreeSize next
      \<and> (\<exists>i ctxErr. verifyCheckpointConsistency (clients i) ctxErr old next = Some (Inr ())))"

abbreviation advanceChain ::
  "(nat \<Rightarrow> 's trustClient) \<Rightarrow> TrustedC2spCheckpoint \<Rightarrow> TrustedC2spCheckpoint \<Rightarrow> bool" where
  "advanceChain clients \<equiv> (verifiedAdvance clients)\<^sup>*\<^sup>*"

text \<open>
  The invariant of a client: what it loaded has been verified against its candidate and only
  advanced since; an iteration after the first has seen the stored tree grow.
\<close>

fun pcInv ::
  "(nat \<Rightarrow> 's trustClient) \<Rightarrow> (string \<Rightarrow> TrustedC2spCheckpoint option) \<Rightarrow> clientPc \<Rightarrow> bool" where
  "pcInv clients stored Idle = True"
| "pcInv clients stored (Loading cand n k) =
     (k = 0 \<or> (k \<le> cpTreeSize cand + 1
                \<and> (case stored (cpOrigin cand) of None \<Rightarrow> False | Some b \<Rightarrow> k \<le> cpTreeSize b + 1)))"
| "pcInv clients stored (Swapping cand n k None) = (k = 0)"
| "pcInv clients stored (Swapping cand n k (Some t)) =
     (verifiedAdvance clients t cand \<and> k \<le> cpTreeSize t + 1
      \<and> (case stored (cpOrigin cand) of None \<Rightarrow> False | Some b \<Rightarrow> advanceChain clients t b))"

text \<open>What happens to the contents of a store in one step.\<close>

definition contentsAdvance ::
  "(nat \<Rightarrow> 's trustClient) \<Rightarrow> (string \<Rightarrow> TrustedC2spCheckpoint option) \<Rightarrow> (string \<Rightarrow> TrustedC2spCheckpoint option) \<Rightarrow> bool" where
  "contentsAdvance clients m m' =
     (\<forall>origin a. m origin = Some a \<longrightarrow> (\<exists>b. m' origin = Some b \<and> advanceChain clients a b))"

definition freshClients :: "memoryStore option sharedState" where
  "freshClients = \<lparr>shStore = NewMemoryTrustedC2spCheckpointStore, shPc = (\<lambda>_. Idle)\<rparr>"

definition scanTiles :: "'s trustClient \<Rightarrow> bool" where
  "scanTiles c = (\<forall>tiles. csTiles (tcSource c) = Some tiles \<longrightarrow>
     (\<exists>src. tiles = (\<lambda>ctxErr ref. verifyTileConsistency (tcHashes c) src ctxErr (refLogPrefix ref))))"

abbreviation clientRuns where
  "clientRuns H clients ctxs \<equiv> (clientStep (memoryStoreOps H) clients ctxs)\<^sup>*\<^sup>*"

text \<open>A client with an explicit proof source, and two checkpoints of one log.\<close>

definition sample_client :: "'s trustClient" where
  "sample_client =
     \<lparr>tcHashes = sample_hashes, tcVerifyConsistency = (\<lambda>_ _ _ _ _. None), tcEvidence = None,
      tcSource = \<lparr>csProof = Some (\<lambda>_ _ _. Inr []), csTiles = None, csFullLog = None\<rparr>,
      tcRef = sample_ref, tcStore = None\<rparr>"

definition sample_trusted :: "nat \<Rightarrow> TrustedC2spCheckpoint" where
  "sample_trusted n = \<lparr>cpOrigin = ''o'', cpTreeSize = n, cpRootHash = replicate 32 (char_of n), cpWitnessTime = 5\<rparr>"

definition sample_run :: "TrustedC2spCheckpoint gomap \<Rightarrow> memoryStore option sharedState" where
  "sample_run m = \<lparr>shStore = Some \<lparr>msMu = True, msCheckpoints = m\<rparr>, shPc = (\<lambda>_. Idle)\<rparr>"

section \<open>Lemmas\<close>

lemma validateTrustedCheckpoint_ok [ok_iffs]:
  "validateTrustedCheckpoint H origin cp = Inr u \<longleftrightarrow>
     origin \<noteq> '''' \<and> cpOrigin cp = origin \<and> cpTreeSize cp < 2 ^ 63 \<and> length (cpRootHash cp) = 32
     \<and> 0 < cpWitnessTime cp \<and> cpWitnessTime cp < endOfYear9999
     \<and> (cpTreeSize cp = 0 \<longrightarrow> cpRootHash cp = merkleRoot H [])"
  by (auto simp: validateTrustedCheckpoint_def)

lemma trustedCheckpointsEqual_iff [simp]: "trustedCheckpointsEqual a b \<longleftrightarrow> a = b"
  by (auto simp: trustedCheckpointsEqual_def)

lemma not_Inr_unit: "z \<noteq> Inr () \<longleftrightarrow> (\<exists>e. z = Inl e)"
  by (cases z) auto

lemma advanceDecide_proceed:
  assumes "advanceDecide c ctxErr cand trusted = Some (Proceed t')"
  shows "t' = trusted \<and> (\<forall>t. trusted = Some t \<longrightarrow> verifiedAdvance (\<lambda>_. c) t cand)"
proof (cases trusted)
  case (Some t)
  have v: "validateTrustedCheckpoint (tcHashes c) (cpOrigin cand) t = Inr ()" and sz: "cpTreeSize t < cpTreeSize cand"
    using assms Some by (auto simp: advanceDecide_def split: sum.splits if_splits)
  obtain r where r: "verifyCheckpointConsistency c ctxErr t cand = Some r"
    using assms Some v sz by (cases "verifyCheckpointConsistency c ctxErr t cand") (auto simp: advanceDecide_def)
  have "r = Inr () \<and> t' = Some t"
    using assms Some v sz r by (cases r) (auto simp: advanceDecide_def)
  with r v sz Some show ?thesis by (auto simp: verifiedAdvance_def ok_iffs)
qed (use assms in \<open>simp add: advanceDecide_def\<close>)

subsection \<open>Chains of advances\<close>

lemma verifiedAdvance_client: "verifiedAdvance (\<lambda>_. clients i) a b \<Longrightarrow> verifiedAdvance clients a b"
  by (auto simp: verifiedAdvance_def)

lemma advanceChain_size: "advanceChain clients a b \<Longrightarrow> a = b \<or> cpTreeSize a < cpTreeSize b"
  by (induction rule: rtranclp_induct) (auto simp: verifiedAdvance_def)

lemma contentsAdvance_refl [simp]: "contentsAdvance clients m m"
  by (auto simp: contentsAdvance_def)

lemma contentsAdvance_trans:
  "\<lbrakk>contentsAdvance clients m m'; contentsAdvance clients m' m''\<rbrakk> \<Longrightarrow> contentsAdvance clients m m''"
  unfolding contentsAdvance_def by (meson rtranclp_trans)

lemma contentsAdvance_upd:
  assumes "\<And>t. m origin = Some t \<Longrightarrow> verifiedAdvance clients t cand"
  shows "contentsAdvance clients m (m(origin \<mapsto> cand))"
  using assms by (auto simp: contentsAdvance_def)

lemma pcInv_mono:
  assumes "pcInv clients m p" and "contentsAdvance clients m m'"
  shows "pcInv clients m' p"
proof -
  have grow: "\<exists>b'. m' o1 = Some b' \<and> advanceChain clients b b' \<and> cpTreeSize b \<le> cpTreeSize b'" if "m o1 = Some b" for o1 b
    using assms(2) that advanceChain_size unfolding contentsAdvance_def by (metis less_imp_le order_refl)
  consider "p = Idle" | cand n k where "p = Loading cand n k" | cand n k where "p = Swapping cand n k None"
    | cand n k t where "p = Swapping cand n k (Some t)"
    by (metis clientPc.exhaust option.exhaust)
  then show ?thesis
  proof cases
    case (2 cand n k)
    show ?thesis
    proof (cases "m (cpOrigin cand)")
      case (Some b)
      with grow [OF Some] assms(1) 2 show ?thesis by auto
    qed (use assms(1) 2 in simp)
  next
    case (4 cand n k t)
    show ?thesis
    proof (cases "m (cpOrigin cand)")
      case (Some b)
      with grow [OF Some] assms(1) 4 show ?thesis by (auto intro: rtranclp_trans)
    qed (use assms(1) 4 in simp)
  qed (use assms(1) in simp_all)
qed

subsection \<open>The contract of a store\<close>

text \<open>
  \<open>contents\<close> is what is recorded for an origin and \<open>wf\<close> the states the store can be in. A load
  changes nothing and returns the contents; a swap that reports success replaced exactly the
  expected contents of its origin; one that reports failure changed nothing, because the
  contents were not the expected ones.
\<close>

locale trusted_store =
  fixes H :: tlog_lib and st :: "'s checkpointStore"
    and contents :: "'s \<Rightarrow> string \<Rightarrow> TrustedC2spCheckpoint option" and wf :: "'s \<Rightarrow> bool"
  assumes load: "\<lbrakk>wf s; loadTrusted st ctx n origin s = (r, s')\<rbrakk>
      \<Longrightarrow> s' = s \<and> (\<forall>t. r = Inr t \<longrightarrow> t = contents s origin)"
    and swap_true: "\<lbrakk>wf s; swapTrusted st ctx n origin expected cand s = (Inr True, s')\<rbrakk>
      \<Longrightarrow> contents s origin = expected \<and> contents s' = (contents s)(origin \<mapsto> cand)"
    and swap_false: "\<lbrakk>wf s; swapTrusted st ctx n origin expected cand s = (Inr False, s')\<rbrakk>
      \<Longrightarrow> s' = s \<and> contents s origin \<noteq> expected"
    and swap_wf: "\<lbrakk>wf s; swapTrusted st ctx n origin expected cand s = (b, s')\<rbrakk> \<Longrightarrow> wf s'"
    and contents_valid: "\<lbrakk>wf s; contents s origin = Some t\<rbrakk> \<Longrightarrow> validateTrustedCheckpoint H origin t = Inr ()"
begin

lemma advanceLoad_keeps:
  assumes "wf s" and "advanceLoad c st ctx cand n s = Some (out, s')"
  shows "s' = s"
proof (cases "ctx n")
  case None
  obtain r s1 where l: "loadTrusted st ctx (n + 1) (cpOrigin cand) s = (r, s1)" by fastforce
  with load [OF assms(1) l] None assms(2) show ?thesis
    by (auto simp: advanceLoad_def split: sum.splits option.splits)
qed (use assms in \<open>simp add: advanceLoad_def\<close>)

lemma advanceLoad_proceed:
  assumes "wf s" and "advanceLoad c st ctx cand n s = Some (Proceed trusted, s')"
  shows "trusted = contents s (cpOrigin cand)
    \<and> (\<forall>t. trusted = Some t \<longrightarrow> verifiedAdvance (\<lambda>_. c) t cand)"
proof -
  obtain r s1 where l: "loadTrusted st ctx (n + 1) (cpOrigin cand) s = (r, s1)" by fastforce
  have "ctx n = None" "ctx (n + 2) = None"
    using assms(2) l by (auto simp: advanceLoad_def split: sum.splits option.splits)
  moreover obtain t where t: "r = Inr t"
    using assms(2) l calculation by (cases r) (auto simp: advanceLoad_def)
  ultimately have d: "advanceDecide c (ctx (n + 3)) cand t = Some (Proceed trusted)"
    using assms(2) l by (auto simp: advanceLoad_def)
  have tc: "t = contents s (cpOrigin cand)"
    using load [OF assms(1) l] t by simp
  with advanceDecide_proceed [OF d] show ?thesis by simp
qed

lemma advanceSwap_effect:
  assumes "wf s" and "advanceSwap st ctx cand n trusted s = (Some (Inr ()), s')"
  shows "contents s (cpOrigin cand) = trusted \<and> contents s' = (contents s)(cpOrigin cand \<mapsto> cand) \<and> wf s'"
proof (cases "ctx (n + 4)")
  case None
  obtain r s1 where w: "swapTrusted st ctx (n + 5) (cpOrigin cand) trusted cand s = (r, s1)" by fastforce
  with None assms(2) have "r = Inr True" "s1 = s'"
    by (auto simp: advanceSwap_def split: sum.splits if_splits)
  with w swap_true [OF assms(1)] swap_wf [OF assms(1)] show ?thesis by blast
qed (use assms in \<open>simp add: advanceSwap_def\<close>)

lemma advanceSwap_wf:
  assumes "wf s" and "advanceSwap st ctx cand n trusted s = (r, s')"
  shows "wf s'"
proof (cases "ctx (n + 4)")
  case None
  obtain x s1 where w: "swapTrusted st ctx (n + 5) (cpOrigin cand) trusted cand s = (x, s1)" by fastforce
  with None assms(2) have "s1 = s'"
    by (auto simp: advanceSwap_def split: sum.splits if_splits)
  with w swap_wf [OF assms(1)] show ?thesis by blast
qed (use assms in \<open>simp add: advanceSwap_def\<close>)

lemma advanceSwap_retry:
  assumes "wf s" and "advanceSwap st ctx cand n trusted s = (None, s')"
  shows "s' = s \<and> contents s (cpOrigin cand) \<noteq> trusted"
proof (cases "ctx (n + 4)")
  case None
  obtain x s1 where w: "swapTrusted st ctx (n + 5) (cpOrigin cand) trusted cand s = (x, s1)" by fastforce
  with None assms(2) have "x = Inr False" "s1 = s'"
    by (auto simp: advanceSwap_def split: sum.splits if_splits)
  with w swap_false [OF assms(1)] show ?thesis by blast
qed (use assms in \<open>simp add: advanceSwap_def\<close>)

end

text \<open>A store whose failed writes have no effect, as the in-memory store.\<close>

locale atomic_store = trusted_store +
  assumes swap_error: "\<lbrakk>wf s; swapTrusted st ctx n origin expected cand s = (Inl e, s')\<rbrakk> \<Longrightarrow> s' = s"
begin

lemma advanceSwap_error:
  assumes "wf s" and "advanceSwap st ctx cand n trusted s = (Some (Inl e), s')"
  shows "s' = s"
proof (cases "ctx (n + 4)")
  case None
  obtain x s1 where w: "swapTrusted st ctx (n + 5) (cpOrigin cand) trusted cand s = (x, s1)" by fastforce
  with None assms(2) obtain e' where "x = Inl e'" "s1 = s'"
    by (auto simp: advanceSwap_def split: sum.splits if_splits)
  with w swap_error [OF assms(1)] show ?thesis by blast
qed (use assms in \<open>simp add: advanceSwap_def\<close>)

text \<open>Without other writers the swap does not fail, so that one iteration is enough.\<close>

lemma advanceLoop_once:
  assumes "wf s"
  shows "advanceLoop c st ctx cand n s =
    (case advanceLoad c st ctx cand n s of
       None \<Rightarrow> None
     | Some (Finished r, s1) \<Rightarrow> Some (r, n + 7, s)
     | Some (Proceed trusted, s1) \<Rightarrow>
         (case advanceSwap st ctx cand n trusted s of (r, s2) \<Rightarrow> Some (the r, n + 7, s2)))"
proof (cases "advanceLoad c st ctx cand n s")
  case None
  then show ?thesis by (simp add: advanceLoop.simps)
next
  case (Some p)
  obtain out s1 where p: "p = (out, s1)" by (cases p)
  note keeps = advanceLoad_keeps [OF assms, of c ctx cand n]
  show ?thesis
  proof (cases out)
    case (Finished r)
    with Some p keeps show ?thesis by (simp add: advanceLoop.simps)
  next
    case (Proceed trusted)
    obtain r s2 where w: "advanceSwap st ctx cand n trusted s = (r, s2)" by fastforce
    have "trusted = contents s (cpOrigin cand)"
      using advanceLoad_proceed [OF assms] Some p Proceed by blast
    then have "r \<noteq> None"
      using advanceSwap_retry [OF assms] w by metis
    with Some p Proceed keeps w show ?thesis by (auto simp: advanceLoop.simps)
  qed
qed

lemma advance_error_keeps:
  assumes "wf s" and "advanceTrustedCheckpoint c st ctx cand n s = Some (Inl e, n', s')"
  shows "s' = s"
proof (cases "validateTrustedCheckpoint (tcHashes c) (cpOrigin cand) cand")
  case (Inr u)
  with assms(2) have *: "advanceLoop c st ctx cand n s = Some (Inl e, n', s')"
    by (simp add: advanceTrustedCheckpoint_def)
  then obtain p where p: "advanceLoad c st ctx cand n s = Some p"
    by (cases "advanceLoad c st ctx cand n s") (auto simp: advanceLoop_once [OF assms(1)])
  show ?thesis
  proof (cases "fst p")
    case (Finished r)
    with p * show ?thesis by (cases p) (simp add: advanceLoop_once [OF assms(1)])
  next
    case (Proceed trusted)
    obtain r s2 where w: "advanceSwap st ctx cand n trusted s = (r, s2)" by fastforce
    have "r \<noteq> None"
      using advanceSwap_retry [OF assms(1)] advanceLoad_proceed [OF assms(1)] Proceed p w
      by (metis prod.collapse)
    with p * w Proceed have "r = Some (Inl e)" "s2 = s'"
      by (cases p; auto simp: advanceLoop_once [OF assms(1)])+
    with w advanceSwap_error [OF assms(1)] show ?thesis by blast
  qed
qed (use assms in \<open>simp add: advanceTrustedCheckpoint_def\<close>)

lemma swap_contents:
  assumes "wf s" and "advanceSwap st ctx cand n trusted s = (r, s')"
    and "\<And>t. trusted = Some t \<Longrightarrow> verifiedAdvance clients t cand"
  shows "contentsAdvance clients (contents s) (contents s')"
proof -
  consider "r = Some (Inr ())" | e where "r = Some (Inl e)" | "r = None"
    by (metis (full_types) old.unit.exhaust option.exhaust sumE)
  then show ?thesis
  proof cases
    case 1
    with advanceSwap_effect [OF assms(1)] assms(2,3) show ?thesis
      by (metis contentsAdvance_upd)
  qed (use advanceSwap_error [OF assms(1)] advanceSwap_retry [OF assms(1)] assms(2) in \<open>metis contentsAdvance_refl\<close>)+
qed

text \<open>Every step keeps the store well-formed, the invariant of every client, and only advances.\<close>

lemma step_inv:
  assumes "clientStep st clients ctxs \<sigma> \<sigma>'" and "wf (shStore \<sigma>)"
    and inv: "\<And>i. pcInv clients (contents (shStore \<sigma>)) (shPc \<sigma> i)"
  shows "wf (shStore \<sigma>') \<and> (\<forall>i. pcInv clients (contents (shStore \<sigma>')) (shPc \<sigma>' i))
    \<and> contentsAdvance clients (contents (shStore \<sigma>)) (contents (shStore \<sigma>'))"
  using assms(1)
proof cases
  case (call i cand n)
  then show ?thesis using assms(2) inv by auto
next
  case (load_done i cand n k r s1)
  with advanceLoad_keeps [OF assms(2) load_done(3)] show ?thesis using assms(2) inv by simp
next
  case (load_proceed i cand n k trusted s1)
  note keeps = advanceLoad_keeps [OF assms(2) load_proceed(3)]
  note pr = advanceLoad_proceed [OF assms(2) load_proceed(3)]
  have "pcInv clients (contents (shStore \<sigma>)) (Swapping cand n k trusted)"
  proof (cases trusted)
    case None
    with inv [of i] load_proceed(2) pr show ?thesis by simp
  next
    case (Some t)
    then have "contents (shStore \<sigma>) (cpOrigin cand) = Some t" "verifiedAdvance clients t cand"
      using pr by (auto intro: verifiedAdvance_client)
    with Some inv [of i] load_proceed(2) show ?thesis by auto
  qed
  then show ?thesis using assms(2) inv load_proceed keeps by simp
next
  case (swap_done i cand n k trusted r s1)
  have "contentsAdvance clients (contents (shStore \<sigma>)) (contents s1)"
    using inv [of i] swap_done(2) by (intro swap_contents [OF assms(2) swap_done(3)]) auto
  moreover from this have "pcInv clients (contents s1) (shPc \<sigma> j)" for j
    using inv by (rule pcInv_mono [rotated])
  ultimately show ?thesis
    using swap_done advanceSwap_wf [OF assms(2) swap_done(3)] by simp
next
  case (swap_retry i cand n k trusted s1)
  note rt = advanceSwap_retry [OF assms(2) swap_retry(3)]
  have "pcInv clients (contents (shStore \<sigma>)) (Loading cand (n + 7) (Suc k))"
  proof (cases trusted)
    case None
    with inv [of i] swap_retry(2) rt show ?thesis by (auto split: option.splits)
  next
    case (Some t)
    with inv [of i] swap_retry(2) obtain b where b: "contents (shStore \<sigma>) (cpOrigin cand) = Some b"
        "advanceChain clients t b" "verifiedAdvance clients t cand" "k \<le> cpTreeSize t + 1"
      by (auto split: option.splits)
    with rt Some advanceChain_size [OF b(2)] have "cpTreeSize t < cpTreeSize b" by auto
    with b show ?thesis by (auto simp: verifiedAdvance_def)
  qed
  then show ?thesis using assms(2) inv swap_retry rt by simp
qed

lemma steps_inv:
  assumes "(clientStep st clients ctxs)\<^sup>*\<^sup>* \<sigma> \<sigma>'" and "wf (shStore \<sigma>)"
    and "\<And>i. pcInv clients (contents (shStore \<sigma>)) (shPc \<sigma> i)"
  shows "wf (shStore \<sigma>') \<and> (\<forall>i. pcInv clients (contents (shStore \<sigma>')) (shPc \<sigma>' i))
    \<and> contentsAdvance clients (contents (shStore \<sigma>)) (contents (shStore \<sigma>'))"
  using assms(1)
proof (induction rule: rtranclp_induct)
  case base
  with assms show ?case by simp
next
  case (step \<tau> \<tau>')
  with step_inv [OF step(2)] show ?case by (blast intro: contentsAdvance_trans)
qed

lemma advance_success:
  assumes "wf s" and "advanceTrustedCheckpoint c st ctx cand n s = Some (Inr (), n', s')"
  shows "\<exists>t. contents s' (cpOrigin cand) = Some t \<and> cpTreeSize t = cpTreeSize cand \<and> cpRootHash t = cpRootHash cand
    \<and> (\<forall>origin. origin \<noteq> cpOrigin cand \<longrightarrow> contents s' origin = contents s origin)
    \<and> contentsAdvance (\<lambda>_. c) (contents s) (contents s')"
proof -
  have l: "advanceLoop c st ctx cand n s = Some (Inr (), n', s')"
    using assms(2) by (auto simp: advanceTrustedCheckpoint_def split: sum.splits)
  then obtain out s1 where p: "advanceLoad c st ctx cand n s = Some (out, s1)"
    by (cases "advanceLoad c st ctx cand n s") (auto simp: advanceLoop_once [OF assms(1)])
  show ?thesis
  proof (cases out)
    case (Finished r)
    with l p have f: "advanceLoad c st ctx cand n s = Some (Finished (Inr ()), s1)" "s' = s"
      by (simp_all add: advanceLoop_once [OF assms(1)])
    obtain x s2 where ld: "loadTrusted st ctx (n + 1) (cpOrigin cand) s = (x, s2)" by fastforce
    obtain t where t: "x = Inr t" "advanceDecide c (ctx (n + 3)) cand t = Some (Finished (Inr ()))"
      using f(1) ld by (auto simp: advanceLoad_def split: sum.splits option.splits)
    have "t = contents s (cpOrigin cand)" using load [OF assms(1) ld] t(1) by simp
    moreover obtain y where "t = Some y" "cpTreeSize y = cpTreeSize cand" "cpRootHash y = cpRootHash cand"
      using t(2) by (auto simp: advanceDecide_def not_Inr_unit split: sum.splits option.splits if_splits)
    ultimately show ?thesis using f(2) by (metis contentsAdvance_refl)
  next
    case (Proceed trusted)
    obtain r s2 where w: "advanceSwap st ctx cand n trusted s = (r, s2)" by fastforce
    note pr = advanceLoad_proceed [OF assms(1) p [unfolded Proceed]]
    have "r \<noteq> None" using advanceSwap_retry [OF assms(1)] pr w by metis
    with l p w Proceed have "r = Some (Inr ())" "s2 = s'"
      by (auto simp: advanceLoop_once [OF assms(1)])
    with w advanceSwap_effect [OF assms(1)] have e: "contents s' = (contents s)(cpOrigin cand \<mapsto> cand)" by blast
    have "contentsAdvance (\<lambda>_. c) (contents s) (contents s')"
      using pr unfolding e by (intro contentsAdvance_upd) auto
    with e show ?thesis by simp
  qed
qed

end

subsection \<open>The in-memory store provides the contract\<close>

lemma storedAt_valid:
  "\<lbrakk>storeOk H s; storedAt s origin = Some t\<rbrakk> \<Longrightarrow> validateTrustedCheckpoint H origin t = Inr ()"
  by (auto simp: storeOk_def storedAt_def list_all_iff split: option.splits dest!: map_of_SomeD)

lemma storeOk_update:
  assumes "storeOk H (Some st)" and "validateTrustedCheckpoint H origin cand = Inr ()"
  shows "storeOk H (Some (st\<lparr>msCheckpoints := AList.update origin cand (msCheckpoints st)\<rparr>))"
proof -
  have "set (AList.update origin cand m) \<subseteq> insert (origin, cand) (set m)" for m :: "TrustedC2spCheckpoint gomap"
    by (induction m) auto
  with assms show ?thesis by (fastforce simp: storeOk_def list_all_iff)
qed

lemma CompareAndSwapContext_cases:
  assumes "CompareAndSwapContext H (Some ctx) n origin expected cand s = (r, s')" and "storeOk H s"
  shows "(r = Inr True \<longrightarrow> storedAt s origin = expected \<and> storedAt s' = (storedAt s)(origin \<mapsto> cand) \<and> storeOk H s')
    \<and> (r = Inr False \<longrightarrow> s' = s \<and> storedAt s origin \<noteq> expected)
    \<and> (\<forall>e. r = Inl e \<longrightarrow> s' = s)"
proof (cases "rbind (validateTrustedCheckpoint H origin cand) (\<lambda>_.
             rbind (storedValid H origin expected) (\<lambda>_. lock s (Some ctx) n))")
  case (Inl e)
  with assms(1) show ?thesis by (auto simp: CompareAndSwapContext_def)
next
  case (Inr st)
  then have s: "s = Some st" and v: "validateTrustedCheckpoint H origin cand = Inr ()"
    by (auto simp: rbind_Inr_iff lock_def split: option.splits if_splits)
  have cur: "storedValid H origin (map_of (msCheckpoints st) origin) = Inr ()"
    using storedAt_valid [OF assms(2), of origin] by (auto simp: storedValid_def storedAt_def s split: option.splits)
  let ?c = "map_of (msCheckpoints st) origin"
  have bad: "(case expected of None \<Rightarrow> ?c \<noteq> None
      | Some e \<Rightarrow> (case ?c of None \<Rightarrow> True | Some c \<Rightarrow> \<not> trustedCheckpointsEqual c e)) = (?c \<noteq> expected)"
    by (auto split: option.splits)
  show ?thesis
  proof (cases "?c = expected")
    case False
    with assms(1) Inr cur bad show ?thesis
      by (auto simp: CompareAndSwapContext_def storedAt_def s)
  next
    case True
    have ok: "storeOk H (Some (st\<lparr>msCheckpoints := AList.update origin cand (msCheckpoints st)\<rparr>))"
      using assms(2) v unfolding s by (rule storeOk_update)
    have "storedAt (Some (st\<lparr>msCheckpoints := AList.update origin cand (msCheckpoints st)\<rparr>))
        = (storedAt s)(origin \<mapsto> cand)"
      by (simp add: storedAt_def s update_conv fun_eq_iff)
    with True assms(1) Inr cur bad ok show ?thesis
      by (cases "ctx (Suc n)") (auto simp: CompareAndSwapContext_def storedAt_def s)
  qed
qed

lemma LoadContext_stored:
  "\<lbrakk>storeOk H s; LoadContext H ctx n origin s = Inr t\<rbrakk> \<Longrightarrow> t = storedAt s origin"
  by (auto simp: LoadContext_def rbind_Inr_iff lock_def storedAt_def split: if_splits option.splits sum.splits)

interpretation mem: atomic_store H "memoryStoreOps H" storedAt "storeOk H" for H
proof (unfold_locales, goal_cases)
  case (1 s ctx n origin r s')
  then show ?case
    by (auto simp: loadTrusted_def memoryStoreOps_def LoadContext_stored)
next
  case (2 s ctx n origin expected cand s')
  then show ?case
    using CompareAndSwapContext_cases [of H ctx n origin expected cand s] by (simp add: swapTrusted_def memoryStoreOps_def)
next
  case (3 s ctx n origin expected cand s')
  then show ?case
    using CompareAndSwapContext_cases [of H ctx n origin expected cand s] by (simp add: swapTrusted_def memoryStoreOps_def)
next
  case (4 s ctx n origin expected cand b s')
  then show ?case
    using CompareAndSwapContext_cases [of H ctx n origin expected cand s b s'] 
    by (cases b; cases "b = Inr True") (auto simp: swapTrusted_def memoryStoreOps_def)
next
  case (5 s origin t)
  then show ?case by (rule storedAt_valid)
next
  case (6 s ctx n origin expected cand e s')
  then show ?case
    using CompareAndSwapContext_cases [of H ctx n origin expected cand s] by (simp add: swapTrusted_def memoryStoreOps_def)
qed

subsection \<open>Properties\<close>

lemma verifyCheckpointConsistency_total:
  assumes "scanTiles c" and "cpTreeSize old \<le> cpTreeSize next"
  shows "verifyCheckpointConsistency c ctxErr old next \<noteq> None"
  using assms verifyTileConsistency_total [OF assms(2)]
  by (auto simp: verifyCheckpointConsistency_def scanTiles_def split: option.splits)

lemma advanceDecide_total: "scanTiles c \<Longrightarrow> advanceDecide c ctxErr cand trusted \<noteq> None"
  by (auto simp: advanceDecide_def intro!: verifyCheckpointConsistency_total [simplified] split: option.splits sum.splits)

lemma fresh_inv:
  "storeOk H (shStore freshClients)" "pcInv clients (storedAt (shStore freshClients)) (shPc freshClients i)"
  by (simp_all add: freshClients_def storeOk_def NewMemoryTrustedC2spCheckpointStore_def)

text \<open>
  C9. Trust never rolls back, whatever the interleaving of any number of clients on one
  in-memory store, their candidates and the evidence their sources give: once a checkpoint is
  trusted for an origin, at every later moment one is trusted for it that is the same or is
  reached from it by a chain of advances to ever larger trees, each of which a client verified
  as consistent with the one before; every stored checkpoint is valid.
\<close>
theorem trust_never_rolls_back:
  assumes "clientRuns H clients ctxs freshClients \<sigma>" and "clientRuns H clients ctxs \<sigma> \<sigma>'"
    and "storedAt (shStore \<sigma>) origin = Some a"
  shows "\<exists>b. storedAt (shStore \<sigma>') origin = Some b \<and> advanceChain clients a b
    \<and> (b = a \<or> cpTreeSize a < cpTreeSize b) \<and> validateTrustedCheckpoint H origin b = Inr ()"
proof -
  note i1 = mem.steps_inv [OF assms(1) fresh_inv]
  then have "storeOk H (shStore \<sigma>') \<and> contentsAdvance clients (storedAt (shStore \<sigma>)) (storedAt (shStore \<sigma>'))"
    using mem.steps_inv [OF assms(2)] by blast
  with assms(3) show ?thesis
    unfolding contentsAdvance_def by (metis advanceChain_size storedAt_valid)
qed

text \<open>
  C32. Every call returns under interference: whatever other clients do, a call of
  \<open>advanceTrustedCheckpoint\<close> starts at most \<open>TreeSize + 1\<close> further iterations after its first, because
  a failed compare-and-swap means that the trusted tree has grown since it was loaded.
\<close>
theorem advance_iterations_bounded:
  assumes "clientRuns H clients ctxs freshClients \<sigma>"
  shows "(\<forall>i cand n k. shPc \<sigma> i = Loading cand n k \<longrightarrow> k \<le> cpTreeSize cand + 1)
    \<and> (\<forall>i cand n k trusted s1. shPc \<sigma> i = Swapping cand n k trusted
         \<and> advanceSwap (memoryStoreOps H) (ctxs i) cand n trusted (shStore \<sigma>) = (None, s1)
         \<longrightarrow> (\<exists>b. storedAt (shStore \<sigma>) (cpOrigin cand) = Some b
                \<and> (\<forall>t. trusted = Some t \<longrightarrow> cpTreeSize t < cpTreeSize b)))"
proof -
  note inv = mem.steps_inv [OF assms fresh_inv]
  have "k \<le> cpTreeSize cand + 1" if "shPc \<sigma> i = Loading cand n k" for i cand n k
    using inv that by (metis le_add2 le_zero_eq pcInv.simps(2) trans_le_add1 zero_le)
  moreover have "\<exists>b. storedAt (shStore \<sigma>) (cpOrigin cand) = Some b \<and> (\<forall>t. trusted = Some t \<longrightarrow> cpTreeSize t < cpTreeSize b)"
    if p: "shPc \<sigma> i = Swapping cand n k trusted"
      and w: "advanceSwap (memoryStoreOps H) (ctxs i) cand n trusted (shStore \<sigma>) = (None, s1)" for i cand n k trusted s1
  proof -
    have ne: "storedAt (shStore \<sigma>) (cpOrigin cand) \<noteq> trusted"
      using mem.advanceSwap_retry [OF _ w] inv by blast
    have "pcInv clients (storedAt (shStore \<sigma>)) (Swapping cand n k trusted)" using inv p by metis
    with ne show ?thesis
      by (cases trusted) (auto split: option.splits dest: advanceChain_size)
  qed
  ultimately show ?thesis by (intro conjI allI impI) (metis, metis)
qed


text \<open>
  C34. How a refused candidate is reported (\<open>advanceTrustedCheckpoint\<close>, \<open>logVerificationError\<close>): with
  a valid checkpoint trusted for its origin, a candidate of a smaller tree gives the rollback
  error, one of the same size with another root the split-view error, and a larger one for
  which no source can give evidence the unavailable error. They reach the caller with the codes
  \<open>LOG_ROLLBACK\<close>, \<open>LOG_FORK\<close> and \<open>INVALID_EVIDENCE\<close>, never as transient, and nothing is stored.
\<close>
theorem refused_candidate_errors:
  assumes "storeOk H s" and "storedAt s (cpOrigin cand) = Some t" and "H = tcHashes c"
    and "validateTrustedCheckpoint H (cpOrigin cand) cand = Inr ()"
    and "\<forall>k. ctx k = None"
    and "cpTreeSize cand > cpTreeSize t \<longrightarrow> cpTreeSize t \<noteq> 0 \<and> usableScan c cand = None
           \<and> csProof (tcSource c) = None \<and> csTiles (tcSource c) = None \<and> csFullLog (tcSource c) = None"
    and "cpTreeSize cand = cpTreeSize t \<longrightarrow> cpRootHash cand \<noteq> cpRootHash t"
  shows "\<exists>err. advanceTrustedCheckpoint c (memoryStoreOps H) ctx cand n s = Some (Inl err, n + 7, s)
    \<and> Code (logVerificationError err transient)
        = Some (if cpTreeSize cand < cpTreeSize t then LogRollback
                else if cpTreeSize cand = cpTreeSize t then LogFork else InvalidEvidence)
    \<and> \<not> Transient (logVerificationError err transient)"
proof -
  let ?kind = "if cpTreeSize cand < cpTreeSize t then AdvanceRollback
    else if cpTreeSize cand = cpTreeSize t then AdvanceRootConflict else AdvanceConsistencyUnavailable"
  let ?err = "checkpointAdvanceError ?kind t cand None"
  have vt: "validateTrustedCheckpoint H (cpOrigin cand) t = Inr ()"
    using assms(1,2) by (rule storedAt_valid)
  have "LoadContext H (Some ctx) (n + 1) (cpOrigin cand) s = Inr (Some t)"
  proof -
    have "cpOrigin cand \<noteq> ''''" using vt unfolding validateTrustedCheckpoint_ok by blast
    with assms(1,2,5) vt show ?thesis
      by (auto simp: LoadContext_def lock_def storedAt_def storeOk_def split: option.splits)
  qed
  moreover have "advanceDecide c None cand (Some t) = Some (Finished (Inl ?err))"
    using assms(3,6,7) vt by (auto simp: advanceDecide_def verifyCheckpointConsistency_def)
  ultimately have "advanceLoad c (memoryStoreOps H) ctx cand n s = Some (Finished (Inl ?err), s)"
    using assms(5) by (simp add: advanceLoad_def loadTrusted_def memoryStoreOps_def)
  then have "advanceTrustedCheckpoint c (memoryStoreOps H) ctx cand n s = Some (Inl ?err, n + 7, s)"
    using assms(3,4) by (simp add: advanceTrustedCheckpoint_def advanceLoop.simps)
  moreover have "errors_As is_VerificationError ?err = None" "errors_As is_CheckpointAdvanceError ?err = Some ?err"
    by (simp_all add: checkpointAdvanceError_def errors_As.simps)
  then have "logVerificationError ?err transient
      = NewVerificationError (advanceErrorCode ?err) False ''dnsid: c2sp-tlog checkpoint continuity failed'' (Some ?err)"
    by (simp add: logVerificationError_def)
  ultimately show ?thesis
    by (intro exI [of _ ?err]) (simp add: NewVerificationError_def checkpointAdvanceError_def)
qed

subsection \<open>Witnesses\<close>

lemma sample_valid: "\<lbrakk>0 < n; n < 100\<rbrakk> \<Longrightarrow> validateTrustedCheckpoint sample_hashes ''o'' (sample_trusted n) = Inr ()"
  by (simp add: validateTrustedCheckpoint_def sample_trusted_def endOfYear9999_def)

lemma sample_hashes_client [simp]: "tcHashes sample_client = sample_hashes"
  by (simp add: sample_client_def)

lemma sample_origin [simp]: "cpOrigin (sample_trusted n) = ''o''" "cpTreeSize (sample_trusted n) = n"
  by (simp_all add: sample_trusted_def)

lemma sample_store_ok: "storeOk sample_hashes (shStore (sample_run [(''o'', sample_trusted 3)]))"
  by (simp add: storeOk_def sample_run_def sample_valid)

lemma sample_advance:
  assumes "m = [] \<or> (\<exists>k. m = [(''o'', sample_trusted k)] \<and> 0 < k \<and> k < n)" and "0 < n" "n < 100"
  shows "clientRuns sample_hashes (\<lambda>_. sample_client) (\<lambda>_ _. None) (sample_run m) (sample_run [(''o'', sample_trusted n)])"
proof -
  let ?R = "clientStep (memoryStoreOps sample_hashes) (\<lambda>_. sample_client) (\<lambda>_ _. None)"
  let ?c = "sample_trusted n" and ?t = "map_of m ''o''"
  let ?s = "\<lambda>m pc. \<lparr>shStore = Some \<lparr>msMu = True, msCheckpoints = m\<rparr>, shPc = (\<lambda>_. Idle)(0 := pc)\<rparr>"
  have "validateTrustedCheckpoint sample_hashes ''o'' ?c = Inr ()"
    using assms(2,3) by (rule sample_valid)
  moreover have sv: "storedValid sample_hashes ''o'' ?t = Inr ()"
    using assms by (auto simp: storedValid_def sample_valid)
  ultimately have "advanceLoad sample_client (memoryStoreOps sample_hashes) (\<lambda>_. None) ?c 0 (Some \<lparr>msMu = True, msCheckpoints = m\<rparr>)
      = Some (Proceed ?t, Some \<lparr>msMu = True, msCheckpoints = m\<rparr>)"
    using assms
    by (auto simp: advanceLoad_def loadTrusted_def memoryStoreOps_def LoadContext_def lock_def advanceDecide_def storedValid_def
        verifyCheckpointConsistency_def usableScan_def sample_client_def verifyExplicitConsistency_def)
  moreover have "advanceSwap (memoryStoreOps sample_hashes) (\<lambda>_. None) ?c 0 ?t (Some \<lparr>msMu = True, msCheckpoints = m\<rparr>)
      = (Some (Inr ()), Some \<lparr>msMu = True, msCheckpoints = [(''o'', ?c)]\<rparr>)"
    using assms sv sample_valid [OF assms(2,3)]
    by (auto simp: advanceSwap_def swapTrusted_def memoryStoreOps_def CompareAndSwapContext_def lock_def Let_def split: option.splits)
  ultimately have "?R (sample_run m) (?s m (Loading ?c 0 0))" "?R (?s m (Loading ?c 0 0)) (?s m (Swapping ?c 0 0 ?t))"
    "?R (?s m (Swapping ?c 0 0 ?t)) (sample_run [(''o'', ?c)])"
    using clientStep.call [of "sample_run m" 0 "\<lambda>_. sample_client" ?c "memoryStoreOps sample_hashes" "\<lambda>_ _. None" 0]
      clientStep.load_proceed [of "?s m (Loading ?c 0 0)" 0 ?c 0 0 "\<lambda>_. sample_client" "memoryStoreOps sample_hashes" "\<lambda>_ _. None" ?t]
      clientStep.swap_done [of "?s m (Swapping ?c 0 0 ?t)" 0 ?c 0 0 ?t "memoryStoreOps sample_hashes" "\<lambda>_ _. None" "Inr ()" _ "\<lambda>_. sample_client"]
      sample_valid [OF assms(2,3)]
    by (simp_all add: sample_run_def fun_upd_idem)
  then show ?thesis by (meson converse_rtranclp_into_rtranclp rtranclp.rtrancl_refl)
qed

lemma sample_scanTiles: "scanTiles sample_client"
  by (simp add: scanTiles_def sample_client_def)

lemma sample_fresh: "freshClients = sample_run []"
  by (simp add: freshClients_def sample_run_def NewMemoryTrustedC2spCheckpointStore_def)

lemma sample_stored [simp]: "storedAt (shStore (sample_run m)) origin = map_of m origin"
  by (simp add: sample_run_def storedAt_def)

theorem trust_never_rolls_back_witness:
  "\<exists>b. storedAt (shStore (sample_run [(''o'', sample_trusted 7)])) ''o'' = Some b
     \<and> advanceChain (\<lambda>_. sample_client :: memoryStore option trustClient) (sample_trusted 3) b"
proof -
  have "clientRuns sample_hashes (\<lambda>_. sample_client) (\<lambda>_ _. None) freshClients (sample_run [(''o'', sample_trusted 3)])"
    unfolding sample_fresh by (rule sample_advance) simp_all
  moreover have "clientRuns sample_hashes (\<lambda>_. sample_client) (\<lambda>_ _. None) (sample_run [(''o'', sample_trusted 3)])
      (sample_run [(''o'', sample_trusted 7)])"
    by (rule sample_advance) (auto intro!: exI [of _ "3::nat"])
  ultimately show ?thesis
    using trust_never_rolls_back [where origin = "''o''" and a = "sample_trusted 3"] by fastforce
qed

theorem advance_iterations_bounded_witness:
  "\<exists>\<sigma>. clientRuns sample_hashes (\<lambda>_. sample_client) (\<lambda>_ _. None) freshClients \<sigma>
     \<and> shPc \<sigma> 0 = Loading (sample_trusted 3) 0 0 \<and> 0 \<le> cpTreeSize (sample_trusted 3) + 1"
proof -
  let ?\<sigma> = "freshClients\<lparr>shPc := (shPc freshClients)(0 := Loading (sample_trusted 3) 0 0)\<rparr>"
  have "clientStep (memoryStoreOps sample_hashes) (\<lambda>_. sample_client) (\<lambda>_ _. None) freshClients ?\<sigma>"
    using sample_valid [of 3] by (intro clientStep.call) (simp_all add: freshClients_def)
  then have "clientRuns sample_hashes (\<lambda>_. sample_client) (\<lambda>_ _. None) freshClients ?\<sigma>" by simp
  from advance_iterations_bounded [OF this] this show ?thesis
    by (metis fun_upd_same sharedState.select_convs(2) sharedState.surjective sharedState.update_convs(2))
qed


theorem refused_candidate_errors_witness:
  "\<exists>err. advanceTrustedCheckpoint sample_client (memoryStoreOps sample_hashes) (\<lambda>_. None) (sample_trusted 2) 0
       (shStore (sample_run [(''o'', sample_trusted 3)])) = Some (Inl err, 0 + 7, shStore (sample_run [(''o'', sample_trusted 3)]))
     \<and> Code (logVerificationError err True) = Some LogRollback"
proof -
  have "storedAt (shStore (sample_run [(''o'', sample_trusted 3)])) (cpOrigin (sample_trusted 2)) = Some (sample_trusted 3)"
    by simp
  from refused_candidate_errors [OF sample_store_ok this, of sample_client "\<lambda>_. None" 0 True] show ?thesis
    by (auto simp: sample_valid)
qed

end
