(* ===== verification/Log_Client.thy ===== *)
theory Log_Client
  imports Stream_Replay Checkpoint_Store
begin

text \<open>
  The client of a \<open>c2sp-tlog\<close> stream (\<open>log/c2sptlog/client.go\<close>, \<open>migration.go\<close>): it reads entries from a source,
  verifies the proof of each, advances the trusted checkpoints, replays the stream and answers questions about the
  identity: the key in force, the binding of the issuance, continuity, non-revocation.

  A method is a computation over the store of trusted checkpoints that may fail or, when the store keeps refusing,
  not return. It counts the calls it makes of its context, its source and its clock, so that each call may answer
  differently. A context carries the error it reports, the path of migrations and the scan evidence.
\<close>

section \<open>Computations\<close>

type_synonym ('a, 's) io = "nat \<times> 's \<Rightarrow> ((sdk_error + 'a) \<times> nat \<times> 's) option"

definition io_bind :: "('a, 's) io \<Rightarrow> ('a \<Rightarrow> ('b, 's) io) \<Rightarrow> ('b, 's) io" where
  "io_bind m k w =
     (case m w of
        None \<Rightarrow> None
      | Some (Inl err, w') \<Rightarrow> Some (Inl err, w')
      | Some (Inr a, w') \<Rightarrow> k a w')"

definition io_lift :: "sdk_error + 'a \<Rightarrow> ('a, 's) io" where
  "io_lift r w = Some (r, w)"

definition io_call :: "(nat \<Rightarrow> sdk_error + 'a) \<Rightarrow> ('a, 's) io" where
  "io_call f w = Some (f (fst w), Suc (fst w), snd w)"

definition io_map_err :: "(sdk_error \<Rightarrow> sdk_error) \<Rightarrow> ('a, 's) io \<Rightarrow> ('a, 's) io" where
  "io_map_err f m w = map_option (\<lambda>(r, w'). (map_err f r, w')) (m w)"

text \<open>\<open>ctx.Err()\<close>; the deferred \<open>if err == nil { err = ctx.Err() }\<close> of the methods.\<close>

definition io_ctx :: "ctxErrs \<Rightarrow> (unit, 's) io" where
  "io_ctx ctx = io_call (\<lambda>n. case ctx n of None \<Rightarrow> Inr () | Some err \<Rightarrow> Inl err)"

definition io_then_ctx :: "ctxErrs \<Rightarrow> ('a, 's) io \<Rightarrow> ('a, 's) io" where
  "io_then_ctx ctx m = io_bind m (\<lambda>a. io_bind (io_ctx ctx) (\<lambda>_. io_lift (Inr a)))"

section \<open>Migration limits\<close>

record MigrationVerificationLimits =
  mlMaxDepth :: int
  mlMaxHistoryEvents :: int
  mlMaxResponseBytes :: int

definition defaultMigrationVerificationLimits :: MigrationVerificationLimits where
  "defaultMigrationVerificationLimits = \<lparr>mlMaxDepth = 8, mlMaxHistoryEvents = 10000, mlMaxResponseBytes = 8 * 2 ^ 20\<rparr>"

definition withDefaults :: "MigrationVerificationLimits \<Rightarrow> MigrationVerificationLimits" where
  "withDefaults l =
     (let d = defaultMigrationVerificationLimits in
      \<lparr>mlMaxDepth = (if mlMaxDepth l = 0 then mlMaxDepth d else mlMaxDepth l),
       mlMaxHistoryEvents = (if mlMaxHistoryEvents l = 0 then mlMaxHistoryEvents d else mlMaxHistoryEvents l),
       mlMaxResponseBytes = (if mlMaxResponseBytes l = 0 then mlMaxResponseBytes d else mlMaxResponseBytes l)\<rparr>)"

record migrationPath =
  mpNextLog :: string
  mpDepth :: int
  mpSeen :: "string list"
  mpLimits :: MigrationVerificationLimits

text \<open>
  What a context carries; a \<open>nil\<close> context is \<open>None\<close> where a function accepts one. \<open>ccScan\<close> is the cell for the
  evidence of a complete scan, when the context has one.
\<close>

record callContext =
  ccErr :: ctxErrs
  ccPath :: "migrationPath option"
  ccScan :: "(string \<times> bytes list) option option"

definition migrationLimitsForContext ::
  "callContext option \<Rightarrow> MigrationVerificationLimits \<Rightarrow> MigrationVerificationLimits" where
  "migrationLimitsForContext ctx l =
     (case ctx of
        None \<Rightarrow> withDefaults l
      | Some x \<Rightarrow> (case ccPath x of Some path \<Rightarrow> mpLimits path | None \<Rightarrow> withDefaults l))"

definition enterMigration ::
  "callContext option \<Rightarrow> 'k LogEvent \<Rightarrow> string \<Rightarrow> MigrationVerificationLimits
    \<Rightarrow> sdk_error + callContext \<times> MigrationVerificationLimits" where
  "enterMigration ctx event currentLog l =
     (case ctx of
        None \<Rightarrow> Inl (PlainError ''dnsid: c2sp-tlog migration verification context is required'' None)
      | Some x \<Rightarrow>
          (let limits = migrationLimitsForContext ctx l;
               path = ccPath x;
               seen = (case path of None \<Rightarrow> [currentLog] | Some p \<Rightarrow> mpSeen p);
               depth = (case path of None \<Rightarrow> 0 | Some p \<Rightarrow> mpDepth p)
           in
           if (case path of None \<Rightarrow> False | Some p \<Rightarrow> mpNextLog p \<noteq> currentLog)
           then Inl (PlainError ''dnsid: c2sp-tlog migration history is not contiguous'' None)
           else if (case path of None \<Rightarrow> False | Some p \<Rightarrow> mpDepth p \<ge> mlMaxDepth limits)
           then Inl (PlainError ''dnsid: c2sp-tlog migration recursion exceeds configured maximum'' None)
           else if evPreviousLog event \<in> set seen
           then Inl (PlainError ''dnsid: c2sp-tlog migration cycle'' None)
           else Inr (x\<lparr>ccPath := Some \<lparr>mpNextLog = evPreviousLog event, mpDepth = depth + 1,
                         mpSeen = evPreviousLog event # seen, mpLimits = limits\<rparr>\<rparr>, limits)))"

text \<open>The loop of \<open>validateMigrationResources\<close>: number of migrations, logs seen, last log.\<close>

fun migrationChain ::
  "'k LogEvent list \<Rightarrow> int \<times> string list \<times> string \<Rightarrow> sdk_error + int \<times> string list \<times> string" where
  "migrationChain [] acc = Inr acc"
| "migrationChain (prior # rest) (migrations, seen, lastLog) =
     (if evType prior \<noteq> LogEventMigration then migrationChain rest (migrations, seen, lastLog)
      else if lastLog \<noteq> '''' \<and> evPreviousLog prior \<noteq> lastLog
      then Inl (PlainError ''dnsid: c2sp-tlog migration history is not contiguous'' None)
      else
        (let seen1 = (if lastLog = '''' then evPreviousLog prior # seen else seen) in
         if evNewLog prior \<in> set seen1
         then Inl (PlainError ''dnsid: c2sp-tlog migration history contains a cycle'' None)
         else migrationChain rest (migrations + 1, evNewLog prior # seen1, evNewLog prior)))"

text \<open>\<open>marshalSize\<close> is the length of \<open>json.Marshal\<close> of a result, whose keys the JWK library encodes.\<close>

definition validateMigrationResources ::
  "('k MigrationVerificationResult \<Rightarrow> int option) \<Rightarrow> 'k LogEvent \<Rightarrow> 'k MigrationVerificationResult
    \<Rightarrow> MigrationVerificationLimits \<Rightarrow> sdk_error + unit" where
  "validateMigrationResources marshalSize event result l =
     (let limits = withDefaults l in
      if int (length (mrPriorHistory result)) > mlMaxHistoryEvents limits
      then Inl (PlainError ''dnsid: c2sp-tlog migration history exceeds configured maximum'' None)
      else
        rbind (migrationChain (mrPriorHistory result) (1, [], '''')) (\<lambda>(migrations, seen, lastLog).
        if migrations > mlMaxDepth limits
        then Inl (PlainError ''dnsid: c2sp-tlog migration recursion exceeds configured maximum'' None)
        else if lastLog \<noteq> '''' \<and> lastLog \<noteq> evPreviousLog event
        then Inl (PlainError ''dnsid: c2sp-tlog migration history does not end at previous log'' None)
        else if evNewLog event \<in> set (if lastLog = '''' then evPreviousLog event # seen else seen)
        then Inl (PlainError ''dnsid: c2sp-tlog migration history contains a cycle'' None)
        else
          (case marshalSize result of
             None \<Rightarrow> Inl (PlainError ''dnsid: encoding c2sp-tlog migration response'' None)
           | Some encoded \<Rightarrow>
               check (encoded \<le> mlMaxResponseBytes limits)
                 (PlainError ''dnsid: c2sp-tlog migration response exceeds configured byte maximum'' None))))"

section \<open>Clients\<close>

record CompleteHistoryResult =
  chrEntries :: "ProvenEntry list"
  chrCheckpoint :: bytes
  chrCompleteThrough :: nat
  chrCompletenessMode :: string
  chrFreshnessTime :: gotime

text \<open>
  \<open>Source\<close>, and \<open>CompleteSource\<close>, \<open>GlobalCandidateSource\<close> and the sources of consistency evidence where a source
  implements them. A call is given its number; a scan leaves its entries in the context.
\<close>

record source =
  soReadEvent :: "string \<Rightarrow> nat \<Rightarrow> sdk_error + ProvenEntry \<times> (string \<times> bytes list) option"
  soRebuildHistory :: "Reference \<Rightarrow> string \<Rightarrow> nat \<Rightarrow> sdk_error + ProvenEntry list \<times> (string \<times> bytes list) option"
  soComplete :: "(Reference \<Rightarrow> string \<Rightarrow> nat \<Rightarrow> sdk_error + CompleteHistoryResult \<times> (string \<times> bytes list) option) option"
  soGlobalCandidates :: "bool option"
  soConsistency :: consistencySource

record preloadedHistory =
  phErr :: ctxErrs
  phDomain :: string
  phEntries :: "ProvenEntry list"
  phExpires :: gotime
  phNow :: "nat \<Rightarrow> gotime"
  phScan :: "(string \<times> bytes list) option"

definition checkExpiry :: "preloadedHistory \<Rightarrow> nat \<Rightarrow> sdk_error + unit" where
  "checkExpiry h n =
     check (phExpires h = 0 \<or> phNow h n < phExpires h) (PlainError ''dnsid: preloaded c2sp stream bundle expired'' None)"

text \<open>
  Outside code: the event libraries, the tree hashes, note and proof formats, consistency proofs, and the size of an
  encoded migration result. An \<open>Appender\<close> is given an entry and the number of the call.
\<close>

record ('k, 'p, 'q, 'f) clientLib =
  clEvents :: "('k, 'p, 'q, 'f) eventLib"
  clHashes :: tlog_lib
  clCosigTime :: "signature \<Rightarrow> gotime option"
  clParseCheckpoint :: "bytes \<Rightarrow> string \<Rightarrow> verifier \<Rightarrow> verifier list \<Rightarrow> (Checkpoint \<times> signature list) option"
  clUnmarshalProof :: "bytes \<Rightarrow> (nat \<times> bytes list \<times> bytes) option"
  clCheckRecord :: "bytes list \<Rightarrow> nat \<Rightarrow> bytes \<Rightarrow> nat \<Rightarrow> bytes \<Rightarrow> bool"
  clVerifyConsistency :: "nat \<Rightarrow> nat \<Rightarrow> bytes list \<Rightarrow> bytes \<Rightarrow> bytes \<Rightarrow> sdk_error option"
  clMarshalSize :: "'k MigrationVerificationResult \<Rightarrow> int option"

record ('k, 's) Client =
  cRef :: Reference
  cSource :: "source option"
  cAppender :: "(bytes \<Rightarrow> nat \<Rightarrow> sdk_error + nat) option"
  cPolicy :: Policy
  cCheckpointStore :: "'s checkpointStore option"
  cVerifyMigration :: "(callContext \<Rightarrow> 'k LogEvent \<Rightarrow> sdk_error + 'k MigrationVerificationResult) option"
  cMigrationLimits :: MigrationVerificationLimits
  cTrustedScope :: string
  cTrustedLogPrefix :: string
  cPreloaded :: "preloadedHistory option"

text \<open>The zero \<open>Policy\<close>, whose clock shows \<open>now\<close>.\<close>

definition zeroPolicy :: "gotime \<Rightarrow> Policy" where
  "zeroPolicy now =
     \<lparr>plLogVerifier = None, plWitnessVerifiers = [], plWitnessQuorum = 0, plCheckpointTime = None, plNow = now,
      plMaxCheckpointAge = 0, plClockSkew = 0, plQuorumRule = None, plTrustedPublicKeys = [], plSkipProofVerify = False\<rparr>"

definition New ::
  "(string \<Rightarrow> URL option) \<Rightarrow> gotime \<Rightarrow> string \<Rightarrow> (('k, 's) Client \<Rightarrow> ('k, 's) Client) list \<Rightarrow> sdk_error + ('k, 's) Client" where
  "New urlParse now lr opts =
     rbind (ParseReference urlParse lr) (\<lambda>ref.
       let c = fold (\<lambda>opt c. opt c) opts
                 \<lparr>cRef = ref, cSource = None, cAppender = None, cPolicy = zeroPolicy now, cCheckpointStore = None, cVerifyMigration = None,
                  cMigrationLimits = defaultMigrationVerificationLimits, cTrustedScope = '''', cTrustedLogPrefix = '''',
                  cPreloaded = None\<rparr>
       in if mlMaxDepth (cMigrationLimits c) < 0 \<or> mlMaxHistoryEvents (cMigrationLimits c) < 0
             \<or> mlMaxResponseBytes (cMigrationLimits c) < 0
          then Inl (PlainError ''dnsid: c2sp-tlog migration verification limits must be non-negative'' None)
          else if cTrustedLogPrefix c \<noteq> '''' \<and> (refScope ref \<noteq> cTrustedScope c \<or> refLogPrefix ref \<noteq> cTrustedLogPrefix c)
          then Inl (PlainError ''dnsid: c2sp-tlog reference is not accepted by the trust profile'' None)
          else Inr (c\<lparr>cMigrationLimits := withDefaults (cMigrationLimits c)\<rparr>))"

definition WithSource :: "source option \<Rightarrow> ('k, 's) Client \<Rightarrow> ('k, 's) Client" where
  "WithSource src c = c\<lparr>cSource := src\<rparr>"

definition WithAppender :: "(bytes \<Rightarrow> nat \<Rightarrow> sdk_error + nat) option \<Rightarrow> ('k, 's) Client \<Rightarrow> ('k, 's) Client" where
  "WithAppender appender c = c\<lparr>cAppender := appender\<rparr>"

definition WithPolicy :: "Policy \<Rightarrow> ('k, 's) Client \<Rightarrow> ('k, 's) Client" where
  "WithPolicy policy c = c\<lparr>cPolicy := policy\<rparr>"

definition WithTrustedCheckpointStore :: "'s checkpointStore option \<Rightarrow> ('k, 's) Client \<Rightarrow> ('k, 's) Client" where
  "WithTrustedCheckpointStore st c = c\<lparr>cCheckpointStore := st\<rparr>"

definition WithMigrationVerifier ::
  "(callContext \<Rightarrow> 'k LogEvent \<Rightarrow> sdk_error + 'k MigrationVerificationResult) option \<Rightarrow> ('k, 's) Client \<Rightarrow> ('k, 's) Client" where
  "WithMigrationVerifier verifier c = c\<lparr>cVerifyMigration := verifier\<rparr>"

definition WithMigrationVerificationLimits :: "MigrationVerificationLimits \<Rightarrow> ('k, 's) Client \<Rightarrow> ('k, 's) Client" where
  "WithMigrationVerificationLimits limits c = c\<lparr>cMigrationLimits := limits\<rparr>"

definition withProofVerifySkipped :: "('k, 's) Client \<Rightarrow> ('k, 's) Client" where
  "withProofVerifySkipped c = c\<lparr>cPolicy := (cPolicy c)\<lparr>plSkipProofVerify := True\<rparr>\<rparr>"

definition withTrustProfile :: "string \<Rightarrow> string \<Rightarrow> ('k, 's) Client \<Rightarrow> ('k, 's) Client" where
  "withTrustProfile scope logPrefix c = c\<lparr>cTrustedScope := scope, cTrustedLogPrefix := logPrefix\<rparr>"

definition verifyBoundedMigration ::
  "('k, 'p, 'q, 'f) clientLib \<Rightarrow> ('k, 's) Client \<Rightarrow> (callContext \<Rightarrow> 'k LogEvent \<Rightarrow> sdk_error + 'k MigrationVerificationResult)
    \<Rightarrow> callContext \<Rightarrow> 'k LogEvent \<Rightarrow> sdk_error + 'k MigrationVerificationResult" where
  "verifyBoundedMigration L c verify x event =
     rbind (enterMigration (Some x) event (reference_String (cRef c)) (cMigrationLimits c)) (\<lambda>(x', limits).
     rbind (verify x' event) (\<lambda>result.
     rbind (validateMigrationResources (clMarshalSize L) event result limits) (\<lambda>_. Inr result)))"

definition isInboundMigration :: "('k, 's) Client \<Rightarrow> 'k LogEvent \<Rightarrow> bool" where
  "isInboundMigration c event = (evType event = LogEventMigration \<and> evNewLog event = reference_String (cRef c))"

section \<open>Verified histories\<close>

definition clientVerifyProof ::
  "('k, 'p, 'q, 'f) clientLib \<Rightarrow> ('k, 's) Client \<Rightarrow> bytes \<Rightarrow> bytes \<Rightarrow> sdk_error + VerifiedProof option" where
  "clientVerifyProof L c entry rawProof =
     VerifyProof (clHashes L) (clCosigTime L) (elParse (clEvents L)) (clParseCheckpoint L) (clUnmarshalProof L)
       (clCheckRecord L) (cPolicy c) (cRef c) entry rawProof"

definition clientVerifyCheckpoint ::
  "('k, 'p, 'q, 'f) clientLib \<Rightarrow> ('k, 's) Client \<Rightarrow> bytes \<Rightarrow> sdk_error + VerifiedProof" where
  "clientVerifyCheckpoint L c rawCheckpoint =
     verifyCheckpoint (clHashes L) (clCosigTime L) (elParse (clEvents L)) (clParseCheckpoint L) (cPolicy c) (cRef c) rawCheckpoint"

definition sameCheckpoint :: "Checkpoint option \<Rightarrow> Checkpoint option \<Rightarrow> bool" where
  "sameCheckpoint a b =
     (case (a, b) of
        (Some x, Some y) \<Rightarrow> chOrigin x = chOrigin y \<and> chSize x = chSize y \<and> chHash x = chHash y
      | _ \<Rightarrow> False)"

text \<open>A proof that was not verified, and what the loop makes of it: its index, its checkpoint and its log time.\<close>

definition skippedProof :: "nat \<Rightarrow> Checkpoint \<Rightarrow> VerifiedProof" where
  "skippedProof index cp =
     \<lparr>vpIndex = index, vpCheckpoint = cp, vpNoteSigs = [], vpWitnessTime = 0, vpIntegrationTime = 0, vpFreshnessTime = 0, vpLogTime = 0\<rparr>"

definition entryProof :: "ProvenEntry \<Rightarrow> VerifiedProof option \<Rightarrow> VerifiedProof option \<Rightarrow> nat \<times> VerifiedProof option \<times> gotime" where
  "entryProof entry required proof =
     (case proof of
        Some v \<Rightarrow> (vpIndex v, Some v, vpLogTime v)
      | None \<Rightarrow> (pnIndex entry, map_option (\<lambda>r. skippedProof (pnIndex entry) (vpCheckpoint r)) required, 0))"

text \<open>An entry whose proof has been accepted: the event it adds to the history, if any.\<close>

definition historyEvent ::
  "('k, 'p, 'q, 'f) clientLib \<Rightarrow> ('k, 's) Client \<Rightarrow> bool \<Rightarrow> string \<Rightarrow> nat \<Rightarrow> gotime \<Rightarrow> bytes \<Rightarrow> sdk_error + 'k verifiedEvent option" where
  "historyEvent L c globalCandidates domain index logTime entry =
     (case validateEntryMetadata (clEvents L) (cRef c) entry of
        Inl err \<Rightarrow>
          if errors_Is err ErrNestingLimit
          then Inl (NewVerificationError InvalidEvidence False ''dnsid: c2sp-tlog verification resource limit exceeded'' (Some err))
          else if \<not> globalCandidates then Inl err else Inr None
      | Inr _ \<Rightarrow>
          (case parseEventFromEntry (clEvents L) entry of
             Inl _ \<Rightarrow> Inr None
           | Inr parsed \<Rightarrow>
               if evDomain (peEvent parsed) \<noteq> domain then
                 (if \<not> globalCandidates then Inl (PlainError ''dnsid: supplied bundle event is for another domain'' None) else Inr None)
               else if logTime = 0 \<and> \<not> plSkipProofVerify (cPolicy c)
               then Inl (NewVerificationError InvalidEvidence False ''dnsid: lifecycle verification requires an accepted checkpoint timestamp'' None)
               else
                 (let validationError = (if logTime \<noteq> 0 \<and> evTimestamp (peEvent parsed) > logTime
                                         then Some (PlainError ''dnsid: event timestamp is after accepted log timestamp'' None)
                                         else peValidationError parsed)
                  in case CanonicalFromEntry (elFloat (clEvents L)) entry of
                       Inl err \<Rightarrow> if \<not> globalCandidates then Inl err else Inr None
                     | Inr signed \<Rightarrow> Inr (Some (verifiedOf parsed index signed validationError)))))"

definition historyEntry ::
  "('k, 'p, 'q, 'f) clientLib \<Rightarrow> ('k, 's) Client \<Rightarrow> bool \<Rightarrow> string \<Rightarrow> VerifiedProof option \<Rightarrow> ProvenEntry
    \<Rightarrow> sdk_error + VerifiedProof option \<times> 'k verifiedEvent option" where
  "historyEntry L c globalCandidates domain required entry =
     (case clientVerifyProof L c (pnEntry entry) (pnProof entry) of
        Inl err \<Rightarrow>
          if \<not> globalCandidates \<or> errors_As is_VerificationError err \<noteq> None
          then Inl (NewVerificationError InvalidEvidence False ''dnsid: invalid c2sp-tlog inclusion or checkpoint evidence'' (Some err))
          else Inr (None, None)
      | Inr verified \<Rightarrow>
          (case entryProof entry required verified of (index, proof, logTime) \<Rightarrow>
             if required \<noteq> None \<and> \<not> sameCheckpoint (map_option vpCheckpoint proof) (map_option vpCheckpoint required)
             then Inl (PlainError ''dnsid: c2sp-tlog entry proof is not bound to the complete checkpoint'' None)
             else if index \<noteq> pnIndex entry
             then Inl (NewVerificationError InvalidEvidence False ''dnsid: supplied occurrence index does not match its proof'' None)
             else
               rbind (historyEvent L c globalCandidates domain index logTime (pnEntry entry)) (\<lambda>event. Inr (proof, event))))"

fun historyEntries ::
  "('k, 'p, 'q, 'f) clientLib \<Rightarrow> ('k, 's) Client \<Rightarrow> ctxErrs \<Rightarrow> bool \<Rightarrow> string \<Rightarrow> VerifiedProof option \<Rightarrow> ProvenEntry list
    \<Rightarrow> (VerifiedProof list \<times> 'k verifiedEvent list, 's) io" where
  "historyEntries L c ctx globalCandidates domain required [] = io_lift (Inr ([], []))"
| "historyEntries L c ctx globalCandidates domain required (entry # entries) =
     io_bind (io_ctx ctx) (\<lambda>_.
     io_bind (io_lift (historyEntry L c globalCandidates domain required entry)) (\<lambda>(proof, event).
     io_bind (historyEntries L c ctx globalCandidates domain required entries) (\<lambda>(proofs, events).
       io_lift (Inr ((case proof of None \<Rightarrow> proofs | Some p \<Rightarrow> p # proofs),
                     (case event of None \<Rightarrow> events | Some e \<Rightarrow> e # events))))))"

text \<open>\<open>advanceTrustedCheckpoints\<close> of the client, with the evidence its context carries.\<close>

definition clientAdvance ::
  "('k, 'p, 'q, 'f) clientLib \<Rightarrow> ('k, 's) Client \<Rightarrow> callContext \<Rightarrow> VerifiedProof list \<Rightarrow> (unit, 's) io" where
  "clientAdvance L c x proofs w =
     advanceTrustedCheckpoints
       \<lparr>tcHashes = clHashes L, tcVerifyConsistency = clVerifyConsistency L, tcEvidence = (case ccScan x of None \<Rightarrow> None | Some scan \<Rightarrow> scan),
        tcSource = (case cSource c of None \<Rightarrow> \<lparr>csProof = None, csTiles = None, csFullLog = None\<rparr> | Some src \<Rightarrow> soConsistency src),
        tcRef = cRef c, tcStore = cCheckpointStore c\<rparr>
       (ccErr x) proofs (fst w) (snd w)"

definition clientReplay ::
  "('k, 'p, 'q, 'f) clientLib \<Rightarrow> ('k, 's) Client \<Rightarrow> callContext \<Rightarrow> 'k verifiedEvent list
    \<Rightarrow> ('k verifiedEvent list \<times> 'k LogEvent list, 's) io" where
  "clientReplay L c x verified w =
     Some (verifyLifecycleVerifiedWithMigration (clEvents L) (\<lambda>i. ccErr x (fst w + i)) verified
             (map_option (\<lambda>verify. verifyBoundedMigration L c verify x) (cVerifyMigration c)) (reference_String (cRef c)),
           fst w + length verified + 1, snd w)"

definition stitchHistory ::
  "('k, 's) Client \<Rightarrow> callContext \<Rightarrow> 'k verifiedEvent list \<Rightarrow> 'k LogEvent list \<Rightarrow> sdk_error + 'k verifiedEvent list \<times> 'k LogEvent list" where
  "stitchHistory c x accepted priorHistory =
     (let maximum = mlMaxHistoryEvents (migrationLimitsForContext (Some x) (cMigrationLimits c)) in
      if priorHistory \<noteq> [] \<and> (int (length accepted) > maximum \<or> int (length priorHistory) > maximum - int (length accepted))
      then Inl (invalidMigration ''dnsid: c2sp-tlog stitched migration history exceeds configured maximum'' None)
      else Inr (accepted, priorHistory @ map veEvent accepted))"

definition verifyHistoryEntries ::
  "('k, 'p, 'q, 'f) clientLib \<Rightarrow> ('k, 's) Client \<Rightarrow> callContext \<Rightarrow> string \<Rightarrow> ProvenEntry list \<Rightarrow> VerifiedProof option
    \<Rightarrow> ('k verifiedEvent list \<times> 'k LogEvent list, 's) io" where
  "verifyHistoryEntries L c x domain entries required =
     io_bind (io_lift (validateHistorySize entries)) (\<lambda>_.
     io_bind (historyEntries L c (ccErr x)
                (case cSource c of Some src \<Rightarrow> soGlobalCandidates src = Some True | None \<Rightarrow> False) domain required entries) (\<lambda>(proofs, verified).
     io_bind (io_map_err (\<lambda>err. logVerificationError err False)
                (clientAdvance L c x (sort_key (\<lambda>v. chSize (vpCheckpoint v))
                   ((case required of None \<Rightarrow> [] | Some r \<Rightarrow> [r]) @ proofs)))) (\<lambda>_.
     io_bind (clientReplay L c x (sort_key veIndex verified)) (\<lambda>(accepted, priorHistory).
     io_lift (stitchHistory c x accepted priorHistory)))))"

text \<open>The evidence a scan leaves in the context.\<close>

definition noteScan :: "(string \<times> bytes list) option \<Rightarrow> callContext \<Rightarrow> callContext" where
  "noteScan scan x = (if scan \<noteq> None \<and> ccScan x \<noteq> None then x\<lparr>ccScan := Some scan\<rparr> else x)"

definition withScanEvidence :: "callContext \<Rightarrow> callContext" where
  "withScanEvidence x = (if ccScan x \<noteq> None then x else x\<lparr>ccScan := Some None\<rparr>)"

definition sourceRequired :: sdk_error where
  "sourceRequired = ArgumentError ''dnsid: c2sp-tlog source is required'' None"

definition rebuildVerifiedHistory ::
  "('k, 'p, 'q, 'f) clientLib \<Rightarrow> ('k, 's) Client \<Rightarrow> callContext \<Rightarrow> string \<Rightarrow> ('k verifiedEvent list \<times> 'k LogEvent list, 's) io" where
  "rebuildVerifiedHistory L c x domain = io_map_err (\<lambda>err. logVerificationError err False)
     (case cSource c of
        None \<Rightarrow> io_lift (Inl sourceRequired)
      | Some src \<Rightarrow>
          io_bind (io_call (\<lambda>n. Inr (case cPreloaded c of
                                       None \<Rightarrow> None
                                     | Some h \<Rightarrow> if phDomain h = domain \<and> phErr h n = None then Some h else None))) (\<lambda>history.
          case history of
            Some h \<Rightarrow>
              io_bind (io_call (checkExpiry h)) (\<lambda>_.
              io_bind (verifyHistoryEntries L c (x\<lparr>ccScan := Some (phScan h)\<rparr>) domain (phEntries h) None) (\<lambda>result.
              io_bind (io_call (checkExpiry h)) (\<lambda>_. io_lift (Inr result))))
          | None \<Rightarrow>
              io_bind (io_map_err (\<lambda>err. logVerificationError err True) (io_call (soRebuildHistory src (cRef c) domain))) (\<lambda>(entries, scan).
              verifyHistoryEntries L c (noteScan scan (withScanEvidence x)) domain entries None)))"

definition RebuildHistory ::
  "('k, 'p, 'q, 'f) clientLib \<Rightarrow> ('k, 's) Client \<Rightarrow> callContext \<Rightarrow> string \<Rightarrow> ('k LogEvent list, 's) io" where
  "RebuildHistory L c x domain = io_bind (rebuildVerifiedHistory L c x domain) (\<lambda>(_, events). io_lift (Inr events))"

section \<open>Questions about an identity\<close>

definition snapshotOf ::
  "('k, 'p, 'q, 'f) clientLib \<Rightarrow> 'k LogEvent list \<Rightarrow> string \<Rightarrow> gotime \<Rightarrow> sdk_error + 'k DomainSnapshot" where
  "snapshotOf L events domain at =
     SnapshotAt (elEqualFold (clEvents L)) (jkThumb (elKeys (clEvents L))) (Some (NewDomainLog domain events)) at"

definition terminalState :: sdk_error where
  "terminalState = NewVerificationError TerminalState False ''dnsid: c2sp-tlog identity has terminal logged state'' None"

definition activeHistoricalSnapshot ::
  "('k, 'p, 'q, 'f) clientLib \<Rightarrow> 'k LogEvent list \<Rightarrow> string \<Rightarrow> gotime \<Rightarrow> sdk_error + 'k DomainSnapshot" where
  "activeHistoricalSnapshot L events domain at =
     rbind (snapshotOf L events domain at) (\<lambda>snapshot.
       if ssHistoricalState snapshot \<noteq> AgentStateActive then Inl terminalState else Inr snapshot)"

fun issuanceEvent :: "'k LogEvent list \<Rightarrow> sdk_error + 'k LogEvent" where
  "issuanceEvent [] = Inl (PlainError ''dnsid: c2sp-tlog history has no ISSUANCE genesis'' None)"
| "issuanceEvent (event # events) = (if evType event = LogEventIssuance then Inr event else issuanceEvent events)"

definition keyThumb :: "('k, 'p, 'q, 'f) clientLib \<Rightarrow> string \<Rightarrow> 'k option \<Rightarrow> sdk_error + string" where
  "keyThumb L message key =
     (case thumbprintOf (elKeys (clEvents L)) key of None \<Rightarrow> Inl (PlainError message None) | Some t \<Rightarrow> Inr t)"

definition verifyBilateralBinding ::
  "('k, 'p, 'q, 'f) clientLib \<Rightarrow> 'k LogEvent list \<Rightarrow> 'k BilateralBindingInput \<Rightarrow> sdk_error + BilateralBinding" where
  "verifyBilateralBinding L events input =
     rbind (issuanceEvent events) (\<lambda>genesis.
     if \<not> elEqualFold (clEvents L) (evDomain genesis) (biDomain input)
     then Inl (PlainError ''dnsid: c2sp-tlog ISSUANCE fqdn does not match'' None)
     else
       rbind (keyThumb L ''dnsid: c2sp-tlog ISSUANCE entity key thumbprint failed'' (evInitialEntityPublicKey genesis)) (\<lambda>entityThumb.
       rbind (keyThumb L ''dnsid: c2sp-tlog record entity key thumbprint failed'' (biEntityKey input)) (\<lambda>recordEntityThumb.
       if entityThumb \<noteq> recordEntityThumb
       then Inl (PlainError ''dnsid: c2sp-tlog ISSUANCE entity key does not match record ek'' None)
       else if evGovernanceID genesis \<noteq> biGovernanceID input
       then Inl (PlainError ''dnsid: c2sp-tlog ISSUANCE gi does not match record gi'' None)
       else
         rbind (keyThumb L ''dnsid: c2sp-tlog ISSUANCE operational key thumbprint failed'' (evInitialOperationalPublicKey genesis)) (\<lambda>operationalThumb.
           Inr \<lparr>bbInitialOperationalThumbprint = operationalThumb, bbInitialEntityThumbprint = entityThumb,
                bbTimestamp = evTimestamp genesis\<rparr>))))"

definition verifyOperationalContinuity ::
  "('k, 'p, 'q, 'f) clientLib \<Rightarrow> 'k LogEvent list \<Rightarrow> string \<Rightarrow> string \<Rightarrow> string \<Rightarrow> gotime \<Rightarrow> sdk_error + unit" where
  "verifyOperationalContinuity L events domain initialOperationalThumbprint currentOperationalThumbprint at =
     rbind (issuanceEvent events) (\<lambda>genesis.
     rbind (keyThumb L ''dnsid: c2sp-tlog ISSUANCE operational key thumbprint failed'' (evInitialOperationalPublicKey genesis)) (\<lambda>initialThumbprint.
     if initialThumbprint \<noteq> initialOperationalThumbprint
     then Inl (PlainError ''dnsid: c2sp-tlog ISSUANCE operational key does not match continuity anchor'' None)
     else
       rbind (activeHistoricalSnapshot L events domain at) (\<lambda>snapshot.
         check (ssActiveKeyThumbprint snapshot = currentOperationalThumbprint)
           (PlainError ''dnsid: no active c2sp-tlog key binding'' None))))"

definition keyTimestampOf ::
  "('k, 'p, 'q, 'f) clientLib \<Rightarrow> ('k, 's) Client \<Rightarrow> 'k LogEvent list \<Rightarrow> string \<Rightarrow> string \<Rightarrow> sdk_error + gotime" where
  "keyTimestampOf L c events domain thumb =
     rbind (activeHistoricalSnapshot L events domain (plNow (cPolicy c))) (\<lambda>snapshot.
       if ssActiveKeyThumbprint snapshot \<noteq> thumb then Inl (PlainError ''dnsid: no active c2sp-tlog key binding'' None)
       else if ssKeyBoundAt snapshot \<noteq> 0 then Inr (ssKeyBoundAt snapshot)
       else Inl (PlainError ''dnsid: no c2sp-tlog key binding'' None))"

definition KeyTimestamp ::
  "('k, 'p, 'q, 'f) clientLib \<Rightarrow> ('k, 's) Client \<Rightarrow> callContext \<Rightarrow> string \<Rightarrow> string \<Rightarrow> (gotime, 's) io" where
  "KeyTimestamp L c x domain thumb = io_map_err (\<lambda>err. logVerificationError err False)
     (io_then_ctx (ccErr x)
        (io_bind (rebuildVerifiedHistory L c x domain) (\<lambda>(_, events). io_lift (keyTimestampOf L c events domain thumb))))"

text \<open>Results of the questions, with \<open>logVerificationError\<close> around their errors.\<close>

definition answer :: "sdk_error + 'a \<Rightarrow> ('a, 's) io" where
  "answer r = io_lift (map_err (\<lambda>err. logVerificationError err False) r)"

definition VerifyBilateralBinding ::
  "('k, 'p, 'q, 'f) clientLib \<Rightarrow> ('k, 's) Client \<Rightarrow> callContext \<Rightarrow> 'k BilateralBindingInput \<Rightarrow> (BilateralBinding, 's) io" where
  "VerifyBilateralBinding L c x input = io_then_ctx (ccErr x)
     (io_bind (rebuildVerifiedHistory L c x (biDomain input)) (\<lambda>(_, events).
      io_bind (answer (activeHistoricalSnapshot L events (biDomain input) (plNow (cPolicy c)))) (\<lambda>_.
      answer (verifyBilateralBinding L events input))))"

definition VerifyOperationalContinuity ::
  "('k, 'p, 'q, 'f) clientLib \<Rightarrow> ('k, 's) Client \<Rightarrow> callContext \<Rightarrow> string \<Rightarrow> string \<Rightarrow> string \<Rightarrow> (unit, 's) io" where
  "VerifyOperationalContinuity L c x domain initialOperationalThumbprint currentOperationalThumbprint = io_then_ctx (ccErr x)
     (io_bind (rebuildVerifiedHistory L c x domain) (\<lambda>(_, events).
      answer (verifyOperationalContinuity L events domain initialOperationalThumbprint currentOperationalThumbprint (plNow (cPolicy c)))))"

definition VerifyLifecycleBinding ::
  "('k, 'p, 'q, 'f) clientLib \<Rightarrow> ('k, 's) Client \<Rightarrow> callContext \<Rightarrow> 'k BilateralBindingInput \<Rightarrow> string \<Rightarrow> (BilateralBinding, 's) io" where
  "VerifyLifecycleBinding L c x input currentOperationalThumbprint = io_then_ctx (ccErr x)
     (io_bind (rebuildVerifiedHistory L c x (biDomain input)) (\<lambda>(_, events).
      io_bind (answer (verifyBilateralBinding L events input)) (\<lambda>binding.
      io_bind (answer (verifyOperationalContinuity L events (biDomain input) (bbInitialOperationalThumbprint binding)
                         currentOperationalThumbprint (plNow (cPolicy c)))) (\<lambda>_.
      io_lift (Inr binding)))))"

definition VerifyGovernanceRelationship ::
  "('k, 'p, 'q, 'f) clientLib \<Rightarrow> ('k, 's) Client \<Rightarrow> callContext \<Rightarrow> string \<Rightarrow> string \<Rightarrow> (unit, 's) io" where
  "VerifyGovernanceRelationship L c x domain governanceID = io_then_ctx (ccErr x)
     (io_bind (RebuildHistory L c x domain) (\<lambda>events.
      answer (check (list_ex (\<lambda>event. evType event = LogEventIssuance \<and> evGovernanceID event = governanceID) events)
                (PlainError ''dnsid: no c2sp-tlog governance relationship'' None))))"

section \<open>Complete histories\<close>

definition verifyCompleteCheckpoint ::
  "('k, 'p, 'q, 'f) clientLib \<Rightarrow> ('k, 's) Client \<Rightarrow> CompleteHistoryResult \<Rightarrow> sdk_error + VerifiedProof" where
  "verifyCompleteCheckpoint L c history =
     (if chrCompletenessMode history = '''' then Inl (PlainError ''dnsid: c2sp-tlog completeness mode is required'' None)
      else if plSkipProofVerify (cPolicy c) then
        (if chrFreshnessTime history = 0 then Inl (PlainError ''dnsid: c2sp-tlog checkpoint freshness time is required'' None)
         else if timeSub (plNow (cPolicy c)) (chrFreshnessTime history) > plMaxCheckpointAge (cPolicy c)
         then Inl (PlainError ''dnsid: c2sp-tlog checkpoint is stale'' None)
         else Inr ((skippedProof 0 \<lparr>chOrigin = '''', chSize = chrCompleteThrough history, chHash = []\<rparr>)
                     \<lparr>vpFreshnessTime := chrFreshnessTime history\<rparr>))
      else if chrCheckpoint history = [] then Inl (PlainError ''dnsid: c2sp-tlog complete checkpoint is required'' None)
      else
        rbind (clientVerifyCheckpoint L c (chrCheckpoint history)) (\<lambda>verified.
        if chSize (vpCheckpoint verified) \<noteq> chrCompleteThrough history
        then Inl (PlainError ''dnsid: c2sp-tlog completeness bound does not match checkpoint size'' None)
        else if vpFreshnessTime verified = 0 then Inl (PlainError ''dnsid: c2sp-tlog checkpoint freshness time is required'' None)
        else Inr verified))"

definition invalidEvidence :: "string \<Rightarrow> sdk_error" where
  "invalidEvidence message = NewVerificationError InvalidEvidence False message None"

text \<open>
  The loop of \<open>validatedPriorEvidence\<close> over the prior history: \<open>i\<close> is the position of the first event, \<open>m\<close> the number of migrations passed. The lengths
  have been compared before, so every index is in range.
\<close>

fun priorBoundaries ::
  "LoggedStateEvidence list \<Rightarrow> string list \<Rightarrow> nat \<Rightarrow> nat \<Rightarrow> 'k LogEvent list \<Rightarrow> sdk_error + unit" where
  "priorBoundaries all refs i m [] = Inr ()"
| "priorBoundaries all refs i m (prior # rest) =
     (if refs ! i = '''' then Inl (invalidEvidence ''dnsid: c2sp-tlog prior history contains an empty event reference'')
      else if evType prior \<noteq> LogEventMigration then priorBoundaries all refs (Suc i) m rest
      else if i = 0 \<or> lsLogReference (all ! m) \<noteq> evPreviousLog prior \<or> lsHistoryEnd (all ! m) \<noteq> refs ! (i - 1)
              \<or> refs ! (i - 1) \<noteq> evFinalEntryRef prior \<or> lsLogReference (all ! Suc m) \<noteq> evNewLog prior
              \<or> lsHistoryStart (all ! Suc m) \<noteq> refs ! i
      then Inl (invalidEvidence ''dnsid: c2sp-tlog prior evidence does not match stitched migration history'')
      else priorBoundaries all refs (Suc i) (Suc m) rest)"

fun withoutPrior :: "LoggedStateEvidence \<Rightarrow> LoggedStateEvidence" where
  "withoutPrior (LoggedStateEvidence ref state start end through mode cp fresh prior) =
     LoggedStateEvidence ref state start end through mode cp fresh []"

fun priorItems :: "string list \<Rightarrow> LoggedStateEvidence list \<Rightarrow> sdk_error + LoggedStateEvidence list" where
  "priorItems seen [] = Inr []"
| "priorItems seen (item # items) =
     (if lsLogReference item = '''' \<or> lsHistoryStart item = '''' \<or> lsHistoryEnd item = '''' \<or> lsCompleteThrough item = ''''
         \<or> lsCompletenessMode item = '''' \<or> lsCheckpoint item = [] \<or> lsFreshnessTime item = 0 \<or> lsLoggedState item \<noteq> AgentStateActive
      then Inl (invalidEvidence ''dnsid: c2sp-tlog prior migration evidence is incomplete or terminal'')
      else if lsLogReference item \<in> set seen
      then Inl (NewVerificationError InvalidMigration False ''dnsid: c2sp-tlog prior evidence contains a migration cycle'' None)
      else rbind (priorItems (lsLogReference item # seen) items) (\<lambda>rest. Inr (withoutPrior item # rest)))"

definition validatedPriorEvidence ::
  "'k LogEvent \<Rightarrow> 'k MigrationVerificationResult option \<Rightarrow> sdk_error + LoggedStateEvidence list \<times> string list" where
  "validatedPriorEvidence event migration =
     (case migration of
        None \<Rightarrow> Inl (invalidEvidence ''dnsid: c2sp-tlog migrated history is missing prior complete evidence'')
      | Some mig \<Rightarrow>
          (case mrPriorEvidence mig of
             None \<Rightarrow> Inl (invalidEvidence ''dnsid: c2sp-tlog migrated history is missing prior complete evidence'')
           | Some current \<Rightarrow>
               (let refs = mrPriorHistoryReferences mig; all = lsPriorEvidence current @ [current] in
                if refs = [] \<or> length refs \<noteq> length (mrPriorHistory mig) \<or> last refs \<noteq> evFinalEntryRef event
                then Inl (invalidEvidence ''dnsid: c2sp-tlog prior history references do not end at the signed migration cutoff'')
                else if lsLogReference current \<noteq> evPreviousLog event \<or> lsHistoryEnd current \<noteq> evFinalEntryRef event
                then Inl (invalidEvidence ''dnsid: c2sp-tlog prior evidence does not match the signed migration cutoff'')
                else if lsHistoryStart (hd all) \<noteq> hd refs
                then Inl (invalidEvidence ''dnsid: c2sp-tlog prior evidence does not start at the verified history genesis'')
                else if length all \<noteq> length (filter (\<lambda>prior. evType prior = LogEventMigration) (mrPriorHistory mig)) + 1
                then Inl (invalidEvidence ''dnsid: c2sp-tlog prior evidence does not cover every migrated proof boundary'')
                else
                  rbind (priorBoundaries all refs 0 0 (mrPriorHistory mig)) (\<lambda>_.
                  rbind (priorItems [] all) (\<lambda>items. Inr (items, refs))))))"

text \<open>
  The end of \<open>VerifyNonRevocation\<close>: the state of the history at \<open>at\<close> and its boundaries. The index into \<open>verified\<close>
  is in range because the events of the snapshot are a prefix of the prior history followed by the verified events.
\<close>

definition historyEndOf ::
  "('k, 's) Client \<Rightarrow> 'k verifiedEvent list \<Rightarrow> string list \<Rightarrow> nat \<Rightarrow> gotime \<Rightarrow> string" where
  "historyEndOf c verified priorReferences events at =
     (if priorReferences \<noteq> [] then
        (if events \<le> length priorReferences then priorReferences ! (events - 1)
         else FinalEventRef (cRef c) (veIndex (verified ! (events - length priorReferences - 1))))
      else (case takeWhile (\<lambda>item. evTimestamp (veEvent item) \<le> at) verified of
              [] \<Rightarrow> ''''
            | items \<Rightarrow> FinalEventRef (cRef c) (veIndex (last items))))"

definition nonRevocationEvidence ::
  "('k, 'p, 'q, 'f) clientLib \<Rightarrow> ('k, 's) Client \<Rightarrow> string \<Rightarrow> gotime \<Rightarrow> CompleteHistoryResult \<Rightarrow> VerifiedProof
    \<Rightarrow> 'k verifiedEvent list \<Rightarrow> 'k LogEvent list \<Rightarrow> sdk_error + LoggedStateEvidence" where
  "nonRevocationEvidence L c domain at history checkpoint verified events =
     (case verified of
        [] \<Rightarrow> Inl (NewVerificationError IncompleteStream False ''dnsid: c2sp-tlog complete history contains no verified stream genesis'' None)
      | first # _ \<Rightarrow>
          rbind (if evType (veEvent first) = LogEventMigration then validatedPriorEvidence (veEvent first) (veMigration first)
                 else if evTimestamp (veEvent first) > at
                 then Inl (invalidEvidence ''dnsid: c2sp-tlog requested time predates the bound stream genesis'')
                 else Inr ([], [])) (\<lambda>(priorEvidence, priorReferences).
          rbind (snapshotOf L events domain at) (\<lambda>snapshot.
          if ssHistoricalState snapshot = AgentStateRevoked \<or> ssHistoricalState snapshot = AgentStateRetired
          then Inl terminalState
          else
            Inr (LoggedStateEvidence (reference_String (cRef c)) (ssHistoricalState snapshot)
                   (if priorReferences \<noteq> [] then hd priorReferences else FinalEventRef (cRef c) (veIndex first))
                   (historyEndOf c verified priorReferences (length (ssEvents snapshot)) at)
                   (FormatUint (chrCompleteThrough history)) (chrCompletenessMode history) (chrCheckpoint history)
                   (vpFreshnessTime checkpoint) priorEvidence))))"

definition incompleteHistory :: "sdk_error \<Rightarrow> sdk_error" where
  "incompleteHistory err =
     (if errors_As is_VerificationError err \<noteq> None then err
      else NewVerificationError IncompleteStream (resourceFailureTransient err True) ''dnsid: c2sp-tlog history is incomplete'' (Some err))"

definition VerifyNonRevocation ::
  "('k, 'p, 'q, 'f) clientLib \<Rightarrow> ('k, 's) Client \<Rightarrow> callContext \<Rightarrow> string \<Rightarrow> gotime \<Rightarrow> (LoggedStateEvidence, 's) io" where
  "VerifyNonRevocation L c x domain at = io_map_err (\<lambda>err. logVerificationError err False) (io_then_ctx (ccErr x)
     (case Option.bind (cSource c) soComplete of
        None \<Rightarrow> io_lift (Inl (NewVerificationError IncompleteStream False ''dnsid: c2sp-tlog complete history source is required for non-revocation'' None))
      | Some complete \<Rightarrow>
          if plMaxCheckpointAge (cPolicy c) \<le> 0
          then io_lift (Inl (invalidEvidence ''dnsid: c2sp-tlog non-revocation requires a positive maximum checkpoint age''))
          else
            io_bind (io_map_err incompleteHistory (io_call (complete (cRef c) domain))) (\<lambda>(history, scan).
            io_bind (io_lift (map_err (\<lambda>err. NewVerificationError InvalidEvidence False ''dnsid: invalid complete c2sp-tlog checkpoint evidence'' (Some err))
                                (verifyCompleteCheckpoint L c history))) (\<lambda>checkpoint.
            io_bind (verifyHistoryEntries L c (noteScan scan (withScanEvidence x)) domain (chrEntries history) (Some checkpoint)) (\<lambda>(verified, events).
            io_lift (nonRevocationEvidence L c domain at history checkpoint verified events))))))"

section \<open>Single events\<close>

definition parseCandidateEntry ::
  "('k, 'p, 'q, 'f) clientLib \<Rightarrow> ('k, 's) Client \<Rightarrow> bytes \<Rightarrow> sdk_error + 'k parsedEvent" where
  "parseCandidateEntry L c entry =
     rbind (validateEntryMetadata (clEvents L) (cRef c) entry) (\<lambda>_. parseEventFromEntry (clEvents L) entry)"

definition verifyProvenEntry ::
  "('k, 'p, 'q, 'f) clientLib \<Rightarrow> ('k, 's) Client \<Rightarrow> ProvenEntry \<Rightarrow> sdk_error + 'k parsedEvent \<times> VerifiedProof option" where
  "verifyProvenEntry L c proven =
     rbind (clientVerifyProof L c (pnEntry proven) (pnProof proven)) (\<lambda>proof.
     rbind (parseCandidateEntry L c (pnEntry proven)) (\<lambda>parsed. Inr (parsed, proof)))"

text \<open>
  The checks of \<open>ReadEvent\<close> before the history is rebuilt. A proof that was not verified has no checkpoint to
  advance to; only clients without a store skip proofs.
\<close>

definition readProven ::
  "('k, 'p, 'q, 'f) clientLib \<Rightarrow> ('k, 's) Client \<Rightarrow> nat \<Rightarrow> ProvenEntry \<Rightarrow> sdk_error + 'k parsedEvent \<times> VerifiedProof option \<times> bytes" where
  "readProven L c wantIndex proven =
     (if pnIndex proven \<noteq> wantIndex then Inl (PlainError ''dnsid: c2sp-tlog proof index does not match final ref index'' None)
      else
        rbind (verifyProvenEntry L c proven) (\<lambda>(parsed, proof).
        let logTime = (case proof of None \<Rightarrow> 0 | Some v \<Rightarrow> vpLogTime v) in
        if (case proof of None \<Rightarrow> pnIndex proven | Some v \<Rightarrow> vpIndex v) \<noteq> wantIndex
        then Inl (PlainError ''dnsid: c2sp-tlog proof index does not match final ref index'' None)
        else if logTime = 0 \<and> \<not> plSkipProofVerify (cPolicy c)
        then Inl (PlainError ''dnsid: lifecycle verification requires an accepted checkpoint timestamp'' None)
        else if logTime \<noteq> 0 \<and> evTimestamp (peEvent parsed) > logTime
        then Inl (PlainError ''dnsid: c2sp-tlog event timestamp is after accepted log timestamp'' None)
        else rbind (CanonicalFromEntry (elFloat (clEvents L)) (pnEntry proven)) (\<lambda>signed. Inr (parsed, proof, signed))))"

definition occursIn ::
  "('k, 'p, 'q) jwkLib \<Rightarrow> 'k LogEvent \<Rightarrow> bytes \<Rightarrow> nat \<Rightarrow> 'k verifiedEvent \<Rightarrow> bool" where
  "occursIn K event signed wantIndex item =
     (veIndex item \<le> wantIndex \<and> veSigned item = signed
      \<and> candidateAuthorizedByCurrentHistory K event signed (veAuthorityEntity item) (veAuthorityOperational item))"

definition ReadEvent ::
  "('k, 'p, 'q, 'f) clientLib \<Rightarrow> ('k, 's) Client \<Rightarrow> callContext \<Rightarrow> string \<Rightarrow> ('k LogEvent, 's) io" where
  "ReadEvent L c x ref = io_map_err (\<lambda>err. logVerificationError err False) (io_then_ctx (ccErr x)
     (case cSource c of
        None \<Rightarrow> io_lift (Inl sourceRequired)
      | Some src \<Rightarrow>
          io_bind (io_lift (ParseFinalEventRef (elParse (clEvents L)) ref)) (\<lambda>(wantRef, wantIndex).
          if reference_String wantRef \<noteq> reference_String (cRef c)
          then io_lift (Inl (ArgumentError ''dnsid: c2sp-tlog final ref does not match client reference'' None))
          else
            io_bind (io_map_err (\<lambda>err. logVerificationError err True) (io_call (soReadEvent src ref))) (\<lambda>(proven, scan).
            io_bind (io_lift (readProven L c wantIndex proven)) (\<lambda>(parsed, proof, signed).
            io_bind (clientAdvance L c (noteScan scan (withScanEvidence x)) (case proof of None \<Rightarrow> [] | Some p \<Rightarrow> [p])) (\<lambda>_.
            io_bind (rebuildVerifiedHistory L c (noteScan scan (withScanEvidence x)) (evDomain (peEvent parsed))) (\<lambda>(verified, _).
            if list_ex (occursIn (elKeys (clEvents L)) (peEvent parsed) signed wantIndex) verified
            then io_bind (io_ctx (ccErr x)) (\<lambda>_. io_lift (Inr (peEvent parsed)))
            else io_lift (Inl (PlainError ''dnsid: c2sp-tlog final event is not in verified lifecycle'' None)))))))))"

section \<open>History up to a migration cutoff\<close>

text \<open>The entries up to the cutoff, and the last one at it.\<close>

definition cutoffEntries :: "nat \<Rightarrow> ProvenEntry list \<Rightarrow> ProvenEntry list \<times> ProvenEntry option" where
  "cutoffEntries index entries =
     (filter (\<lambda>entry. pnIndex entry \<le> index) entries,
      (case filter (\<lambda>entry. pnIndex entry = index) entries of [] \<Rightarrow> None | es \<Rightarrow> Some (last es)))"

definition cutoffResult ::
  "('k, 'p, 'q, 'f) clientLib \<Rightarrow> ('k, 's) Client \<Rightarrow> string \<Rightarrow> string \<Rightarrow> nat \<Rightarrow> CompleteHistoryResult \<Rightarrow> VerifiedProof
    \<Rightarrow> ProvenEntry \<Rightarrow> 'k verifiedEvent list \<Rightarrow> 'k LogEvent list \<Rightarrow> sdk_error + 'k MigrationVerificationResult" where
  "cutoffResult L c domain finalRef index history checkpoint occurrence verified events =
     rbind (parseCandidateEntry L c (pnEntry occurrence)) (\<lambda>parsed.
     rbind (CanonicalFromEntry (elFloat (clEvents L)) (pnEntry occurrence)) (\<lambda>signed.
     if signed \<noteq> veSigned (last verified)
        \<or> \<not> candidateAuthorizedByCurrentHistory (elKeys (clEvents L)) (peEvent parsed) signed
              (veAuthorityEntity (last verified)) (veAuthorityOperational (last verified))
     then Inl (invalidMigration ''dnsid: cutoff is not a fully signed occurrence of the final logical event'' None)
     else
       rbind (lifecycleStateFromVerified (elKeys (clEvents L)) verified domain) (\<lambda>(entity, operational, state).
       if map_of state ''status'' \<noteq> Some (JString ''ACTIVE'')
       then Inl (invalidMigration ''dnsid: cannot migrate terminal history'' None)
       else
         rbind (case veMigration (hd verified) of
                  None \<Rightarrow> Inr ([], [])
                | Some _ \<Rightarrow> validatedPriorEvidence (veEvent (hd verified)) (veMigration (hd verified))) (\<lambda>(priorEvidence, references).
           Inr \<lparr>mrEntityKey = entity, mrActiveOperationalKey = operational, mrPriorHistory = events,
                mrPriorEvidence = Some (LoggedStateEvidence (reference_String (cRef c)) AgentStateActive
                  (FinalEventRef (cRef c) (veIndex (hd verified))) finalRef (FormatUint (chrCompleteThrough history))
                  (chrCompletenessMode history) (chrCheckpoint history) (vpFreshnessTime checkpoint) priorEvidence),
                mrPriorHistoryReferences =
                  butlast (references @ map (\<lambda>event. FinalEventRef (cRef c) (veIndex event)) verified) @ [finalRef],
                mrFinalOccurrence = Some \<lparr>pnIndex = index, pnEntry = pnEntry occurrence, pnProof = pnProof occurrence\<rparr>\<rparr>))))"

definition cutoffLimits ::
  "('k, 'p, 'q, 'f) clientLib \<Rightarrow> ('k, 's) Client \<Rightarrow> callContext \<Rightarrow> 'k MigrationVerificationResult \<Rightarrow> sdk_error + 'k MigrationVerificationResult" where
  "cutoffLimits L c x result =
     (let limits = migrationLimitsForContext (Some x) (cMigrationLimits c) in
      if int (length (mrPriorHistory result)) > mlMaxHistoryEvents limits
      then Inl (invalidMigration ''dnsid: migration history exceeds event limit'' None)
      else (case clMarshalSize L result of
              None \<Rightarrow> Inl (PlainError ''json: marshal'' None)
            | Some encoded \<Rightarrow>
                if encoded > mlMaxResponseBytes limits then Inl (invalidMigration ''dnsid: migration history exceeds byte limit'' None)
                else Inr result))"

definition RebuildHistoryThrough ::
  "('k, 'p, 'q, 'f) clientLib \<Rightarrow> ('k, 's) Client \<Rightarrow> callContext \<Rightarrow> string \<Rightarrow> string \<Rightarrow> ('k MigrationVerificationResult, 's) io" where
  "RebuildHistoryThrough L c x domain finalRef = io_map_err (\<lambda>err. logVerificationError err False) (io_then_ctx (ccErr x)
     (io_bind (io_lift (ParseFinalEventRef (elParse (clEvents L)) finalRef)) (\<lambda>(ref, index).
      if reference_String ref \<noteq> reference_String (cRef c)
      then io_lift (Inl (ArgumentError ''dnsid: migration cutoff does not match client'' None))
      else
        (case cSource c of
           None \<Rightarrow> io_lift (Inl (invalidMigration ''dnsid: migration requires complete source history'' None))
         | Some src \<Rightarrow>
             (case soComplete src of
                None \<Rightarrow> io_lift (Inl (invalidMigration ''dnsid: migration requires complete source history'' None))
              | Some complete \<Rightarrow>
                  io_bind (io_map_err (\<lambda>err. invalidMigration ''dnsid: migration source unavailable'' (Some err))
                             (io_call (complete (cRef c) domain))) (\<lambda>(history, scan).
                  io_bind (io_lift (validateHistorySize (chrEntries history))) (\<lambda>_.
                  io_bind (io_lift (verifyCompleteCheckpoint L c history)) (\<lambda>checkpoint.
                  if index \<ge> chrCompleteThrough history
                  then io_lift (Inl (invalidMigration ''dnsid: migration cutoff exceeds complete history'' None))
                  else
                    io_bind (case cutoffEntries index (chrEntries history) of
                               (entries, Some occurrence) \<Rightarrow> io_lift (Inr (entries, occurrence, None))
                             | (entries, None) \<Rightarrow>
                                 io_bind (io_call (soReadEvent src finalRef)) (\<lambda>(entry, scan').
                                 io_lift (if pnIndex entry \<noteq> index
                                          then Inl (invalidMigration ''dnsid: wrong migration cutoff occurrence'' None)
                                          else Inr (entries @ [entry], entry, scan')))) (\<lambda>(entries, occurrence, scan').
                    io_bind (verifyHistoryEntries L c (noteScan scan' (noteScan scan x)) domain entries (Some checkpoint)) (\<lambda>(verified, events).
                    io_bind (io_lift (cutoffResult L c domain finalRef index history checkpoint occurrence verified events)) (\<lambda>result.
                    io_lift (cutoffLimits L c x result))))))))))))"

section \<open>Reference definitions\<close>

text \<open>
  \<open>attested\<close>: an entry of the list holds the event, its proof was verified against a checkpoint the policy accepts (the
  required one when there is one) at the event's index, and the event is not dated after the log time of that checkpoint.
\<close>

definition attested ::
  "('k, 'p, 'q, 'f) clientLib \<Rightarrow> ('k, 's) Client \<Rightarrow> string \<Rightarrow> VerifiedProof option \<Rightarrow> ProvenEntry list \<Rightarrow> 'k verifiedEvent \<Rightarrow> bool" where
  "attested L c domain required entries v =
     (\<exists>entry \<in> set entries. \<exists>proof parsed.
        clientVerifyProof L c (pnEntry entry) (pnProof entry) = Inr (Some proof)
        \<and> pnIndex entry = veIndex v \<and> vpIndex proof = veIndex v
        \<and> evTimestamp (veEvent v) \<le> vpLogTime proof
        \<and> parseEventFromEntry (clEvents L) (pnEntry entry) = Inr parsed
        \<and> CanonicalFromEntry (elFloat (clEvents L)) (pnEntry entry) = Inr (veSigned v)
        \<and> veChain v = peChain parsed \<and> evType (veEvent v) = evType (peEvent parsed) \<and> evDomain (veEvent v) = domain
        \<and> (case required of None \<Rightarrow> True | Some r \<Rightarrow> sameCheckpoint (Some (vpCheckpoint proof)) (Some (vpCheckpoint r))))"

text \<open>The entries a client reads: those of its source, or those it has loaded before.\<close>

definition offered :: "('k, 's) Client \<Rightarrow> string \<Rightarrow> ProvenEntry list \<Rightarrow> bool" where
  "offered c domain entries =
     ((\<exists>src n scan. cSource c = Some src \<and> soRebuildHistory src (cRef c) domain n = Inr (entries, scan))
      \<or> (\<exists>h. cPreloaded c = Some h \<and> phDomain h = domain \<and> entries = phEntries h))"

definition unended :: "'k LogEvent list \<Rightarrow> bool" where
  "unended events = (\<forall>e \<in> set events. evType e \<noteq> LogEventRevocation \<and> evType e \<noteq> LogEventRetirement)"

section \<open>Lemmas\<close>

subsection \<open>Computations\<close>

named_theorems io_ok

lemma io_bind_ok [io_ok]: "io_bind m k w = Some (Inr b, w') \<longleftrightarrow> (\<exists>a w1. m w = Some (Inr a, w1) \<and> k a w1 = Some (Inr b, w'))"
  by (auto simp: io_bind_def split: option.splits sum.splits)

lemma io_lift_ok [io_ok]: "io_lift r w = Some (Inr b, w') \<longleftrightarrow> r = Inr b \<and> w' = w"
  by (auto simp: io_lift_def)

lemma io_call_ok [io_ok]: "io_call f w = Some (Inr b, w') \<longleftrightarrow> f (fst w) = Inr b \<and> w' = (Suc (fst w), snd w)"
  by (auto simp: io_call_def)

lemma io_map_err_ok [io_ok]: "io_map_err f m w = Some (Inr b, w') \<longleftrightarrow> m w = Some (Inr b, w')"
  by (cases w') (auto simp: io_map_err_def map_err_Inr_iff)

lemma io_then_ctx_ok [io_ok]:
  "io_then_ctx ctx m w = Some (Inr b, w') \<longleftrightarrow> (\<exists>w1. m w = Some (Inr b, w1) \<and> ctx (fst w1) = None \<and> w' = (Suc (fst w1), snd w1))"
  by (auto simp: io_then_ctx_def io_ctx_def io_ok split: option.splits)

lemma answer_ok [io_ok]: "answer r w = Some (Inr b, w') \<longleftrightarrow> r = Inr b \<and> w' = w"
  by (auto simp: answer_def io_ok map_err_Inr_iff)

subsection \<open>Proven entries\<close>

lemma clientVerifyProof_Some:
  assumes "clientVerifyProof L c entry raw = Inr r" "\<not> plSkipProofVerify (cPolicy c)"
  shows "\<exists>proof. r = Some proof"
  using assms
  by (auto simp: clientVerifyProof_def VerifyProof_def Let_def rbind_Inr_iff split: option.splits if_splits)

lemma historyEvent_ok:
  assumes "historyEvent L c g domain index logTime entry = Inr (Some v)" "\<not> plSkipProofVerify (cPolicy c)"
  shows "\<exists>parsed. parseEventFromEntry (clEvents L) entry = Inr parsed
    \<and> CanonicalFromEntry (elFloat (clEvents L)) entry = Inr (veSigned v)
    \<and> veEvent v = peEvent parsed \<and> veChain v = peChain parsed \<and> veIndex v = index \<and> veMigration v = None
    \<and> evDomain (veEvent v) = domain \<and> (veParseError v = None \<longrightarrow> evTimestamp (veEvent v) \<le> logTime)"
  using assms
  by (auto simp: historyEvent_def verifiedOf_def Let_def split: sum.splits if_splits)

lemma historyEntry_ok:
  assumes "historyEntry L c g domain required entry = Inr (p, Some v)" "\<not> plSkipProofVerify (cPolicy c)"
  shows "veMigration v = None \<and> (veParseError v = None \<longrightarrow> attested L c domain required [entry] v)"
proof -
  from assms obtain pf where pf: "clientVerifyProof L c (pnEntry entry) (pnProof entry) = Inr (Some pf)"
    by (auto simp: historyEntry_def split: sum.splits if_splits dest: clientVerifyProof_Some)
  with assms(1) have "required \<noteq> None \<longrightarrow> sameCheckpoint (Some (vpCheckpoint pf)) (map_option vpCheckpoint required)"
    "vpIndex pf = pnIndex entry" "historyEvent L c g domain (vpIndex pf) (vpLogTime pf) (pnEntry entry) = Inr (Some v)"
    by (auto simp: historyEntry_def entryProof_def rbind_Inr_iff split: if_splits)
  with pf historyEvent_ok [OF this(3) assms(2)] show ?thesis
    by (auto simp: attested_def split: option.splits)
qed

lemma historyEntries_ok:
  assumes "historyEntries L c ctx g domain required entries w = Some (Inr (proofs, vs), w')" "\<not> plSkipProofVerify (cPolicy c)" "v \<in> set vs"
  shows "veMigration v = None \<and> (veParseError v = None \<longrightarrow> attested L c domain required entries v)"
  using assms
proof (induction entries arbitrary: w w' proofs vs)
  case (Cons entry entries)
  from Cons.prems(1) obtain p e w1 w2 proofs' vs' where
    e: "historyEntry L c g domain required entry = Inr (p, e)"
    and rest: "historyEntries L c ctx g domain required entries w1 = Some (Inr (proofs', vs'), w2)"
    and vs: "vs = (case e of None \<Rightarrow> vs' | Some e \<Rightarrow> e # vs')"
    by (auto simp: io_ok split: prod.splits)
  from vs Cons.prems(3) consider "e = Some v" | "v \<in> set vs'" by (auto split: option.splits)
  then show ?case
  proof cases
    case 1
    with historyEntry_ok [of L c g domain required entry p v] e Cons.prems(2) show ?thesis by (auto simp: attested_def)
  next
    case 2
    from Cons.IH [OF rest Cons.prems(2) this] show ?thesis by (auto simp: attested_def)
  qed
qed (simp add: io_ok)

lemma historyEntries_length:
  "historyEntries L c ctx g domain required entries w = Some (Inr (proofs, vs), w') \<Longrightarrow> length vs \<le> length entries"
proof (induction entries arbitrary: w w' proofs vs)
  case (Cons entry entries)
  then show ?case by (auto simp: io_ok split: option.splits dest!: Cons.IH)
qed (simp add: io_ok)

subsection \<open>Verified histories\<close>

lemma stream_parse: "stream E es h \<Longrightarrow> e \<in> set es \<Longrightarrow> veParseError e = None"
  by (induction rule: stream.induct) (auto simp: genesisOf_def continues_def)

lemma list_emb_source: "list_emb P xs ys \<Longrightarrow> x \<in> set xs \<Longrightarrow> \<exists>y \<in> set ys. P x y"
  by (induction rule: list_emb.induct) auto

lemma stitchHistory_ok:
  "stitchHistory c x accepted prior = Inr (a, events) \<Longrightarrow> a = accepted \<and> events = prior @ map veEvent accepted"
  by (auto simp: stitchHistory_def Let_def split: if_splits)

lemma verifyHistoryEntries_ok:
  assumes r: "verifyHistoryEntries L c x domain entries required w = Some (Inr (accepted, events), w')"
    and skip: "\<not> plSkipProofVerify (cPolicy c)"
  shows "(\<exists>h. stream (clEvents L) accepted h) \<and> (\<forall>v \<in> set accepted. attested L c domain required entries v)
    \<and> events = importedHistory accepted @ map veEvent accepted \<and> length accepted \<le> defaultScanMaxTreeSize"
proof -
  from r obtain g proofs verified w1 w2 w3 prior where
    limit: "length entries \<le> defaultScanMaxTreeSize" and h: "historyEntries L c (ccErr x) g domain required entries w1 = Some (Inr (proofs, verified), w2)"
    and replay: "clientReplay L c x (sort_key veIndex verified) w3 = Some (Inr (accepted, prior), w')"
    and st: "events = prior @ map veEvent accepted"
    by (cases w; cases w') (auto simp: verifyHistoryEntries_def io_ok validateHistorySize_def not_less split: if_splits dest!: stitchHistory_ok; blast)
  note items = historyEntries_ok [OF h skip]
  from replay obtain ctx mv where v: "verifyLifecycleVerifiedWithMigration (clEvents L) ctx (sort_key veIndex verified) mv (reference_String (cRef c)) = Inr (accepted, prior)"
    by (auto simp: clientReplay_def)
  have m: "\<forall>v \<in> set (sort_key veIndex verified). veMigration v = None" using items by auto
  from replay_stream [OF v m] obtain h where s: "stream (clEvents L) accepted h"
    and emb: "list_emb (\<lambda>e x. keeps (elKeys (clEvents L)) x e) accepted (sort_key veIndex verified)" by blast
  have "attested L c domain required entries e" if "e \<in> set accepted" for e
  proof -
    from list_emb_source [OF emb that] obtain x where "x \<in> set verified" and same: "entryOf e = entryOf x" by (auto simp: keeps_def)
    with items [of x] stream_parse [OF s that] have "attested L c domain required entries x" by (auto simp: entryOf_def)
    with same show ?thesis by (auto simp: attested_def entryOf_def)
  qed
  moreover have "events = importedHistory accepted @ map veEvent accepted"
    using st replay_prior [OF v m] by simp
  moreover have "length accepted \<le> defaultScanMaxTreeSize"
    using list_emb_length [OF emb] historyEntries_length [OF h] limit by simp
  ultimately show ?thesis using s by blast
qed

lemma rebuildVerifiedHistory_ok:
  assumes "rebuildVerifiedHistory L c x domain w = Some (Inr (accepted, events), w')" "\<not> plSkipProofVerify (cPolicy c)"
  shows "\<exists>entries h. offered c domain entries \<and> stream (clEvents L) accepted h
    \<and> (\<forall>v \<in> set accepted. attested L c domain None entries v) \<and> events = importedHistory accepted @ map veEvent accepted
    \<and> length accepted \<le> defaultScanMaxTreeSize"
proof -
  from assms(1) have "\<exists>entries x' w1 w2. offered c domain entries
      \<and> verifyHistoryEntries L c x' domain entries None w1 = Some (Inr (accepted, events), w2)"
    by (cases w') (auto simp: rebuildVerifiedHistory_def io_ok offered_def split: option.splits if_splits; blast)
  with verifyHistoryEntries_ok assms(2) show ?thesis by blast
qed

subsection \<open>Snapshots\<close>

lemma lc_run_live: "lc_run thumb s es s' \<Longrightarrow> \<not> terminal s' \<Longrightarrow> unended es"
proof (induction rule: lc_run.induct)
  case (lc_more s e s' es s'')
  have "\<not> terminal s'" using lc_more lc_run_terminal by blast
  with lc_more show ?case by (auto simp: unended_def elim: lc_stepE)
qed (simp add: unended_def)

lemma thumbprint_key: "keyThumbprint (jkThumb K) key = thumbprintOf K key"
  by (simp add: keyThumbprint_def thumbprintOf_def thumbprint_def split: option.splits)

lemma live_snapshot:
  assumes s: "snapshotOf L events domain at = Inr s" and live: "ssHistoricalState s \<noteq> AgentStateRevoked" "ssHistoricalState s \<noteq> AgentStateRetired"
  shows "ssHistoricalState s = AgentStateActive \<and> ssEvents s = takeWhile (\<lambda>e. evTimestamp e \<le> at) events
    \<and> (\<forall>e \<in> set events. evTimestamp e \<le> at \<longrightarrow> evType e \<noteq> LogEventRevocation \<and> evType e \<noteq> LogEventRetirement)
    \<and> key_chain (filter binds_key (ssEvents s)) \<and> ssActiveKeyThumbprint s = bound_thumb (last (filter binds_key (ssEvents s)))
    \<and> (\<exists>genesis rest. events = genesis # rest \<and> evType genesis = LogEventIssuance \<and> hd (filter binds_key (ssEvents s)) = genesis
         \<and> thumbprintOf (elKeys (clEvents L)) (evInitialOperationalPublicKey genesis) = Some (bound_thumb genesis))"
proof -
  let ?pre = "takeWhile (\<lambda>e. evTimestamp e \<le> at) events" and ?thumb = "jkThumb (elKeys (clEvents L))"
  from s obtain st where r: "lc_run ?thumb NoIdentity ?pre st" "st \<noteq> NoIdentity" and conc: "s = conc domain at ?pre st"
    and late: "\<forall>e \<in> set (dropWhile (\<lambda>e. evTimestamp e \<le> at) events). evTimestamp e > at"
    by (auto simp: snapshotOf_def snapshot_lc_iff NewDomainLog_def)
  from live r(2) have t: "\<not> terminal st" "ssHistoricalState s = AgentStateActive" by (cases st; simp add: conc)+
  from lc_run_live [OF r(1) t(1)] have e: "evType e \<noteq> LogEventRevocation \<and> evType e \<noteq> LogEventRetirement"
    if "e \<in> set events" "evTimestamp e \<le> at" for e
    using that late unfolding unended_def by (metis UnE leD set_append takeWhile_dropWhile_id)
  from r obtain genesis es s1 where g: "?pre = genesis # es" "lc_step ?thumb NoIdentity genesis s1"
    by (cases ?pre) (auto simp: lc_run_simps)
  then have pre: "ssEvents s = genesis # es" by (simp add: conc)
  from g obtain rest where "events = genesis # rest" by (cases events) (auto split: if_splits)
  moreover from g(2) have i: "evType genesis = LogEventIssuance"
    "thumbprintOf (elKeys (clEvents L)) (evInitialOperationalPublicKey genesis) = Some (bound_thumb genesis)"
    by (auto simp: lc_step_simps bound_thumb_def thumbprint_key)
  ultimately have "\<exists>genesis rest. events = genesis # rest \<and> evType genesis = LogEventIssuance
      \<and> hd (filter binds_key (ssEvents s)) = genesis
      \<and> thumbprintOf (elKeys (clEvents L)) (evInitialOperationalPublicKey genesis) = Some (bound_thumb genesis)"
    using pre by (simp add: binds_key_def)
  moreover from lc_run_key_chain [OF r(1)] conc_key [OF r(2), of domain at ?pre]
  have "key_chain (filter binds_key ?pre)" "ssActiveKeyThumbprint s = bound_thumb (last (filter binds_key ?pre))"
    by (auto simp: conc)
  ultimately show ?thesis using t(2) e by (simp add: conc)
qed

subsection \<open>Nested migrations\<close>

text \<open>
  Contexts reached by verifying migrations inside migrations: the outermost client follows \<open>log0\<close> with limits \<open>l\<close>;
  \<open>events\<close> are the migrations entered, the innermost first.
\<close>

inductive nested :: "MigrationVerificationLimits \<Rightarrow> string \<Rightarrow> 'k LogEvent list \<Rightarrow> callContext \<Rightarrow> bool" for l log0 where
  outermost: "ccPath x = None \<Longrightarrow> nested l log0 [] x"
| entered: "\<lbrakk>nested l log0 events x; enterMigration (Some x) event log l' = Inr (x', limits); events = [] \<longrightarrow> log = log0 \<and> l' = l\<rbrakk>
    \<Longrightarrow> nested l log0 (event # events) x'"

definition visited :: "string \<Rightarrow> 'k LogEvent list \<Rightarrow> string list" where
  "visited log0 events = map evPreviousLog events @ [log0]"

lemma nested_path:
  assumes "nested l log0 events x" "0 \<le> mlMaxDepth l"
  shows "distinct (visited log0 events) \<and> int (length events) \<le> mlMaxDepth (withDefaults l)
    \<and> (case ccPath x of
         None \<Rightarrow> events = []
       | Some path \<Rightarrow> events \<noteq> [] \<and> mpNextLog path = hd (visited log0 events) \<and> mpDepth path = int (length events)
           \<and> set (mpSeen path) = set (visited log0 events) \<and> mpLimits path = withDefaults l)"
  using assms
proof (induction rule: nested.induct)
  case (outermost x)
  then show ?case by (auto simp: visited_def withDefaults_def Let_def defaultMigrationVerificationLimits_def)
next
  case (entered events x event log l' x' limits)
  then show ?case
    by (auto simp: enterMigration_def migrationLimitsForContext_def visited_def Let_def withDefaults_def defaultMigrationVerificationLimits_def
        split: option.splits if_splits)
qed

subsection \<open>Evidence\<close>

lemma stream_migration:
  "stream E es h \<Longrightarrow> evType (veEvent (hd es)) = LogEventMigration \<longleftrightarrow> veMigration (hd es) \<noteq> None"
proof (induction rule: stream.induct)
  case (successor es h e h')
  then show ?case using stream_nonempty [OF successor(1)] by simp
qed (auto simp: genesisOf_def split: option.splits)

lemma validatedPriorEvidence_refs:
  "validatedPriorEvidence event (Some migration) = Inr (items, refs) \<Longrightarrow> refs \<noteq> [] \<and> length refs = length (mrPriorHistory migration)"
  by (auto simp: validatedPriorEvidence_def Let_def rbind_Inr_iff split: option.splits if_splits)

lemma nonRevocation_ok:
  assumes r: "nonRevocationEvidence L c domain at history checkpoint accepted events = Inr evidence" and s: "stream E accepted h"
  shows "(\<forall>e \<in> set events. evTimestamp e \<le> at \<longrightarrow> evType e \<noteq> LogEventRevocation \<and> evType e \<noteq> LogEventRetirement)
    \<and> lsLogReference evidence = reference_String (cRef c) \<and> lsLoggedState evidence = AgentStateActive
    \<and> lsCheckpoint evidence = chrCheckpoint history \<and> lsCompleteThrough evidence = FormatUint (chrCompleteThrough history)
    \<and> (veMigration (hd accepted) = None \<longrightarrow>
         lsHistoryEnd evidence = FinalEventRef (cRef c) (veIndex (last (takeWhile (\<lambda>v. evTimestamp (veEvent v) \<le> at) accepted))))"
proof -
  obtain first rest where a: "accepted = first # rest" using stream_nonempty [OF s] by (cases accepted) auto
  from r obtain items refs snapshot where
    p: "(if evType (veEvent first) = LogEventMigration then validatedPriorEvidence (veEvent first) (veMigration first)
         else if evTimestamp (veEvent first) > at
         then Inl (invalidEvidence ''dnsid: c2sp-tlog requested time predates the bound stream genesis'')
         else Inr ([], [])) = Inr (items, refs)"
    and sn: "snapshotOf L events domain at = Inr snapshot"
    and live: "ssHistoricalState snapshot \<noteq> AgentStateRevoked" "ssHistoricalState snapshot \<noteq> AgentStateRetired"
    and e: "lsLogReference evidence = reference_String (cRef c)" "lsLoggedState evidence = ssHistoricalState snapshot"
      "lsCheckpoint evidence = chrCheckpoint history" "lsCompleteThrough evidence = FormatUint (chrCompleteThrough history)"
      "lsHistoryEnd evidence = historyEndOf c accepted refs (length (ssEvents snapshot)) at"
    unfolding nonRevocationEvidence_def a by (auto simp: rbind_Inr_iff simp del: if_split split: if_split_asm)
  have "lsHistoryEnd evidence = FinalEventRef (cRef c) (veIndex (last (takeWhile (\<lambda>v. evTimestamp (veEvent v) \<le> at) accepted)))"
    if "veMigration (hd accepted) = None"
    using that stream_migration [OF s] p unfolding e(5) historyEndOf_def by (auto simp: a split: if_splits)
  with live_snapshot [OF sn live] e show ?thesis by auto
qed

text \<open>The index into the verified events that \<open>historyEndOf\<close> computes is in range.\<close>

lemma historyEnd_in_range:
  assumes "snapshotOf L (importedHistory accepted @ map veEvent accepted) domain at = Inr s"
    and "validatedPriorEvidence event (veMigration (hd accepted)) = Inr (items, refs)" and "accepted \<noteq> []"
    and "length (ssEvents s) > length refs"
  shows "length (ssEvents s) - length refs - 1 < length accepted"
proof -
  from assms(2) obtain migration where m: "veMigration (hd accepted) = Some migration"
    by (auto simp: validatedPriorEvidence_def split: option.splits)
  with assms(2,3) have "length refs = length (importedHistory accepted)"
    by (cases accepted) (auto simp: importedHistory_def dest: validatedPriorEvidence_refs)
  moreover from assms(1) have "ssEvents s = takeWhile (\<lambda>e. evTimestamp e \<le> at) (importedHistory accepted @ map veEvent accepted)"
    by (auto simp: snapshotOf_def snapshot_lc_iff NewDomainLog_def)
  ultimately show ?thesis using assms(3,4) length_takeWhile_le [of "\<lambda>e. evTimestamp e \<le> at" "importedHistory accepted @ map veEvent accepted"]
    by (cases accepted) auto
qed

section \<open>Properties\<close>

text \<open>
  C4. \<open>VerifyLifecycleBinding\<close>. When a client that verifies proofs reports a binding, the source offered entries for the
  domain, and the accepted events are a stream whose every event is attested by a verified proof among these entries.
  The history (with what a migration imported) begins with an issuance for this domain and governance id, whose entity
  key is the one asked about; the reported thumbprints and time are those of that issuance; the operational keys
  rotate one into the next from the issued key to the current one; and no event up to now revokes or retires the identity.
\<close>
theorem lifecycle_binding_sound:
  assumes "VerifyLifecycleBinding L c x input current w = Some (Inr binding, w')" and "\<not> plSkipProofVerify (cPolicy c)"
  shows "\<exists>entries accepted h genesis rest snapshot.
    offered c (biDomain input) entries \<and> stream (clEvents L) accepted h
    \<and> (\<forall>v \<in> set accepted. attested L c (biDomain input) None entries v)
    \<and> importedHistory accepted @ map veEvent accepted = genesis # rest
    \<and> evType genesis = LogEventIssuance \<and> evGovernanceID genesis = biGovernanceID input
    \<and> elEqualFold (clEvents L) (evDomain genesis) (biDomain input)
    \<and> thumbprintOf (elKeys (clEvents L)) (biEntityKey input) = Some (bbInitialEntityThumbprint binding)
    \<and> thumbprintOf (elKeys (clEvents L)) (evInitialEntityPublicKey genesis) = Some (bbInitialEntityThumbprint binding)
    \<and> bbInitialOperationalThumbprint binding = bound_thumb genesis \<and> bbTimestamp binding = evTimestamp genesis
    \<and> snapshotOf L (genesis # rest) (biDomain input) (plNow (cPolicy c)) = Inr snapshot
    \<and> key_chain (filter binds_key (ssEvents snapshot)) \<and> hd (filter binds_key (ssEvents snapshot)) = genesis
    \<and> bound_thumb (last (filter binds_key (ssEvents snapshot))) = current
    \<and> (\<forall>e \<in> set (genesis # rest). evTimestamp e \<le> plNow (cPolicy c) \<longrightarrow> evType e \<noteq> LogEventRevocation \<and> evType e \<noteq> LogEventRetirement)"
proof -
  let ?K = "elKeys (clEvents L)"
  from assms(1) obtain accepted events w1 where h: "rebuildVerifiedHistory L c x (biDomain input) w = Some (Inr (accepted, events), w1)"
    and b: "verifyBilateralBinding L events input = Inr binding"
    and o: "verifyOperationalContinuity L events (biDomain input) (bbInitialOperationalThumbprint binding) current (plNow (cPolicy c)) = Inr ()"
    by (cases w') (auto simp: VerifyLifecycleBinding_def io_ok)
  from rebuildVerifiedHistory_ok [OF h assms(2)] obtain entries h where
    hist: "offered c (biDomain input) entries" "stream (clEvents L) accepted h" "\<forall>v \<in> set accepted. attested L c (biDomain input) None entries v"
    "events = importedHistory accepted @ map veEvent accepted" by blast
  from o obtain s where s: "snapshotOf L events (biDomain input) (plNow (cPolicy c)) = Inr s" "ssHistoricalState s = AgentStateActive"
    "ssActiveKeyThumbprint s = current"
    by (auto simp: verifyOperationalContinuity_def activeHistoricalSnapshot_def rbind_Inr_iff check_Inr_iff split: if_splits)
  from s(2) have live: "ssHistoricalState s \<noteq> AgentStateRevoked" "ssHistoricalState s \<noteq> AgentStateRetired" by simp_all
  from live_snapshot [OF s(1) live] obtain genesis rest where g: "events = genesis # rest" "evType genesis = LogEventIssuance"
    "hd (filter binds_key (ssEvents s)) = genesis" "thumbprintOf ?K (evInitialOperationalPublicKey genesis) = Some (bound_thumb genesis)"
    "key_chain (filter binds_key (ssEvents s))" "current = bound_thumb (last (filter binds_key (ssEvents s)))"
    "\<forall>e \<in> set events. evTimestamp e \<le> plNow (cPolicy c) \<longrightarrow> evType e \<noteq> LogEventRevocation \<and> evType e \<noteq> LogEventRetirement"
    using s(3) by auto
  from b g have "evGovernanceID genesis = biGovernanceID input" "elEqualFold (clEvents L) (evDomain genesis) (biDomain input)"
    "thumbprintOf ?K (biEntityKey input) = Some (bbInitialEntityThumbprint binding)"
    "thumbprintOf ?K (evInitialEntityPublicKey genesis) = Some (bbInitialEntityThumbprint binding)"
    "bbInitialOperationalThumbprint binding = bound_thumb genesis" "bbTimestamp binding = evTimestamp genesis"
    by (auto simp: verifyBilateralBinding_def keyThumb_def rbind_Inr_iff split: if_splits option.splits)
  with hist g s(1) show ?thesis
    by (intro exI [of _ entries] exI [of _ accepted] exI [of _ h] exI [of _ genesis] exI [of _ rest] exI [of _ s] conjI) simp_all
qed

text \<open>
  C5. \<open>VerifyNonRevocation\<close>. When a client that verifies proofs reports evidence, its source gave a complete history, with a
  checkpoint that the policy accepts, that covers exactly the tree the history is complete through and that is no older than the
  policy allows. The accepted events are a stream, each attested at that very checkpoint, and none of them up to the
  requested time (nor of what a migration imported) is a revocation or a retirement. The evidence names the stream, the
  checkpoint and its size, and, without a migration, the last event up to the requested time.
\<close>
theorem nonrevocation_sound:
  assumes "VerifyNonRevocation L c x domain at w = Some (Inr evidence, w')" and "\<not> plSkipProofVerify (cPolicy c)"
  shows "\<exists>src complete n history scan checkpoint accepted h.
    cSource c = Some src \<and> soComplete src = Some complete \<and> complete (cRef c) domain n = Inr (history, scan)
    \<and> clientVerifyCheckpoint L c (chrCheckpoint history) = Inr checkpoint
    \<and> chSize (vpCheckpoint checkpoint) = chrCompleteThrough history
    \<and> 0 < plMaxCheckpointAge (cPolicy c) \<and> timeSub (plNow (cPolicy c)) (vpFreshnessTime checkpoint) \<le> plMaxCheckpointAge (cPolicy c)
    \<and> stream (clEvents L) accepted h \<and> (\<forall>v \<in> set accepted. attested L c domain (Some checkpoint) (chrEntries history) v)
    \<and> (\<forall>e \<in> set (importedHistory accepted @ map veEvent accepted).
         evTimestamp e \<le> at \<longrightarrow> evType e \<noteq> LogEventRevocation \<and> evType e \<noteq> LogEventRetirement)
    \<and> lsLogReference evidence = reference_String (cRef c) \<and> lsLoggedState evidence = AgentStateActive
    \<and> lsCheckpoint evidence = chrCheckpoint history \<and> lsCompleteThrough evidence = FormatUint (chSize (vpCheckpoint checkpoint))
    \<and> (veMigration (hd accepted) = None \<longrightarrow>
         lsHistoryEnd evidence = FinalEventRef (cRef c) (veIndex (last (takeWhile (\<lambda>v. evTimestamp (veEvent v) \<le> at) accepted))))"
proof -
  from assms(1) obtain src complete history scan checkpoint accepted events n w2 w3 x' where
    src: "cSource c = Some src" "soComplete src = Some complete" "complete (cRef c) domain n = Inr (history, scan)"
    and age: "0 < plMaxCheckpointAge (cPolicy c)"
    and cp: "verifyCompleteCheckpoint L c history = Inr checkpoint"
    and h: "verifyHistoryEntries L c x' domain (chrEntries history) (Some checkpoint) w2 = Some (Inr (accepted, events), w3)"
    and ev: "nonRevocationEvidence L c domain at history checkpoint accepted events = Inr evidence"
    by (cases w; cases w') (auto simp: VerifyNonRevocation_def io_ok map_err_Inr_iff bind_eq_Some_conv not_le split: option.splits if_splits; blast)
  from cp assms(2) have cp': "clientVerifyCheckpoint L c (chrCheckpoint history) = Inr checkpoint"
    "chSize (vpCheckpoint checkpoint) = chrCompleteThrough history"
    by (auto simp: verifyCompleteCheckpoint_def rbind_Inr_iff split: if_splits)
  from cp'(1) age have fresh: "timeSub (plNow (cPolicy c)) (vpFreshnessTime checkpoint) \<le> plMaxCheckpointAge (cPolicy c)"
    by (auto simp: clientVerifyCheckpoint_def elim!: verifyCheckpoint_ok)
  from verifyHistoryEntries_ok [OF h assms(2)] obtain hd where hist: "stream (clEvents L) accepted hd"
    "\<forall>v \<in> set accepted. attested L c domain (Some checkpoint) (chrEntries history) v" "events = importedHistory accepted @ map veEvent accepted"
    by blast
  from nonRevocation_ok [OF ev hist(1)] hist(3)
  show ?thesis using src age cp' fresh hist
    by (intro exI [of _ src] exI [of _ complete] exI [of _ n] exI [of _ history] exI [of _ scan] exI [of _ checkpoint] exI [of _ accepted]
        exI [of _ hd] conjI) simp_all
qed

text \<open>
  C21. Nested migrations. Verifying a migration may verify the history of another log, which may begin with a migration, and so
  on. Whatever clients and limits the inner levels use, the logs visited are distinct, the nesting never exceeds the depth
  of the outermost client, and one more level is entered only from the log the last one came from, into a log not yet
  visited, with the outermost limits.
\<close>
theorem migration_nesting_bounded:
  assumes "nested l log0 events x" and "0 \<le> mlMaxDepth l"
  shows "distinct (visited log0 events) \<and> int (length events) \<le> mlMaxDepth (withDefaults l)
    \<and> (events \<noteq> [] \<and> enterMigration (Some x) event log l' = Inr (x', limits) \<longrightarrow>
         log = hd (visited log0 events) \<and> evPreviousLog event \<notin> set (visited log0 events)
         \<and> int (length events) < mlMaxDepth (withDefaults l) \<and> limits = withDefaults l)"
  using nested_path [OF assms]
  by (auto simp: enterMigration_def migrationLimitsForContext_def Let_def split: option.splits if_splits)

subsection \<open>Witnesses\<close>

definition sample_checkpointOf :: Checkpoint where
  "sample_checkpointOf = \<lparr>chOrigin = ''l'', chSize = 1, chHash = replicate 32 (CHR ''h'')\<rparr>"

definition sample_clientLib :: "(string, unit, unit, int) clientLib" where
  "sample_clientLib =
     \<lparr>clEvents = sample_events, clHashes = sample_hashes, clCosigTime = (\<lambda>_. None),
      clParseCheckpoint = (\<lambda>_ _ _ _. Some (sample_checkpointOf, [])), clUnmarshalProof = (\<lambda>_. Some (0, [], ''c'')),
      clCheckRecord = (\<lambda>_ _ _ _ _. True), clVerifyConsistency = (\<lambda>_ _ _ _ _. None), clMarshalSize = (\<lambda>_. None)\<rparr>"

definition sample_readerPolicy :: Policy where
  "sample_readerPolicy = (zeroPolicy (timeUnix 9))
     \<lparr>plLogVerifier := Some \<lparr>vName = ''l'', vKeyHash = 1\<rparr>, plWitnessQuorum := 1, plCheckpointTime := Some (\<lambda>_ _. Inr (timeUnix 5)),
      plMaxCheckpointAge := 10 * nanos\<rparr>"

definition sample_history :: "ProvenEntry list" where
  "sample_history = [\<lparr>pnIndex = 0, pnEntry = sample_entry sample_genesis_payload, pnProof = []\<rparr>]"

definition sample_complete :: CompleteHistoryResult where
  "sample_complete = \<lparr>chrEntries = sample_history, chrCheckpoint = ''c'', chrCompleteThrough = 1, chrCompletenessMode = ''scan'', chrFreshnessTime = 0\<rparr>"

definition sample_source :: source where
  "sample_source =
     \<lparr>soReadEvent = (\<lambda>_ _. Inl sourceRequired), soRebuildHistory = (\<lambda>_ _ _. Inr (sample_history, None)),
      soComplete = Some (\<lambda>_ _ _. Inr (sample_complete, None)), soGlobalCandidates = None,
      soConsistency = \<lparr>csProof = None, csTiles = None, csFullLog = None\<rparr>\<rparr>"

definition sample_reader :: "(string, unit) Client" where
  "sample_reader =
     \<lparr>cRef = Stream_Replay.sample_ref, cSource = Some sample_source, cAppender = None, cPolicy = sample_readerPolicy, cCheckpointStore = None,
      cVerifyMigration = None, cMigrationLimits = defaultMigrationVerificationLimits, cTrustedScope = '''', cTrustedLogPrefix = '''',
      cPreloaded = None\<rparr>"

definition sample_call :: callContext where
  "sample_call = \<lparr>ccErr = (\<lambda>_. None), ccPath = None, ccScan = None\<rparr>"

definition sample_input :: "string BilateralBindingInput" where
  "sample_input = \<lparr>biDomain = ''a.b'', biGovernanceID = ''g'', biEntityKey = Some ''e'', biOperationalKey = None\<rparr>"

definition sample_verified :: VerifiedProof where
  "sample_verified =
     \<lparr>vpIndex = 0, vpCheckpoint = sample_checkpointOf, vpNoteSigs = [], vpWitnessTime = timeUnix 5, vpIntegrationTime = timeUnix 5,
      vpFreshnessTime = timeUnix 5, vpLogTime = timeUnix 5\<rparr>"

lemma sample_checkpoint_verified: "clientVerifyCheckpoint sample_clientLib sample_reader ''c'' = Inr sample_verified"
  by code_simp

lemma sample_reader_fields [simp]:
  "plSkipProofVerify (cPolicy sample_reader) = False" "cSource sample_reader = Some sample_source" "cPreloaded sample_reader = None"
  "cVerifyMigration sample_reader = None" "cCheckpointStore sample_reader = None" "cRef sample_reader = Stream_Replay.sample_ref"
  "plNow (cPolicy sample_reader) = timeUnix 9" "clEvents sample_clientLib = sample_events" "ccErr sample_call = (\<lambda>_. None)"
  "plMaxCheckpointAge (cPolicy sample_reader) = 10 * nanos"
  by (simp_all add: sample_reader_def sample_readerPolicy_def zeroPolicy_def sample_clientLib_def sample_call_def)

lemma sample_proof_verified: "clientVerifyProof sample_clientLib sample_reader entry raw = Inr (Some sample_verified)"
  using sample_checkpoint_verified
  by (simp add: clientVerifyProof_def clientVerifyCheckpoint_def VerifyProof_def sample_clientLib_def sample_verified_def sample_checkpointOf_def)

text \<open>The event of the sample genesis, and the stream it is the whole of.\<close>

definition sample_parsed :: "string parsedEvent" where
  "sample_parsed =
     \<lparr>peEvent = (zeroLogEvent\<lparr>evType := LogEventIssuance, evInitialEntityKid := ''e'', evInitialEntityPublicKey := Some ''e'',
        evInitialEntityThumbprint := ''ZQ'', evInitialEntitySignature := sample_signature, evInitialOperationalKid := ''o'',
        evInitialOperationalPublicKey := Some ''o'', evInitialOperationalThumbprint := ''bw'', evInitialOperationalSignature := sample_signature,
        evDomain := ''a.b'', evTimestamp := timeUnix 1, evGovernanceID := ''g''\<rparr>),
      peChain = \<lparr>cfSequence = Some 0, cfPreviousEventID = [], cfInvalid = False, cfPreviousStateHash = []\<rparr>,
      peValidationError = None\<rparr>"

lemma sample_parses: "eventFromPayload sample_events sample_genesis_payload = Inr sample_parsed"
  by code_simp

definition sample_signed :: bytes where
  "sample_signed = sample_entry (AList.delete ''sigs'' sample_genesis_payload)"

definition sample_out :: "string verifiedEvent list" where
  "sample_out = [(verifiedOf sample_parsed 0 sample_signed None)\<lparr>veAuthorityEntity := Some ''e'', veAuthorityOperational := Some ''o''\<rparr>]"

lemma sample_first: "hd sample_items = verifiedOf sample_parsed 0 sample_signed None"
  by (simp add: sample_items_def sample_item_def sample_parses sample_signed_def)

lemma sample_out_events [simp]: "map veEvent sample_out = [peEvent sample_parsed]" "sample_out \<noteq> []"
  by (simp_all add: sample_out_def verifiedOf_def)

lemma sample_times: "timeUnix 5 \<noteq> 0" "timeUnix 1 \<le> timeUnix 5" "timeUnix 1 \<le> timeUnix 9"
  by code_simp+

lemma sample_event:
  "historyEvent sample_clientLib sample_reader False ''a.b'' 0 (timeUnix 5) (sample_entry sample_genesis_payload) = Inr (Some (hd sample_items))"
  using sample_times sample_metadata readable_parse [OF sample_readable(1)]
  by (simp add: historyEvent_def sample_first sample_parses) (simp add: sample_parsed_def zeroLogEvent_def sample_signed_def)

lemma sample_entry_read:
  assumes "required = None \<or> required = Some sample_verified"
  shows "historyEntries sample_clientLib sample_reader (\<lambda>_. None) False ''a.b'' required sample_history w
    = Some (Inr ([sample_verified], [hd sample_items]), Suc (fst w), snd w)"
  using assms sample_event
  by (auto simp: sample_history_def historyEntry_def sample_proof_verified entryProof_def sameCheckpoint_def io_bind_def io_lift_def io_ctx_def
      io_call_def sample_verified_def)

lemma sample_authorized: "candidateAuthorizedByCurrentHistory sample_jwk (peEvent sample_parsed) canonical (Some ''e'') (Some ''o'')"
  by code_simp

lemma sample_thumbs_of: "thumbprintOf sample_jwk (Some ''e'') = Some ''ZQ''"
  by code_simp

lemma sample_signed_nonempty: "sample_signed \<noteq> []"
  by code_simp

lemma sample_replayed:
  "verifyLifecycleVerifiedWithMigration sample_events (\<lambda>_. None) [hd sample_items] None lr = Inr (sample_out, [])"
proof -
  have f: "evType (peEvent sample_parsed) = LogEventIssuance" "evInitialEntityPublicKey (peEvent sample_parsed) = Some ''e''"
    "evInitialOperationalPublicKey (peEvent sample_parsed) = Some ''o''" "evInitialOperationalThumbprint (peEvent sample_parsed) = ''bw''"
    "evInitialEntityThumbprint (peEvent sample_parsed) = ''ZQ''" "validGenesisChain (peChain sample_parsed)"
    "(peEvent sample_parsed)\<lparr>evInitialOperationalThumbprint := ''bw''\<rparr> = peEvent sample_parsed"
    by (simp_all add: sample_parsed_def zeroLogEvent_def validGenesisChain_def)
  show ?thesis
    by (simp add: verifyLifecycleVerifiedWithMigration_def replayStep_def replayIssuanceGenesis_def acceptGenesis_def notePostState_def
        zeroReplayState_def sample_first sample_out_def verifiedOf_def f Let_def sample_authorized sample_thumbs_of sample_signed_nonempty)
qed

lemma sample_history_verified:
  assumes "required = None \<or> required = Some sample_verified" "ccErr x = (\<lambda>_. None)"
  shows "\<exists>w'. verifyHistoryEntries sample_clientLib sample_reader x ''a.b'' sample_history required w
    = Some (Inr (sample_out, map veEvent sample_out), w')"
proof -
  have "validateHistorySize sample_history = Inr ()"
    using sample_readable(1) by (auto simp: readable_def validateHistorySize_def sample_history_def)
  moreover have "soGlobalCandidates sample_source = None" by (simp add: sample_source_def)
  ultimately show ?thesis
    using sample_entry_read [OF assms(1)] sample_replayed assms(2)
    by (simp add: verifyHistoryEntries_def io_bind_def io_lift_def io_map_err_def clientAdvance_def advanceTrustedCheckpoints_def
        clientReplay_def stitchHistory_def)
qed

lemma sample_rebuilt: "\<exists>w'. rebuildVerifiedHistory sample_clientLib sample_reader sample_call ''a.b'' w = Some (Inr (sample_out, map veEvent sample_out), w')"
proof -
  have "ccErr (noteScan None (withScanEvidence sample_call)) = (\<lambda>_. None)" by (simp add: noteScan_def withScanEvidence_def)
  from sample_history_verified [OF _ this, of None "(Suc (Suc (fst w)), snd w)"] obtain w' where
    "verifyHistoryEntries sample_clientLib sample_reader (noteScan None (withScanEvidence sample_call)) ''a.b'' sample_history None
       (Suc (Suc (fst w)), snd w) = Some (Inr (sample_out, map veEvent sample_out), w')" by blast
  then show ?thesis
    by (cases w') (simp add: rebuildVerifiedHistory_def io_bind_def io_lift_def io_map_err_def io_call_def sample_source_def)
qed

lemma sample_binding:
  "verifyBilateralBinding sample_clientLib [peEvent sample_parsed] sample_input
     = Inr \<lparr>bbInitialOperationalThumbprint = ''bw'', bbInitialEntityThumbprint = ''ZQ'', bbTimestamp = timeUnix 1\<rparr>"
  "verifyOperationalContinuity sample_clientLib [peEvent sample_parsed] ''a.b'' ''bw'' ''bw'' (timeUnix 9) = Inr ()"
  "is_ok (activeHistoricalSnapshot sample_clientLib [peEvent sample_parsed] ''a.b'' (timeUnix 9))"
  by code_simp+

theorem lifecycle_binding_sound_witness:
  "\<exists>accepted h. stream sample_events accepted h \<and> (\<forall>v \<in> set accepted. attested sample_clientLib sample_reader ''a.b'' None sample_history v)"
proof -
  obtain w1 where r: "rebuildVerifiedHistory sample_clientLib sample_reader sample_call ''a.b'' (0, ()) = Some (Inr (sample_out, map veEvent sample_out), w1)"
    using sample_rebuilt by blast
  have "\<exists>w'. VerifyLifecycleBinding sample_clientLib sample_reader sample_call sample_input ''bw'' (0, ())
     = Some (Inr \<lparr>bbInitialOperationalThumbprint = ''bw'', bbInitialEntityThumbprint = ''ZQ'', bbTimestamp = timeUnix 1\<rparr>, w')"
    using r sample_binding
    by (simp add: VerifyLifecycleBinding_def io_bind_def io_lift_def io_then_ctx_def io_ctx_def io_call_def answer_def sample_input_def)
  moreover have "entries = sample_history" if "offered sample_reader d entries" for d entries
    using that by (auto simp: offered_def sample_source_def)
  ultimately show ?thesis using lifecycle_binding_sound [of sample_clientLib sample_reader sample_call sample_input "''bw''" "(0, ())"]
    by (simp add: sample_input_def) blast
qed

definition sample_evidence :: LoggedStateEvidence where
  "sample_evidence = projr (nonRevocationEvidence sample_clientLib sample_reader ''a.b'' (timeUnix 9) sample_complete sample_verified sample_out [peEvent sample_parsed])"

lemma sample_nonrevoked:
  "nonRevocationEvidence sample_clientLib sample_reader ''a.b'' (timeUnix 9) sample_complete sample_verified sample_out [peEvent sample_parsed] = Inr sample_evidence"
proof -
  from sample_binding(3) obtain s where "snapshotOf sample_clientLib [peEvent sample_parsed] ''a.b'' (timeUnix 9) = Inr s" "ssHistoricalState s = AgentStateActive"
    by (auto simp: activeHistoricalSnapshot_def is_ok_def rbind_def split: sum.splits if_splits)
  moreover have "evType (peEvent sample_parsed) = LogEventIssuance" "evTimestamp (peEvent sample_parsed) = timeUnix 1"
    by (simp_all add: sample_parsed_def zeroLogEvent_def)
  ultimately have "is_ok (nonRevocationEvidence sample_clientLib sample_reader ''a.b'' (timeUnix 9) sample_complete sample_verified sample_out [peEvent sample_parsed])"
    using sample_times by (simp add: nonRevocationEvidence_def sample_out_def verifiedOf_def is_ok_def)
  then show ?thesis by (auto simp: sample_evidence_def is_ok_def split: sum.splits)
qed

lemma sample_complete_checkpoint: "verifyCompleteCheckpoint sample_clientLib sample_reader sample_complete = Inr sample_verified"
  using sample_checkpoint_verified sample_times(1)
  by (simp add: verifyCompleteCheckpoint_def sample_complete_def) (simp add: sample_verified_def sample_checkpointOf_def)

theorem nonrevocation_sound_witness:
  "lsLoggedState sample_evidence = AgentStateActive
     \<and> (\<exists>accepted h. stream sample_events accepted h
          \<and> (\<forall>v \<in> set accepted. attested sample_clientLib sample_reader ''a.b'' (Some sample_verified) sample_history v))"
proof -
  have "ccErr (noteScan None (withScanEvidence sample_call)) = (\<lambda>_. None)" by (simp add: noteScan_def withScanEvidence_def)
  from sample_history_verified [OF _ this, of "Some sample_verified" "(Suc 0, ())"] obtain w1 where
    "verifyHistoryEntries sample_clientLib sample_reader (noteScan None (withScanEvidence sample_call)) ''a.b'' sample_history (Some sample_verified)
       (Suc 0, ()) = Some (Inr (sample_out, map veEvent sample_out), w1)" by blast
  with sample_nonrevoked sample_complete_checkpoint have "\<exists>w'. VerifyNonRevocation sample_clientLib sample_reader sample_call ''a.b'' (timeUnix 9) (0, ()) = Some (Inr sample_evidence, w')"
    by (simp add: VerifyNonRevocation_def io_bind_def io_lift_def io_map_err_def io_then_ctx_def io_ctx_def io_call_def sample_source_def
        sample_complete_def)
  then obtain w' where "VerifyNonRevocation sample_clientLib sample_reader sample_call ''a.b'' (timeUnix 9) (0, ()) = Some (Inr sample_evidence, w')" ..
  from nonrevocation_sound [OF this] show ?thesis
    using sample_checkpoint_verified by (auto simp: sample_source_def sample_complete_def)
qed

definition sample_migration :: "string \<Rightarrow> string LogEvent" where
  "sample_migration log = zeroLogEvent\<lparr>evType := LogEventMigration, evPreviousLog := log\<rparr>"

theorem migration_nesting_bounded_witness:
  "\<exists>x. nested defaultMigrationVerificationLimits ''a'' [sample_migration ''c'', sample_migration ''b''] x
     \<and> distinct (visited ''a'' [sample_migration ''c'', sample_migration ''b''])"
proof -
  let ?l = defaultMigrationVerificationLimits
  obtain x1 where x1: "enterMigration (Some sample_call) (sample_migration ''b'') ''a'' ?l = Inr (x1, withDefaults ?l)"
    "ccPath x1 = Some \<lparr>mpNextLog = ''b'', mpDepth = 1, mpSeen = [''b'', ''a''], mpLimits = withDefaults ?l\<rparr>"
    by (simp add: enterMigration_def sample_call_def sample_migration_def migrationLimitsForContext_def Let_def)
  then obtain x2 where x2: "enterMigration (Some x1) (sample_migration ''c'') ''b'' ?l = Inr (x2, withDefaults ?l)"
    by (simp add: enterMigration_def sample_migration_def migrationLimitsForContext_def withDefaults_def defaultMigrationVerificationLimits_def Let_def)
  have "nested ?l ''a'' [] sample_call" by (rule nested.outermost) (simp add: sample_call_def)
  from nested.entered [OF this x1(1)] have "nested ?l ''a'' [sample_migration ''b''] x1" by simp
  from nested.entered [OF this x2] have n: "nested ?l ''a'' [sample_migration ''c'', sample_migration ''b''] x2" by simp
  have "distinct (visited ''a'' [sample_migration ''c'', sample_migration ''b''])"
    by (rule migration_nesting_bounded [OF n, THEN conjunct1]) (simp add: defaultMigrationVerificationLimits_def)
  with n show ?thesis by blast
qed

end
