(* ===== verification/Prepared_Event.thy ===== *)
theory Prepared_Event
  imports Log_Client
begin

text \<open>
  Writing to a stream (\<open>log/c2sptlog/prepared.go\<close> and the write methods of \<open>client.go\<close>): an event becomes an envelope, the envelope
  collects the signatures its type requires, and the complete envelope is appended when its chain fields continue the
  verified history. A key provider is an interface of the SDK, given here by what its \<open>JWK\<close> and signing methods return.
\<close>

section \<open>Chain fields of a write\<close>

definition isGenesisFor :: "('k, 's) Client \<Rightarrow> 'k LogEvent \<Rightarrow> bool" where
  "isGenesisFor c event = (evType event = LogEventIssuance \<or> isInboundMigration c event)"

definition chainForWrite :: "('k, 's) Client \<Rightarrow> 'k LogEvent \<Rightarrow> sdk_error + chainFields" where
  "chainForWrite c event =
     (if isGenesisFor c event then Inr (zeroChainFields\<lparr>cfSequence := Some 0\<rparr>)
      else Inl (PlainError ''dnsid: c2sp-tlog write requires chain fields via WriteEventWithChain'' None))"

definition validateChain :: "('k, 's) Client \<Rightarrow> 'k LogEvent \<Rightarrow> Chain \<Rightarrow> sdk_error + unit" where
  "validateChain c event chain =
     (if isGenesisFor c event then
        check (chSequence chain = 0 \<and> chPreviousEventID chain = '''' \<and> chPreviousStateHash chain = '''')
          (PlainError ''dnsid: c2sp-tlog genesis requires seq 0'' None)
      else check (chSequence chain \<noteq> 0 \<and> validHash (chPreviousEventID chain) \<and> validHash (chPreviousStateHash chain))
             (PlainError ''dnsid: c2sp-tlog write requires lifecycle chain fields'' None))"

definition validatePreparedChain :: "('k, 's) Client \<Rightarrow> 'k parsedEvent \<Rightarrow> sdk_error + unit" where
  "validatePreparedChain c parsed =
     (if evType (peEvent parsed) = LogEventMigration \<and> \<not> isInboundMigration c (peEvent parsed)
      then Inl (invalidMigration ''dnsid: c2sp-tlog MIGRATION must be destination genesis'' None)
      else if cfInvalid (peChain parsed) then Inl (PlainError ''dnsid: prohibited or invalid logical chain fields'' None)
      else if isGenesisFor c (peEvent parsed) then
        (if cfSequence (peChain parsed) \<noteq> Some 0 then Inl (PlainError ''dnsid: c2sp-tlog genesis requires seq 0'' None)
         else check (validGenesisChain (peChain parsed)) (PlainError ''dnsid: c2sp-tlog genesis must not contain previous chain fields'' None))
      else check (cfSequence (peChain parsed) \<noteq> None \<and> validHash (cfPreviousEventID (peChain parsed))
                  \<and> validHash (cfPreviousStateHash (peChain parsed)))
             (PlainError ''dnsid: c2sp-tlog entry requires lifecycle chain fields'' None))"

section \<open>Prepared events\<close>

record PreparedEvent =
  preReference :: Reference
  preEnvelope :: payload
  preSignedBytes :: bytes
  preRequired :: "SignerRole list"

definition cloneJSONObject :: "'f floatLib \<Rightarrow> payload \<Rightarrow> sdk_error + payload" where
  "cloneJSONObject F value = rbind (canonicalJSON F (JObject value)) (\<lambda>encoded. decodeJSONObject encoded)"

definition prepared_EventID :: "('k, 'p, 'q, 'f) clientLib \<Rightarrow> PreparedEvent option \<Rightarrow> string" where
  "prepared_EventID L p = (case p of None \<Rightarrow> '''' | Some q \<Rightarrow> EventID (clEvents L) (preSignedBytes q))"

definition prepared_Bytes :: "('k, 'p, 'q, 'f) clientLib \<Rightarrow> PreparedEvent option \<Rightarrow> sdk_error + bytes" where
  "prepared_Bytes L p =
     (case p of
        None \<Rightarrow> Inl (PlainError ''dnsid: prepared c2sp-tlog event is required'' None)
      | Some q \<Rightarrow> canonicalJSON (elFloat (clEvents L)) (JObject (preEnvelope q)))"

definition prepared_Event :: "('k, 'p, 'q, 'f) clientLib \<Rightarrow> PreparedEvent \<Rightarrow> sdk_error + 'k LogEvent" where
  "prepared_Event L p = rbind (eventFromPayload (clEvents L) (preEnvelope p)) (\<lambda>parsed. Inr (peEvent parsed))"

definition validateWritableStream :: "('k, 'p, 'q, 'f) clientLib \<Rightarrow> ('k, 's) Client \<Rightarrow> 'k LogEvent \<Rightarrow> sdk_error + unit" where
  "validateWritableStream L c event =
     rbind (NormalizeFQDN (elToASCII (clEvents L)) (evDomain event)) (\<lambda>normalizedDomain.
       check (refStreamID (cRef c) \<noteq> normalizedDomain)
         (PlainError ''dnsid: c2sp-tlog stream ID must identify an identity instance and must not equal the normalized event fqdn'' None))"

definition preparedFromEnvelope ::
  "('k, 'p, 'q, 'f) clientLib \<Rightarrow> ('k, 's) Client \<Rightarrow> payload \<Rightarrow> sdk_error + PreparedEvent" where
  "preparedFromEnvelope L c envelope =
     (let E = clEvents L; F = elFloat (clEvents L) in
      rbind (cloneJSONObject F envelope) (\<lambda>copy.
      rbind (eventFromPayload E copy) (\<lambda>parsed.
      case peValidationError parsed of
        Some err \<Rightarrow> Inl err
      | None \<Rightarrow>
          rbind (validateWritableStream L c (peEvent parsed)) (\<lambda>_.
          rbind (canonicalJSON F (JObject copy)) (\<lambda>encoded.
          if encoded = [] \<or> length encoded > maxEntrySize
          then Inl (PlainError ''dnsid: c2sp-tlog entry must be between 1 and 65535 bytes'' None)
          else
            rbind (validateEntryMetadata E (cRef c) encoded) (\<lambda>_.
            rbind (validatePreparedChain c parsed) (\<lambda>_.
            rbind (requiredSignerRoles (evType (peEvent parsed))) (\<lambda>required.
            rbind (validateSignatureShape copy required False) (\<lambda>_.
            rbind (cloneJSONObject F copy) (\<lambda>unsigned.
            rbind (canonicalJSON F (JObject (AList.delete ''sigs'' unsigned))) (\<lambda>signedBytes.
              Inr \<lparr>preReference = cRef c, preEnvelope = copy, preSignedBytes = signedBytes, preRequired = required\<rparr>)))))))))))"

definition prepareEvent ::
  "('k, 'p, 'q, 'f) clientLib \<Rightarrow> ('k, 's) Client \<Rightarrow> 'k LogEvent \<Rightarrow> chainFields \<Rightarrow> sdk_error + PreparedEvent" where
  "prepareEvent L c event chain =
     rbind (validateWritableStream L c event) (\<lambda>_.
     rbind (payloadFromEventWithChain (clEvents L) event False (Some (cRef c)) (Some chain)) (\<lambda>envelope.
       preparedFromEnvelope L c
         (if signaturesFromEvent event \<noteq> [] then AList.update ''sigs'' (JObject (signaturesFromEvent event)) envelope else envelope)))"

definition PrepareEvent :: "('k, 'p, 'q, 'f) clientLib \<Rightarrow> ('k, 's) Client \<Rightarrow> 'k LogEvent \<Rightarrow> sdk_error + PreparedEvent" where
  "PrepareEvent L c event = rbind (chainForWrite c event) (\<lambda>chain. prepareEvent L c event chain)"

definition PrepareEventWithChain ::
  "('k, 'p, 'q, 'f) clientLib \<Rightarrow> ('k, 's) Client \<Rightarrow> 'k LogEvent \<Rightarrow> Chain \<Rightarrow> sdk_error + PreparedEvent" where
  "PrepareEventWithChain L c event chain =
     rbind (validateChain c event chain) (\<lambda>_. prepareEvent L c event (chainFieldsFromChain event chain))"

definition client_EntryBytes :: "('k, 'p, 'q, 'f) clientLib \<Rightarrow> ('k, 's) Client \<Rightarrow> 'k LogEvent \<Rightarrow> sdk_error + bytes" where
  "client_EntryBytes L c event =
     rbind (validateWritableStream L c event) (\<lambda>_.
     rbind (chainForWrite c event) (\<lambda>chain. entryBytesWithChain (clEvents L) event (Some (cRef c)) (Some chain)))"

definition EntryBytesWithChain :: "('k, 'p, 'q, 'f) clientLib \<Rightarrow> ('k, 's) Client \<Rightarrow> 'k LogEvent \<Rightarrow> Chain \<Rightarrow> sdk_error + bytes" where
  "EntryBytesWithChain L c event chain =
     rbind (validateWritableStream L c event) (\<lambda>_.
     rbind (validateChain c event chain) (\<lambda>_.
       entryBytesWithChain (clEvents L) event (Some (cRef c)) (Some (chainFieldsFromChain event chain))))"

definition ParsePreparedEvent :: "('k, 'p, 'q, 'f) clientLib \<Rightarrow> ('k, 's) Client \<Rightarrow> bytes \<Rightarrow> sdk_error + PreparedEvent" where
  "ParsePreparedEvent L c entry =
     rbind (map_err (\<lambda>e. ParseError ''dnsid: parsing c2sp-tlog prepared event'' (Some e)) (payloadObjectFromEntry (elFloat (clEvents L)) entry)) (\<lambda>envelope.
       map_err (\<lambda>e. ValidationError ''dnsid: validating c2sp-tlog prepared event'' (Some e)) (preparedFromEnvelope L c envelope))"

definition validatePrepared :: "('k, 'p, 'q, 'f) clientLib \<Rightarrow> ('k, 's) Client \<Rightarrow> PreparedEvent option \<Rightarrow> sdk_error + PreparedEvent" where
  "validatePrepared L c prepared =
     (case prepared of
        None \<Rightarrow> Inl (PlainError ''dnsid: prepared c2sp-tlog event is required'' None)
      | Some p \<Rightarrow>
          if preReference p \<noteq> cRef c then Inl (PlainError ''dnsid: prepared c2sp-tlog event belongs to a different reference'' None)
          else
            rbind (cloneJSONObject (elFloat (clEvents L)) (preEnvelope p)) (\<lambda>unsigned.
            rbind (canonicalJSON (elFloat (clEvents L)) (JObject (AList.delete ''sigs'' unsigned))) (\<lambda>canonical.
              if canonical \<noteq> preSignedBytes p
              then Inl (PlainError ''dnsid: prepared c2sp-tlog signed bytes do not match envelope'' None)
              else Inr p)))"

section \<open>Signer keys\<close>

definition currentLifecycleState ::
  "('k, 'p, 'q, 'f) clientLib \<Rightarrow> ('k, 's) Client \<Rightarrow> callContext \<Rightarrow> string \<Rightarrow> ('k option \<times> 'k option \<times> payload, 's) io" where
  "currentLifecycleState L c x domain =
     io_bind (rebuildVerifiedHistory L c x domain) (\<lambda>(verified, _).
       io_lift (lifecycleStateFromVerified (elKeys (clEvents L)) verified domain))"

text \<open>The keys are a map of roles; \<open>validateResolvedKeyIDs\<close> is given them in the order of a Go map.\<close>

definition preparedKeys ::
  "('k, 'p, 'q, 'f) clientLib \<Rightarrow> ('k, 's) Client \<Rightarrow> callContext \<Rightarrow> 'k LogEvent \<Rightarrow> ((SignerRole \<times> 'k option) list, 's) io" where
  "preparedKeys L c x event =
     (if evType event = LogEventIssuance then
        io_lift (Inr [(SignerEntity, evInitialEntityPublicKey event),
                      (SignerOperationalCountersignature, evInitialOperationalPublicKey event)])
      else if evType event = LogEventKeyRotation then
        io_bind (currentLifecycleState L c x (evDomain event)) (\<lambda>(entity, operational, state).
        if map_of state ''entity_thumb'' = Some (JString (evNewOperationalThumbprint event))
        then io_lift (Inl (PlainError ''dnsid: operational key must remain distinct from entity key'' None))
        else
          io_bind (io_lift (validateResolvedKeyIDs (elKeys (clEvents L)) [entity, operational, evNewOperationalPublicKey event])) (\<lambda>_.
            io_lift (Inr [(SignerPreviousOperational, operational), (SignerNewOperational, evNewOperationalPublicKey event)])))
      else if evType event = LogEventMigration then
        (case cVerifyMigration c of
           None \<Rightarrow> io_lift (Inl (invalidMigration ''dnsid: migration signing requires verified source history'' None))
         | Some verify \<Rightarrow>
             if \<not> isInboundMigration c event
             then io_lift (Inl (invalidMigration ''dnsid: migration signing requires verified source history'' None))
             else
               io_bind (io_lift (verifyBoundedMigration L c verify x event)) (\<lambda>migration.
               io_bind (io_lift (validateMigrationResult (clEvents L) event migration)) (\<lambda>_.
                 io_lift (Inr [(SignerEntity, mrEntityKey migration)]))))
      else
        io_bind (currentLifecycleState L c x (evDomain event)) (\<lambda>(entity, _, _). io_lift (Inr [(SignerEntity, entity)])))"

definition preparedSignerKeys ::
  "('k, 'p, 'q, 'f) clientLib \<Rightarrow> ('k, 's) Client \<Rightarrow> callContext \<Rightarrow> PreparedEvent \<Rightarrow> ((SignerRole \<times> 'k option) list, 's) io" where
  "preparedSignerKeys L c x prepared =
     io_bind (io_lift (prepared_Event L prepared)) (\<lambda>event.
     io_bind (preparedKeys L c x event) (\<lambda>keys.
     io_bind (io_lift (validateResolvedKeyIDs (elKeys (clEvents L)) (map snd keys))) (\<lambda>_.
       io_lift (Inr keys))))"

definition keyOf :: "(SignerRole \<times> 'k option) list \<Rightarrow> SignerRole \<Rightarrow> 'k option" where
  "keyOf keys role = (case map_of keys role of None \<Rightarrow> None | Some key \<Rightarrow> key)"

text \<open>The \<open>sigs\<close> object of an envelope; \<open>nil\<close> when there is none.\<close>

definition sigsOf :: "payload \<Rightarrow> payload option" where
  "sigsOf envelope = (case map_of envelope ''sigs'' of Some (JObject sigs) \<Rightarrow> Some sigs | _ \<Rightarrow> None)"

definition presentSignature ::
  "('k, 'p, 'q) jwkLib \<Rightarrow> PreparedEvent \<Rightarrow> (SignerRole \<times> 'k option) list \<Rightarrow> SignerRole \<Rightarrow> sdk_error + unit" where
  "presentSignature K prepared keys role =
     (case Option.bind (sigsOf (preEnvelope prepared)) (\<lambda>sigs. map_of sigs (signatureName role)) of
        None \<Rightarrow> Inr ()
      | Some raw \<Rightarrow>
          (case parseSig (Some raw) of
             None \<Rightarrow> Inl (PlainError ''dnsid: malformed c2sp-tlog signature for role'' None)
           | Some (kid, sig) \<Rightarrow>
               if kid = '''' \<or> sig = '''' then Inl (PlainError ''dnsid: malformed c2sp-tlog signature for role'' None)
               else
                 (case keyOf keys role of
                    None \<Rightarrow> Inl (PlainError ''dnsid: no verified key is available for signer role'' None)
                  | Some key \<Rightarrow>
                      if kidOf K key = '''' \<or> kidOf K key \<noteq> kid
                      then Inl (PlainError ''dnsid: c2sp-tlog signature kid does not match signer role key'' None)
                      else map_err (\<lambda>e. PlainError ''dnsid: invalid c2sp-tlog signature for role'' (Some e))
                             (verifyEventSignature K (Some key) (preSignedBytes prepared) sig))))"

definition verifyPresentSignatures ::
  "('k, 'p, 'q) jwkLib \<Rightarrow> PreparedEvent \<Rightarrow> (SignerRole \<times> 'k option) list \<Rightarrow> sdk_error + unit" where
  "verifyPresentSignatures K prepared keys = rbind (seqr (presentSignature K prepared keys) (preRequired prepared)) (\<lambda>_. Inr ())"

section \<open>Signing\<close>

record KeySignature =
  ksKid :: string
  ksAlg :: string
  ksSignature :: bytes

text \<open>A \<open>KeyProvider\<close>: \<open>JWK\<close> and the signing method, of the active key (\<open>None\<close>) or of a named key.\<close>

record 'k keyProvider =
  kpJWK :: "string option \<Rightarrow> 'k option"
  kpSign :: "string option \<Rightarrow> bytes \<Rightarrow> sdk_error + KeySignature option"

definition argErr :: "string \<Rightarrow> sdk_error" where
  "argErr message = ArgumentError message None"

text \<open>The key a role signs with: that of the provider, when it is the expected one.\<close>

definition signingKid ::
  "('k, 'p, 'q) jwkLib \<Rightarrow> 'k keyProvider \<Rightarrow> string option \<Rightarrow> 'k option \<Rightarrow> sdk_error + string \<times> string" where
  "signingKid K kp named expected =
     (case expected of
        None \<Rightarrow> Inl (argErr ''dnsid: no verified key is available for signer role'')
      | Some want \<Rightarrow>
          (case kpJWK kp named of
             None \<Rightarrow> Inl (argErr ''dnsid: signer role key provider has no matching key'')
           | Some key \<Rightarrow>
               (case (thumbprint K key, thumbprint K want) of
                  (None, _) \<Rightarrow> Inl (argErr ''dnsid: signer role signing key thumbprint'')
                | (Some _, None) \<Rightarrow> Inl (argErr ''dnsid: signer role expected key thumbprint'')
                | (Some signingThumb, Some expectedThumb) \<Rightarrow>
                    if signingThumb \<noteq> expectedThumb then Inl (argErr ''dnsid: signer role key does not match event key'')
                    else if kidOf K key = '''' then Inl (argErr ''dnsid: signer role key is missing kid'')
                    else if kidOf K key \<noteq> kidOf K want then Inl (argErr ''dnsid: signer role kid does not match event key kid'')
                    else
                      (case (jkAlg K key, jkAlg K want) of
                         (Some activeAlg, Some expectedAlg) \<Rightarrow>
                           if activeAlg \<noteq> expectedAlg then Inl (argErr ''dnsid: signer role algorithm does not match event key'')
                           else Inr (kidOf K key, expectedAlg)
                       | _ \<Rightarrow> Inl (argErr ''dnsid: signer role algorithm does not match event key'')))))"

definition newSignature ::
  "'k keyProvider \<Rightarrow> string option \<Rightarrow> string \<Rightarrow> string \<Rightarrow> bytes \<Rightarrow> sdk_error + bytes" where
  "newSignature kp named kid expectedAlg signedBytes =
     (case kpSign kp named signedBytes of
        Inl err \<Rightarrow> Inl (ArgumentError ''dnsid: signer role signing failed'' (Some err))
      | Inr None \<Rightarrow> Inl (argErr ''dnsid: signer role key provider returned no signature'')
      | Inr (Some signed) \<Rightarrow>
          if ksKid signed \<noteq> kid then Inl (argErr ''dnsid: signer role signed with another kid'')
          else if ksAlg signed \<noteq> expectedAlg then Inl (argErr ''dnsid: signer role signed with another algorithm'')
          else Inr (ksSignature signed))"

definition addSignature ::
  "('k, 'p, 'q, 'f) clientLib \<Rightarrow> ('k, 's) Client \<Rightarrow> PreparedEvent \<Rightarrow> SignerRole \<Rightarrow> string \<Rightarrow> bytes \<Rightarrow> sdk_error + PreparedEvent" where
  "addSignature L c prepared role kid sig =
     rbind (map_err (\<lambda>e. ValidationError ''dnsid: cloning prepared event'' (Some e)) (cloneJSONObject (elFloat (clEvents L)) (preEnvelope prepared))) (\<lambda>copy.
       let sigs = (case sigsOf copy of None \<Rightarrow> [] | Some sigs \<Rightarrow> sigs) in
       preparedFromEnvelope L c
         (AList.update ''sigs'' (JObject (AList.update (signatureName role) (sigObject kid (RawURLEncode sig)) sigs)) copy))"

text \<open>The last steps of \<open>signPreparedEvent\<close>: a signature that is already there is kept, a new one is added.\<close>

definition signRole ::
  "('k, 'p, 'q, 'f) clientLib \<Rightarrow> ('k, 's) Client \<Rightarrow> PreparedEvent \<Rightarrow> SignerRole \<Rightarrow> 'k keyProvider \<Rightarrow> string option \<Rightarrow> string \<Rightarrow> string
    \<Rightarrow> sdk_error + PreparedEvent" where
  "signRole L c p role kp named kid expectedAlg =
     (case Option.bind (sigsOf (preEnvelope p)) (\<lambda>sigs. map_of sigs (signatureName role)) of
        Some existing \<Rightarrow>
          (case parseSig (Some existing) of
             None \<Rightarrow> Inl (argErr ''dnsid: signer role already has a different signature'')
           | Some (existingKid, _) \<Rightarrow>
               if existingKid \<noteq> kid then Inl (argErr ''dnsid: signer role already has a different signature'') else Inr p)
      | None \<Rightarrow> rbind (newSignature kp named kid expectedAlg (preSignedBytes p)) (\<lambda>sig. addSignature L c p role kid sig))"

definition signPreparedEvent ::
  "('k, 'p, 'q, 'f) clientLib \<Rightarrow> ('k, 's) Client \<Rightarrow> callContext \<Rightarrow> PreparedEvent option \<Rightarrow> SignerRole \<Rightarrow> 'k keyProvider option \<Rightarrow> string option
    \<Rightarrow> (PreparedEvent, 's) io" where
  "signPreparedEvent L c x prepared role provider named = io_then_ctx (ccErr x)
     (io_bind (io_lift (map_err (\<lambda>e. ValidationError ''dnsid: invalid prepared event'' (Some e)) (validatePrepared L c prepared))) (\<lambda>p.
      if \<not> containsRole (preRequired p) role then io_lift (Inl (argErr ''dnsid: signer role is not valid for this c2sp-tlog event''))
      else
        (case provider of
           None \<Rightarrow> io_lift (Inl (argErr ''dnsid: signer role key provider is required''))
         | Some kp \<Rightarrow>
             io_bind (preparedSignerKeys L c x p) (\<lambda>keys.
             io_bind (io_lift (map_err (\<lambda>e. ValidationError ''dnsid: invalid prepared event signatures'' (Some e))
                                 (verifyPresentSignatures (elKeys (clEvents L)) p keys))) (\<lambda>_.
             io_bind (io_lift (signingKid (elKeys (clEvents L)) kp named (keyOf keys role))) (\<lambda>(kid, expectedAlg).
               io_lift (signRole L c p role kp named kid expectedAlg)))))))"

definition SignPreparedEvent ::
  "('k, 'p, 'q, 'f) clientLib \<Rightarrow> ('k, 's) Client \<Rightarrow> callContext \<Rightarrow> PreparedEvent option \<Rightarrow> SignerRole \<Rightarrow> 'k keyProvider option \<Rightarrow> (PreparedEvent, 's) io" where
  "SignPreparedEvent L c x prepared role provider = signPreparedEvent L c x prepared role provider None"

definition SignPreparedEventWithKey ::
  "('k, 'p, 'q, 'f) clientLib \<Rightarrow> ('k, 's) Client \<Rightarrow> callContext \<Rightarrow> PreparedEvent option \<Rightarrow> SignerRole \<Rightarrow> 'k keyProvider option \<Rightarrow> string
    \<Rightarrow> (PreparedEvent, 's) io" where
  "SignPreparedEventWithKey L c x prepared role provider kid =
     (if kid = [] then io_lift (Inl (argErr ''dnsid: c2sp-tlog signer kid is required''))
      else signPreparedEvent L c x prepared role provider (Some kid))"

section \<open>Writing\<close>

definition backgroundContext :: callContext where
  "backgroundContext = \<lparr>ccErr = (\<lambda>_. None), ccPath = None, ccScan = None\<rparr>"

definition ParsePreparedIssuance ::
  "('k, 'p, 'q, 'f) clientLib \<Rightarrow> gotime \<Rightarrow> bytes \<Rightarrow> (('k, 's) Client \<times> PreparedEvent, 's) io" where
  "ParsePreparedIssuance L now entry =
     io_bind (io_lift (map_err (\<lambda>e. ParseError ''dnsid: parsing prepared ISSUANCE'' (Some e)) (payloadObjectFromEntry (elFloat (clEvents L)) entry))) (\<lambda>payload.
     if map_of payload ''type'' \<noteq> Some (JString LogEventIssuance)
     then io_lift (Inl (ValidationError ''dnsid: prepared event must be ISSUANCE'' None))
     else
       io_bind (io_lift (New (elParse (clEvents L)) now (stringOr payload ''lr'') [])) (\<lambda>c.
       io_bind (io_lift (ParsePreparedEvent L c entry)) (\<lambda>prepared.
       io_bind (io_map_err (\<lambda>e. ValidationError ''dnsid: invalid prepared ISSUANCE keys'' (Some e)) (preparedSignerKeys L c backgroundContext prepared)) (\<lambda>keys.
       io_bind (io_lift (map_err (\<lambda>e. ValidationError ''dnsid: invalid prepared ISSUANCE signatures'' (Some e))
                           (verifyPresentSignatures (elKeys (clEvents L)) prepared keys))) (\<lambda>_.
         io_lift (Inr (c, prepared)))))))"

definition PreparedEntryBytes ::
  "('k, 'p, 'q, 'f) clientLib \<Rightarrow> ('k, 's) Client \<Rightarrow> callContext \<Rightarrow> PreparedEvent option \<Rightarrow> (bytes, 's) io" where
  "PreparedEntryBytes L c x prepared = io_then_ctx (ccErr x)
     (io_bind (io_lift (map_err (\<lambda>e. ValidationError ''dnsid: invalid prepared event'' (Some e)) (validatePrepared L c prepared))) (\<lambda>p.
      io_bind (io_lift (map_err (\<lambda>e. ValidationError ''dnsid: invalid prepared event signatures'' (Some e))
                          (validateSignatureShape (preEnvelope p) (preRequired p) True))) (\<lambda>_.
      io_bind (preparedSignerKeys L c x p) (\<lambda>keys.
      io_bind (io_lift (map_err (\<lambda>e. ValidationError ''dnsid: invalid prepared event signatures'' (Some e))
                          (verifyPresentSignatures (elKeys (clEvents L)) p keys))) (\<lambda>_.
      io_lift (rbind (canonicalJSON (elFloat (clEvents L)) (JObject (preEnvelope p))) (\<lambda>entry.
        if entry = [] \<or> length entry > maxEntrySize
        then Inl (ValidationError ''dnsid: c2sp-tlog entry must be between 1 and 65535 bytes'' None)
        else Inr entry)))))))"

text \<open>The sequence number after that of the last event, an unsigned 64-bit integer.\<close>

definition nextSequence :: "'k verifiedEvent \<Rightarrow> nat option" where
  "nextSequence item = map_option (\<lambda>seq. (seq + 1) mod 2 ^ 64) (cfSequence (veChain item))"

definition validatePreparedChainAgainstHistory ::
  "('k, 'p, 'q, 'f) clientLib \<Rightarrow> ('k, 's) Client \<Rightarrow> callContext \<Rightarrow> 'k parsedEvent \<Rightarrow> (unit, 's) io" where
  "validatePreparedChainAgainstHistory L c x parsed =
     (if isGenesisFor c (peEvent parsed) then io_lift (validatePreparedChain c parsed)
      else
        io_bind (rebuildVerifiedHistory L c x (evDomain (peEvent parsed))) (\<lambda>(verified, _).
        if verified = [] then io_lift (Inl (PlainError ''dnsid: c2sp-tlog event requires prior verified state'' None))
        else
          io_bind (currentLifecycleState L c x (evDomain (peEvent parsed))) (\<lambda>(_, _, state).
            io_lift (check (validChainFields (clEvents L) (peChain parsed) (case nextSequence (last verified) of None \<Rightarrow> 0 | Some seq \<Rightarrow> seq)
                              (EventID (clEvents L) (veSigned (last verified))) state)
                       (PlainError ''dnsid: invalid c2sp-tlog logical lifecycle chain'' None)))))"

definition ChainForWrite ::
  "('k, 'p, 'q, 'f) clientLib \<Rightarrow> ('k, 's) Client \<Rightarrow> callContext \<Rightarrow> 'k LogEvent \<Rightarrow> (Chain, 's) io" where
  "ChainForWrite L c x event =
     (if isGenesisFor c event then io_lift (Inr \<lparr>chSequence = 0, chPreviousEventID = [], chPreviousStateHash = []\<rparr>)
      else
        io_bind (rebuildVerifiedHistory L c x (evDomain event)) (\<lambda>(verified, _).
        io_lift (rbind (lifecycleStateFromVerified (elKeys (clEvents L)) verified (evDomain event)) (\<lambda>(_, _, state).
          case nextSequence (last verified) of
            None \<Rightarrow> Inl (PlainError ''dnsid: verified c2sp-tlog history is missing sequence metadata'' None)
          | Some seq \<Rightarrow> Inr \<lparr>chSequence = seq, chPreviousEventID = EventID (clEvents L) (veSigned (last verified)),
                           chPreviousStateHash = lifecycleStateHash (clEvents L) state\<rparr>))))"

definition WritePreparedEvent ::
  "('k, 'p, 'q, 'f) clientLib \<Rightarrow> ('k, 's) Client \<Rightarrow> callContext \<Rightarrow> PreparedEvent option \<Rightarrow> (string, 's) io" where
  "WritePreparedEvent L c x prepared =
     (case cAppender c of
        None \<Rightarrow> io_lift (Inl (argErr ''dnsid: c2sp-tlog appender is required''))
      | Some appendTo \<Rightarrow>
          io_bind (PreparedEntryBytes L c x prepared) (\<lambda>entry.
          io_bind (io_lift (map_err (\<lambda>e. ValidationError ''dnsid: invalid prepared event'' (Some e)) (parseEventFromEntry (clEvents L) entry))) (\<lambda>parsed.
          io_bind (validatePreparedChainAgainstHistory L c x parsed) (\<lambda>_.
          io_bind (io_call (appendTo entry)) (\<lambda>index.
            io_lift (Inr (FinalEventRef (cRef c) index)))))))"

definition writeEvent ::
  "('k, 'p, 'q, 'f) clientLib \<Rightarrow> ('k, 's) Client \<Rightarrow> callContext \<Rightarrow> 'k LogEvent \<Rightarrow> chainFields \<Rightarrow> (string, 's) io" where
  "writeEvent L c x event chain = io_bind (io_lift (prepareEvent L c event chain)) (\<lambda>prepared. WritePreparedEvent L c x (Some prepared))"

definition WriteEvent :: "('k, 'p, 'q, 'f) clientLib \<Rightarrow> ('k, 's) Client \<Rightarrow> callContext \<Rightarrow> 'k LogEvent \<Rightarrow> (string, 's) io" where
  "WriteEvent L c x event = io_bind (io_lift (chainForWrite c event)) (\<lambda>chain. writeEvent L c x event chain)"

definition WriteEventWithChain ::
  "('k, 'p, 'q, 'f) clientLib \<Rightarrow> ('k, 's) Client \<Rightarrow> callContext \<Rightarrow> 'k LogEvent \<Rightarrow> Chain \<Rightarrow> (string, 's) io" where
  "WriteEventWithChain L c x event chain =
     io_bind (io_lift (validateChain c event chain)) (\<lambda>_. writeEvent L c x event (chainFieldsFromChain event chain))"

definition AppendPreparedEntry :: "('k, 'p, 'q, 'f) clientLib \<Rightarrow> ('k, 's) Client \<Rightarrow> callContext \<Rightarrow> bytes \<Rightarrow> (string, 's) io" where
  "AppendPreparedEntry L c x entry =
     io_bind (io_lift (ParsePreparedEvent L c entry)) (\<lambda>prepared. WritePreparedEvent L c x (Some prepared))"

section \<open>Reference definitions\<close>

text \<open>The signature a prepared event carries for a role, and that it is one by the key of the role over the signed bytes.\<close>

definition signatureFor :: "PreparedEvent \<Rightarrow> SignerRole \<Rightarrow> (string \<times> string) option" where
  "signatureFor p role = Option.bind (sigsOf (preEnvelope p)) (\<lambda>sigs. parseSig (map_of sigs (signatureName role)))"

definition roleSigned ::
  "('k, 'p, 'q) jwkLib \<Rightarrow> PreparedEvent \<Rightarrow> (SignerRole \<times> 'k option) list \<Rightarrow> SignerRole \<Rightarrow> bool" where
  "roleSigned K p keys role =
     (\<exists>kid sig key. signatureFor p role = Some (kid, sig) \<and> keyOf keys role = Some key \<and> kid = kidOf K key \<and> kid \<noteq> ''''
        \<and> verifyEventSignature K (Some key) (preSignedBytes p) sig = Inr ())"

text \<open>The chain fields continue a history the client has verified.\<close>

definition chainContinues ::
  "('k, 'p, 'q, 'f) clientLib \<Rightarrow> ('k, 's) Client \<Rightarrow> callContext \<Rightarrow> string \<Rightarrow> chainFields \<Rightarrow> bool" where
  "chainContinues L c x domain chain =
     ((\<exists>entries accepted h. offered c domain entries \<and> stream (clEvents L) accepted h
         \<and> (\<forall>v \<in> set accepted. attested L c domain None entries v)
         \<and> cfSequence chain = Some (length accepted) \<and> cfPreviousEventID chain = EventID (clEvents L) (veSigned (last accepted)))
      \<and> (\<exists>w w' entity operational state. currentLifecycleState L c x domain w = Some (Inr (entity, operational, state), w')
         \<and> cfPreviousStateHash chain = lifecycleStateHash (clEvents L) state))"

section \<open>Lemmas\<close>

subsection \<open>Checked writes\<close>

lemma shape_complete:
  assumes "validateSignatureShape envelope required True = Inr ()" "role \<in> set required"
  shows "\<exists>sigs kid sig. sigsOf envelope = Some sigs \<and> map_of sigs (signatureName role) \<noteq> None"
  using assms
  by (auto simp: validateSignatureShape_def sigsOf_def Let_def rbind_Inr_iff check_Inr_iff list_all_iff split: option.splits json.splits)

lemma present_signed:
  assumes "validateSignatureShape (preEnvelope p) (preRequired p) True = Inr ()" "verifyPresentSignatures K p keys = Inr ()"
    and "role \<in> set (preRequired p)"
  shows "roleSigned K p keys role"
proof -
  from shape_complete [OF assms(1,3)] obtain sigs raw where s: "sigsOf (preEnvelope p) = Some sigs" "map_of sigs (signatureName role) = Some raw" by auto
  from assms(2,3) have "presentSignature K p keys role = Inr ()"
    by (auto simp: verifyPresentSignatures_def rbind_Inr_iff seqr_Inr_iff in_set_conv_nth list_all2_conv_all_nth)
  with s show ?thesis
    by (auto simp: presentSignature_def roleSigned_def signatureFor_def map_err_Inr_iff split: option.splits if_splits)
qed

lemma validatePrepared_ok:
  assumes "validatePrepared L c (Some p) = Inr q"
  shows "q = p \<and> preReference p = cRef c
    \<and> (\<exists>unsigned. cloneJSONObject (elFloat (clEvents L)) (preEnvelope p) = Inr unsigned
         \<and> canonicalJSON (elFloat (clEvents L)) (JObject (AList.delete ''sigs'' unsigned)) = Inr (preSignedBytes p))"
  using assms by (auto simp: validatePrepared_def rbind_Inr_iff split: if_splits)

lemma entry_signed_bytes:
  assumes "cloneJSONObject F envelope = Inr unsigned" "canonicalJSON F (JObject (AList.delete ''sigs'' unsigned)) = Inr signed"
    and "canonicalJSON F (JObject envelope) = Inr entry" "payloadObjectFromEntry F entry = Inr payload"
  shows "CanonicalFromEntry F entry = Inr signed"
proof -
  from assms(4) have "decodeJSONObject entry = Inr payload" by (auto simp: payloadObjectFromEntry_def rbind_Inr_iff split: if_splits)
  with assms(1,3) have "unsigned = payload" by (simp add: cloneJSONObject_def)
  with assms(2,4) show ?thesis by (simp add: CanonicalFromEntry_def)
qed

lemma chain_against_history:
  assumes r: "validatePreparedChainAgainstHistory L c x parsed w = Some (Inr (), w')" and skip: "\<not> plSkipProofVerify (cPolicy c)"
  shows "if isGenesisFor c (peEvent parsed) then validGenesisChain (peChain parsed)
    else chainContinues L c x (evDomain (peEvent parsed)) (peChain parsed)"
proof (cases "isGenesisFor c (peEvent parsed)")
  case True
  with r show ?thesis by (auto simp: validatePreparedChainAgainstHistory_def validatePreparedChain_def io_ok check_Inr_iff split: if_splits)
next
  case False
  with r obtain verified events w1 w2 w3 entity operational state seq where
    h: "rebuildVerifiedHistory L c x (evDomain (peEvent parsed)) w = Some (Inr (verified, events), w1)"
    and st: "currentLifecycleState L c x (evDomain (peEvent parsed)) w2 = Some (Inr (entity, operational, state), w3)"
    and v: "validChainFields (clEvents L) (peChain parsed) seq (EventID (clEvents L) (veSigned (last verified))) state"
    and seq: "seq = (case nextSequence (last verified) of None \<Rightarrow> 0 | Some seq \<Rightarrow> seq)"
    by (cases w') (auto simp: validatePreparedChainAgainstHistory_def io_ok check_Inr_iff split: if_splits)
  from rebuildVerifiedHistory_ok [OF h skip] obtain entries g where
    hist: "offered c (evDomain (peEvent parsed)) entries" "stream (clEvents L) verified g"
    "\<forall>v \<in> set verified. attested L c (evDomain (peEvent parsed)) None entries v" "length verified \<le> defaultScanMaxTreeSize" by blast
  have "seq = length verified"
    using stream_sequence [OF hist(2)] stream_nonempty [OF hist(2)] hist(4) by (cases verified) (auto simp: seq nextSequence_def)
  with v have "cfSequence (peChain parsed) = Some (length verified)" "cfPreviousEventID (peChain parsed) = EventID (clEvents L) (veSigned (last verified))"
    "cfPreviousStateHash (peChain parsed) = lifecycleStateHash (clEvents L) state" by (auto simp: validChainFields_def)
  with False hist st show ?thesis unfolding chainContinues_def by (simp del: split_paired_Ex) blast
qed

subsection \<open>Collecting signatures\<close>

lemma delete_update_same: "AList.delete k (AList.update k v m) = AList.delete k m"
  by (induction m) (auto simp: AList.delete_eq)

lemma delete_filter: "AList.delete k m = filter (\<lambda>kv. k \<noteq> fst kv) m"
  unfolding AList.delete_eq by (rule filter_cong) auto

lemma jnorm_twice:
  assumes "\<forall>kv \<in> set m. jnorm F (jnorm F (snd kv)) = jnorm F (snd kv)"
  shows "jnorm F (jnorm F (JObject m)) = jnorm F (JObject m)"
proof -
  let ?m = "map (\<lambda>kv. (fst kv, jnorm F (snd kv))) (sortedKeys m)"
  have "sorted (map (\<lambda>kv. utf16 (fst kv)) ?m)" by (simp add: o_def sortedKeys_def)
  moreover have "\<forall>kv \<in> set ?m. jnorm F (snd kv) = snd kv" using assms by (auto simp: sortedKeys_def)
  ultimately have "jnorm F (JObject ?m) = JObject ?m" using jnorm_normal_object by blast
  then show ?thesis by simp
qed

lemma jnorm_delete:
  assumes "jnorm F (JObject m) = JObject m'"
  shows "jnorm F (JObject (AList.delete k m)) = JObject (AList.delete k m')"
  using assms by (auto simp: delete_filter sortedKeys_def filter_sort filter_map o_def)

lemma map_of_jnorm:
  assumes "jnorm F (JObject m) = JObject m'" "distinct (map fst m)"
  shows "map_of m' k = map_option (jnorm F) (map_of m k)"
proof -
  have "map_of (sortedKeys m) = map_of m"
    using assms(2) by (intro map_of_inject_set [THEN iffD2]) (simp_all add: sortedKeys_def distinct_map inj_on_def set_sort)
  moreover have "map_of (map (\<lambda>kv. (fst kv, jnorm F (snd kv))) xs) k = map_option (jnorm F) (map_of xs k)" for xs
    by (induction xs) auto
  ultimately show ?thesis using assms(1) by auto
qed

lemma clone_jnorm:
  assumes "numberTexts F" "distinctKeys (JObject m)" "nesting (JObject m) \<le> 64" "cloneJSONObject F m = Inr m'"
  shows "JObject m' = jnorm F (JObject m)"
proof -
  from assms(4) obtain bs where "writeCanonicalJSON F (JObject m) = Inr bs" "DecodeObject bs = Inr m'"
    by (auto simp: cloneJSONObject_def canonicalJSON_def rbind_Inr_iff simp del: writeCanonicalJSON.simps)
  with decode_written [OF assms(1-3)] show ?thesis by auto
qed

text \<open>What a prepared event is: its envelope decodes to a normal payload, whose signed bytes it holds.\<close>

lemma preparedFromEnvelope_ok:
  assumes "preparedFromEnvelope L c envelope = Inr p" "numberTexts (elFloat (clEvents L))"
  shows "\<exists>payload. cloneJSONObject (elFloat (clEvents L)) envelope = Inr (preEnvelope p)
    \<and> cloneJSONObject (elFloat (clEvents L)) (preEnvelope p) = Inr payload
    \<and> jnorm (elFloat (clEvents L)) (JObject payload) = JObject payload \<and> distinctKeys (JObject payload) \<and> nesting (JObject payload) \<le> 64
    \<and> canonicalJSON (elFloat (clEvents L)) (JObject (AList.delete ''sigs'' payload)) = Inr (preSignedBytes p)"
proof -
  let ?F = "elFloat (clEvents L)"
  from assms(1) obtain encoded unsigned where e: "cloneJSONObject ?F envelope = Inr (preEnvelope p)"
    "canonicalJSON ?F (JObject (preEnvelope p)) = Inr encoded" "validateEntryMetadata (clEvents L) (cRef c) encoded = Inr ()"
    "cloneJSONObject ?F (preEnvelope p) = Inr unsigned" "canonicalJSON ?F (JObject (AList.delete ''sigs'' unsigned)) = Inr (preSignedBytes p)"
    by (auto simp: preparedFromEnvelope_def Let_def rbind_Inr_iff split: option.splits if_splits)
  from e(3) obtain payload where p: "payloadObjectFromEntry ?F encoded = Inr payload" by (auto simp: validateEntryMetadata_def rbind_Inr_iff)
  then have d: "DecodeObject encoded = Inr payload" by (auto simp: payloadObjectFromEntry_def rbind_Inr_iff split: if_splits)
  with e(2,4) have "unsigned = payload" by (simp add: cloneJSONObject_def)
  with e payload_normal [OF assms(2) p] decoded_wf [OF d] show ?thesis by blast
qed

lemma kid_sig_sorted: "utf16 ''kid'' \<le> utf16 ''sig''"
  by code_simp

lemma sigObject_normal: "jnorm F (sigObject kid sig) = sigObject kid sig" "distinctKeys (sigObject kid sig)" "nesting (sigObject kid sig) = 1"
  by (simp_all add: sigObject_def sortedKeys_def kid_sig_sorted)

lemma update_members: "kv \<in> set (AList.update k v m) \<Longrightarrow> kv = (k, v) \<or> kv \<in> set m"
  by (induction m) (auto split: if_splits)

lemma update_values:
  assumes "P v" "\<forall>kv \<in> set m. P (snd kv)"
  shows "\<forall>kv \<in> set (AList.update k v m). P (snd kv)"
  using assms update_members by fastforce

text \<open>The envelope with one more signature, as \<open>addSignature\<close> builds it from a normal payload.\<close>

lemma signed_envelope:
  fixes payload :: payload and name kid sig :: string
  defines "sigs \<equiv> (case sigsOf payload of None \<Rightarrow> [] | Some sigs \<Rightarrow> sigs)"
  defines "envelope \<equiv> AList.update ''sigs'' (JObject (AList.update name (sigObject kid sig) sigs)) payload"
  assumes n: "jnorm F (JObject payload) = JObject payload" and d: "distinctKeys (JObject payload)" "nesting (JObject payload) \<le> 64"
  shows "distinctKeys (JObject envelope)" "nesting (JObject envelope) \<le> 64" "jnorm F (jnorm F (JObject envelope)) = jnorm F (JObject envelope)"
    "distinct (map fst (AList.update name (sigObject kid sig) sigs))"
proof -
  let ?sigs = "AList.update name (sigObject kid sig) sigs"
  have old: "JObject sigs \<in> snd ` set payload \<or> sigs = []"
    by (auto simp: sigs_def sigsOf_def split: option.splits json.splits dest!: map_of_SomeD intro!: image_eqI)
  from n have "\<forall>v \<in> snd ` set payload. jnorm F v = v" by (auto simp: jnorm_normal_object simp del: jnorm.simps)
  with old have "jnorm F (JObject sigs) = JObject sigs" by (auto simp: sortedKeys_def)
  then have "\<forall>kv \<in> set sigs. jnorm F (snd kv) = snd kv" unfolding jnorm_normal_object by blast
  then have norm: "\<forall>kv \<in> set ?sigs. jnorm F (snd kv) = snd kv"
    by (intro update_values) (simp_all add: sigObject_normal del: jnorm.simps)
  from d(1) have "\<forall>v \<in> snd ` set payload. distinctKeys v" by auto
  with old have "distinctKeys (JObject sigs)" by (elim disjE) (blast, simp)
  then have dist: "distinctKeys (JObject ?sigs)"
    using update_values [of distinctKeys "sigObject kid sig" sigs name] sigObject_normal(2) by (simp add: distinct_update)
  then show "distinct (map fst ?sigs)" by simp
  from d(1) dist update_values [of distinctKeys "JObject ?sigs" payload "''sigs''"]
  show "distinctKeys (JObject envelope)" by (simp add: envelope_def distinct_update)
  from d(2) have "\<forall>v \<in> snd ` set payload. nesting v \<le> 63" using nesting_le(1) [of 0 payload 64] by auto
  with old have "nesting (JObject sigs) \<le> 63" by (elim disjE) (blast, simp)
  then have "\<forall>kv \<in> set sigs. nesting (snd kv) \<le> 62" using nesting_le(1) [of 0 sigs 63] by auto
  then have "\<forall>kv \<in> set ?sigs. nesting (snd kv) \<le> 62" by (intro update_values) (simp_all add: sigObject_normal)
  then have "nesting (JObject ?sigs) \<le> 63" using nesting_le(1) [of 0 ?sigs 63] by auto
  moreover have "\<forall>kv \<in> set payload. nesting (snd kv) \<le> 63" using d(2) nesting_le(1) [of 0 payload 64] by auto
  ultimately have "\<forall>kv \<in> set envelope. nesting (snd kv) \<le> 63" unfolding envelope_def by (intro update_values)
  then show "nesting (JObject envelope) \<le> 64" using nesting_le(1) [of 0 envelope 64] by auto
  have "jnorm F (jnorm F (JObject ?sigs)) = jnorm F (JObject ?sigs)" using norm by (intro jnorm_twice) (simp del: jnorm.simps)
  moreover have "\<forall>kv \<in> set payload. jnorm F (jnorm F (snd kv)) = jnorm F (snd kv)"
    using n by (auto simp: jnorm_normal_object simp del: jnorm.simps)
  ultimately have "\<forall>kv \<in> set envelope. jnorm F (jnorm F (snd kv)) = jnorm F (snd kv)"
    unfolding envelope_def by (rule update_values [where P = "\<lambda>v. jnorm F (jnorm F v) = jnorm F v"])
  then show "jnorm F (jnorm F (JObject envelope)) = jnorm F (JObject envelope)" by (rule jnorm_twice)
qed

lemma addSignature_ok:
  assumes F: "numberTexts (elFloat (clEvents L))" and p: "preparedFromEnvelope L c envelope = Inr p"
    and a: "addSignature L c p role kid sig = Inr p'"
  shows "preSignedBytes p' = preSignedBytes p \<and> signatureFor p' role = Some (kid, RawURLEncode sig)"
proof -
  let ?F = "elFloat (clEvents L)" and ?name = "signatureName role" and ?sig = "sigObject kid (RawURLEncode sig)"
  from preparedFromEnvelope_ok [OF p F] obtain payload where
    pay: "cloneJSONObject ?F (preEnvelope p) = Inr payload" "jnorm ?F (JObject payload) = JObject payload" "distinctKeys (JObject payload)"
      "nesting (JObject payload) \<le> 64" "canonicalJSON ?F (JObject (AList.delete ''sigs'' payload)) = Inr (preSignedBytes p)" by blast
  let ?sigs = "AList.update ?name ?sig (case sigsOf payload of None \<Rightarrow> [] | Some sigs \<Rightarrow> sigs)"
  let ?env = "AList.update ''sigs'' (JObject ?sigs) payload"
  from a pay(1) have "preparedFromEnvelope L c ?env = Inr p'" by (simp add: addSignature_def Let_def)
  from preparedFromEnvelope_ok [OF this F] obtain payload' where
    new: "cloneJSONObject ?F ?env = Inr (preEnvelope p')" "cloneJSONObject ?F (preEnvelope p') = Inr payload'"
      "canonicalJSON ?F (JObject (AList.delete ''sigs'' payload')) = Inr (preSignedBytes p')" by blast
  note env = signed_envelope [OF pay(2-4), of ?name kid "RawURLEncode sig"]
  from clone_jnorm [OF F env(1,2) new(1)] have n: "jnorm ?F (JObject ?env) = JObject (preEnvelope p')" by simp
  from new(1) have "distinctKeys (JObject (preEnvelope p')) \<and> nesting (JObject (preEnvelope p')) \<le> 64"
    unfolding cloneJSONObject_def rbind_Inr_iff using decoded_wf by blast
  with clone_jnorm [OF F _ _ new(2)] env(3) n have "payload' = preEnvelope p'" by (auto simp del: jnorm.simps)
  moreover have "AList.delete ''sigs'' (preEnvelope p') = AList.delete ''sigs'' payload"
    using jnorm_delete [OF n, of "''sigs''"] normal_delete [OF pay(2), of "''sigs''"] by (simp add: delete_update_same del: jnorm.simps)
  ultimately have "preSignedBytes p' = preSignedBytes p" using new(3) pay(5) by simp
  moreover have "signatureFor p' role = Some (kid, RawURLEncode sig)"
  proof -
    obtain s where s: "jnorm ?F (JObject ?sigs) = JObject s" by (simp add: exI)
    from map_of_jnorm [OF n, of "''sigs''"] env(1) have "map_of (preEnvelope p') ''sigs'' = Some (JObject s)"
      by (simp add: update_Some_unfold s del: jnorm.simps)
    moreover from map_of_jnorm [OF s env(4), of ?name] have "map_of s ?name = Some ?sig"
      by (simp add: update_conv' sigObject_normal del: jnorm.simps)
    ultimately show ?thesis by (simp add: signatureFor_def sigsOf_def parseSig_def sigObject_def)
  qed
  ultimately show ?thesis by simp
qed

lemma signRole_ok:
  assumes "signRole L c p role kp named kid alg = Inr p'"
  shows "p' = p \<and> signatureFor p role \<noteq> None \<or> (\<exists>sig. addSignature L c p role kid sig = Inr p')"
proof (cases "Option.bind (sigsOf (preEnvelope p)) (\<lambda>sigs. map_of sigs (signatureName role))")
  case None
  with assms show ?thesis by (auto simp: signRole_def rbind_Inr_iff)
next
  case (Some existing)
  then have "signatureFor p role = parseSig (Some existing)" by (auto simp: signatureFor_def bind_eq_Some_conv)
  with assms Some show ?thesis by (auto simp: signRole_def split: option.splits if_splits)
qed

section \<open>Properties\<close>


text \<open>
  C19. \<open>SignPreparedEvent\<close>. Adding a signature to a prepared event keeps the bytes that are signed, and so the event id and every
  signature collected before; the role is one the event requires, and it has a signature afterwards. JSON numbers are
  printed so that they read back, which \<open>encoding/json\<close> documents.
\<close>
theorem signing_keeps_signed_bytes:
  assumes "numberTexts (elFloat (clEvents L))" and "preparedFromEnvelope L c envelope = Inr p"
    and "signPreparedEvent L c x (Some p) role provider named w = Some (Inr p', w')"
  shows "preSignedBytes p' = preSignedBytes p \<and> prepared_EventID L (Some p') = prepared_EventID L (Some p)
    \<and> role \<in> set (preRequired p) \<and> signatureFor p' role \<noteq> None"
proof -
  have roles: "containsRole roles role \<Longrightarrow> role \<in> set roles" for roles by (induction roles) (auto split: if_splits)
  have valid: "validatePrepared L c (Some p) = Inr q \<Longrightarrow> q = p" for q using validatePrepared_ok by blast
  from assms(3) obtain kp kid alg where c: "containsRole (preRequired p) role" and r: "signRole L c p role kp named kid alg = Inr p'"
    by (cases provider; cases w; cases w') (auto simp: signPreparedEvent_def io_ok map_err_Inr_iff dest!: valid split: if_splits)
  from signRole_ok [OF r] addSignature_ok [OF assms(1,2)] roles [OF c] show ?thesis by (auto simp: prepared_EventID_def)
qed

subsection \<open>Witnesses\<close>

text \<open>A draft of the sample genesis, that draft signed by the entity, and the provider that signs it.\<close>

definition sample_writer :: "(string, unit) Client" where
  "sample_writer = sample_reader\<lparr>cAppender := Some (\<lambda>_ _. Inr 0)\<rparr>"

definition sample_draft :: payload where
  "sample_draft = AList.delete ''sigs'' sample_genesis_payload"

definition sample_partial :: payload where
  "sample_partial = AList.update ''sigs'' (JObject [(''ae'', sigObject ''e'' sample_signature)]) sample_draft"

definition sample_partial_sorted :: payload where
  "sample_partial_sorted = AList.update ''sigs'' (JObject [(''ae'', sigObject ''e'' sample_signature)]) sample_genesis_payload"

definition sample_prepared :: "payload \<Rightarrow> PreparedEvent" where
  "sample_prepared envelope =
     \<lparr>preReference = Stream_Replay.sample_ref, preEnvelope = envelope, preSignedBytes = sample_signed,
      preRequired = [SignerEntity, SignerOperationalCountersignature]\<rparr>"

definition sample_provider :: "string keyProvider" where
  "sample_provider =
     \<lparr>kpJWK = (\<lambda>_. Some ''e''),
      kpSign = (\<lambda>_ _. Inr (Some \<lparr>ksKid = ''e'', ksAlg = ''EdDSA'', ksSignature = replicate 64 (CHR 0x00)\<rparr>))\<rparr>"

definition cloneable :: "payload \<Rightarrow> payload \<Rightarrow> bool" where
  "cloneable e n = (jnorm sample_float (JObject e) = JObject n \<and> distinctKeys (JObject e) \<and> nesting (JObject e) \<le> 64
     \<and> is_ok (canonicalJSON sample_float (JObject e)))"

lemma cloneable_clone:
  assumes "cloneable e n"
  shows "cloneJSONObject sample_float e = Inr n"
proof -
  from assms obtain bs where w: "canonicalJSON sample_float (JObject e) = Inr bs" using ok_projr by (metis cloneable_def)
  then have "writeCanonicalJSON sample_float (JObject e) = Inr bs" by (simp add: canonicalJSON_def rbind_Inr_iff)
  with decode_written [OF sample_number_texts] assms show ?thesis
    by (fastforce simp: cloneable_def cloneJSONObject_def w simp del: jnorm.simps writeCanonicalJSON.simps distinctKeys.simps nesting.simps)
qed

definition preparable :: "payload \<Rightarrow> bool" where
  "preparable n = (cloneable n n \<and> validatePayloadJSON sample_float n = Inr () 
     \<and> (case canonicalJSON sample_float (JObject n) of Inl _ \<Rightarrow> False | Inr entry \<Rightarrow> entry \<noteq> [] \<and> length entry \<le> maxEntrySize)
     \<and> canonicalJSON sample_float (JObject (AList.delete ''sigs'' n)) = Inr sample_signed
     \<and> (case eventFromPayload sample_events n of
          Inl _ \<Rightarrow> False
        | Inr parsed \<Rightarrow> peValidationError parsed = None \<and> evType (peEvent parsed) = LogEventIssuance
            \<and> evInitialEntityPublicKey (peEvent parsed) = Some ''e'' \<and> evInitialOperationalPublicKey (peEvent parsed) = Some ''o''
            \<and> validateWritableStream sample_clientLib sample_writer (peEvent parsed) = Inr ()
            \<and> validatePreparedChain sample_writer parsed = Inr ())
     \<and> validateSignatureShape n [SignerEntity, SignerOperationalCountersignature] False = Inr ()
     \<and> rbind (Origin (elParse sample_events) Stream_Replay.sample_ref) (\<lambda>origin.
         if stringOr n ''fqdn'' = refStreamID Stream_Replay.sample_ref
         then Inl (PlainError ''dnsid: stream ID must identify an identity instance'' None)
         else
           rbind (seqr (metadataCheck n)
                    [(''method'', Method), (''log_origin'', origin), (''stream_id'', refStreamID Stream_Replay.sample_ref),
                     (''lr'', reference_String Stream_Replay.sample_ref)])
             (\<lambda>_. Inr ())) = Inr ())"

lemma sample_preparable1: "preparable sample_genesis_payload"
  by code_simp

lemma sample_preparable2: "preparable sample_draft"
  by code_simp

lemma sample_preparable3: "preparable sample_partial_sorted"
  by code_simp

lemmas sample_preparable = sample_preparable1 sample_preparable2 sample_preparable3

lemma sample_cloneable: "cloneable sample_partial sample_partial_sorted" "cloneable sample_draft sample_draft"
  by code_simp+

lemma sample_writer_fields [simp]:
  "cRef sample_writer = Stream_Replay.sample_ref" "cAppender sample_writer = Some (\<lambda>_ _. Inr 0)"
  "plSkipProofVerify (cPolicy sample_writer) = False"
  by (simp_all add: sample_writer_def)

lemma sample_prepared_fields [simp]:
  "preReference (sample_prepared n) = Stream_Replay.sample_ref" "preEnvelope (sample_prepared n) = n"
  "preSignedBytes (sample_prepared n) = sample_signed" "preRequired (sample_prepared n) = [SignerEntity, SignerOperationalCountersignature]"
  by (simp_all add: sample_prepared_def)

lemma issuance_roles: "requiredSignerRoles LogEventIssuance = Inr [SignerEntity, SignerOperationalCountersignature]"
  by code_simp

lemma preparable_entry:
  assumes "preparable n"
  shows "canonicalJSON sample_float (JObject n) = Inr (sample_entry n)" "sample_entry n \<noteq> []" "length (sample_entry n) \<le> maxEntrySize"
  using assms unfolding preparable_def sample_entry_def by (auto split: sum.splits simp del: writeCanonicalJSON.simps)

lemma preparable_prepared:
  assumes n: "preparable n" and e: "cloneable e n"
  shows "preparedFromEnvelope sample_clientLib sample_writer e = Inr (sample_prepared n)"
proof -
  have c: "cloneable n n" "validatePayloadJSON sample_float n = Inr ()"
    "canonicalJSON sample_float (JObject (AList.delete ''sigs'' n)) = Inr sample_signed"
    "validateSignatureShape n [SignerEntity, SignerOperationalCountersignature] False = Inr ()"
    using n unfolding preparable_def by blast+
  from n obtain parsed where parsed: "eventFromPayload sample_events n = Inr parsed" "peValidationError parsed = None"
    "evType (peEvent parsed) = LogEventIssuance" "validateWritableStream sample_clientLib sample_writer (peEvent parsed) = Inr ()"
    "validatePreparedChain sample_writer parsed = Inr ()"
    unfolding preparable_def by (auto split: sum.splits)
  note entry = preparable_entry [OF n]
  have "payloadObjectFromEntry sample_float (sample_entry n) = Inr n"
    using c(1) by (intro payload_read [OF sample_number_texts _ _ _ c(2) entry(1,3)]) (simp_all only: cloneable_def)
  moreover have "rbind (Origin (elParse sample_events) Stream_Replay.sample_ref) (\<lambda>origin.
         if stringOr n ''fqdn'' = refStreamID Stream_Replay.sample_ref
         then Inl (PlainError ''dnsid: stream ID must identify an identity instance'' None)
         else
           rbind (seqr (metadataCheck n)
                    [(''method'', Method), (''log_origin'', origin), (''stream_id'', refStreamID Stream_Replay.sample_ref),
                     (''lr'', reference_String Stream_Replay.sample_ref)])
             (\<lambda>_. Inr ())) = Inr ()" using n unfolding preparable_def by blast
  ultimately have m: "validateEntryMetadata sample_events Stream_Replay.sample_ref (sample_entry n) = Inr ()" by (simp add: validateEntryMetadata_def)
  show ?thesis
    using cloneable_clone [OF e] cloneable_clone [OF c(1)] c parsed entry m issuance_roles
    by (simp add: preparedFromEnvelope_def sample_prepared_def not_less)
qed

lemma sample_keys:
  assumes "preparable n"
  shows "preparedSignerKeys sample_clientLib sample_writer sample_call (sample_prepared n) w
    = Some (Inr [(SignerEntity, Some ''e''), (SignerOperationalCountersignature, Some ''o'')], w)"
proof -
  from assms obtain parsed where "eventFromPayload sample_events n = Inr parsed" "evType (peEvent parsed) = LogEventIssuance"
    "evInitialEntityPublicKey (peEvent parsed) = Some ''e''" "evInitialOperationalPublicKey (peEvent parsed) = Some ''o''"
    unfolding preparable_def by (auto split: sum.splits)
  moreover have "validateResolvedKeyIDs sample_jwk [Some ''e'', Some ''o''] = Inr ()" by code_simp
  ultimately show ?thesis
    by (simp add: preparedSignerKeys_def preparedKeys_def prepared_Event_def sample_prepared_def io_bind_def io_lift_def)
qed

lemma sample_validated:
  assumes "preparable n"
  shows "validatePrepared sample_clientLib sample_writer (Some (sample_prepared n)) = Inr (sample_prepared n)"
  using cloneable_clone [of n n] assms unfolding preparable_def
  by (simp add: validatePrepared_def sample_prepared_def)

lemma sample_entry_complete:
  "validateSignatureShape sample_genesis_payload [SignerEntity, SignerOperationalCountersignature] True = Inr ()"
  "verifyPresentSignatures sample_jwk (sample_prepared sample_genesis_payload)
     [(SignerEntity, Some ''e''), (SignerOperationalCountersignature, Some ''o'')] = Inr ()"
  by code_simp+

lemma sample_written:
  "\<exists>w'. WritePreparedEvent sample_clientLib sample_writer sample_call (Some (sample_prepared sample_genesis_payload)) (0, ())
     = Some (Inr (FinalEventRef Stream_Replay.sample_ref 0), w')"
proof -
  note e = preparable_entry [OF sample_preparable(1)]
  have "parseEventFromEntry sample_events (sample_entry sample_genesis_payload) = Inr sample_parsed"
    using readable_parse(2) [OF sample_readable(1)] sample_parses by simp
  moreover have "validatePreparedChain sample_writer sample_parsed = Inr ()"
    using sample_preparable(1) sample_parses unfolding preparable_def by simp
  moreover have "isGenesisFor sample_writer (peEvent sample_parsed)" by (simp add: isGenesisFor_def sample_parsed_def)
  ultimately show ?thesis
    using e sample_validated [OF sample_preparable(1)] sample_keys [OF sample_preparable(1)] sample_entry_complete
    by (simp add: WritePreparedEvent_def PreparedEntryBytes_def validatePreparedChainAgainstHistory_def io_bind_def io_lift_def io_then_ctx_def
        io_ctx_def io_call_def not_less)
qed


lemma sample_signing:
  "signingKid sample_jwk sample_provider None (keyOf [(SignerEntity, Some ''e''), (SignerOperationalCountersignature, Some ''o'')] SignerEntity)
     = Inr (''e'', ''EdDSA'')"
  "newSignature sample_provider None ''e'' ''EdDSA'' sample_signed = Inr (replicate 64 (CHR 0x00))"
  "RawURLEncode (replicate 64 (CHR 0x00)) = sample_signature" "sigsOf sample_draft = None" "signatureName SignerEntity = ''ae''"
  "verifyPresentSignatures sample_jwk (sample_prepared sample_draft)
     [(SignerEntity, Some ''e''), (SignerOperationalCountersignature, Some ''o'')] = Inr ()"
  by code_simp+

lemma sample_signs:
  "\<exists>w'. signPreparedEvent sample_clientLib sample_writer sample_call (Some (sample_prepared sample_draft)) SignerEntity (Some sample_provider) None (0, ())
     = Some (Inr (sample_prepared sample_partial_sorted), w')"
proof -
  have "addSignature sample_clientLib sample_writer (sample_prepared sample_draft) SignerEntity ''e'' (replicate 64 (CHR 0x00))
    = Inr (sample_prepared sample_partial_sorted)"
    using preparable_prepared [OF sample_preparable(3) sample_cloneable(1)] cloneable_clone [OF sample_cloneable(2)] sample_signing(3-5)
    by (simp add: addSignature_def sample_partial_def)
  then show ?thesis
    using sample_validated [OF sample_preparable(2)] sample_keys [OF sample_preparable(2)] sample_signing
    by (simp add: signPreparedEvent_def signRole_def io_bind_def io_lift_def io_then_ctx_def io_ctx_def io_call_def)
qed

theorem signing_keeps_signed_bytes_witness:
  "preSignedBytes (sample_prepared sample_partial_sorted) = preSignedBytes (sample_prepared sample_draft)
     \<and> signatureFor (sample_prepared sample_partial_sorted) SignerEntity \<noteq> None"
proof -
  obtain w' where "signPreparedEvent sample_clientLib sample_writer sample_call (Some (sample_prepared sample_draft)) SignerEntity (Some sample_provider) None (0, ())
     = Some (Inr (sample_prepared sample_partial_sorted), w')" using sample_signs by blast
  from signing_keeps_signed_bytes [OF _ preparable_prepared [OF sample_preparable(2) sample_cloneable(2)] this] sample_number_texts
  show ?thesis by simp
qed

end
