(* ===== verification/Spec2Isabelle.thy ===== *)
theory Spec2Isabelle
  imports Record_Signature Prepared_Event
begin

text \<open>
  A verification development for the Go SDK of DNSid.
\<close>

end
